(* ===== verification/Prelude.thy ===== *)
theory Prelude
  imports Main "HOL-Library.Word" "HOL-Library.Sublist"
begin

text \<open>
  Shared vocabulary of the development.

  \<^item> Results: a Rust \<open>Result<T, E>\<close> is \<open>'e + 'a\<close> with \<open>Inl\<close> for the error.
  \<^item> Time: a \<open>std::time::Instant\<close> is an \<open>int\<close> (nanoseconds on the monotonic clock), a
    \<open>Duration\<close> is a \<open>nat\<close> of the same unit, and \<open>since\<close> is
    \<open>saturating_duration_since\<close>.
  \<^item> Strings: a Rust \<open>str\<close> is its UTF-8 byte sequence (\<open>string\<close> is a list of 8-bit
    characters), so \<open>len()\<close> is \<open>length\<close> and \<open>trim\<close> removes the encodings of the Unicode
    White\_Space code points.
  \<^item> Sliding windows: the contract every rate limiter of the program relies on, as a locale.
\<close>

named_theorems str_simps \<open>facts about the string primitives\<close>
named_theorems window_simps \<open>facts about time stamps and windows\<close>

subsection \<open>Results and durations\<close>

type_synonym instant = int
type_synonym duration = nat

definition from_secs :: "nat \<Rightarrow> duration" where
  "from_secs s = s * 1000000000"

definition from_millis :: "nat \<Rightarrow> duration" where
  "from_millis s = s * 1000000"

definition since :: "instant \<Rightarrow> instant \<Rightarrow> duration" where
  "since now t = nat (now - t)"

lemma since_self [simp, window_simps]: "since t t = 0"
  by (simp add: since_def)

lemma since_mono: "now \<le> now' \<Longrightarrow> since now t \<le> since now' t"
  by (simp add: since_def)

lemma since_antimono: "t \<le> t' \<Longrightarrow> since now t' \<le> since now t"
  by (simp add: since_def)

lemma since_le_iff [window_simps]: "since now t \<le> w \<longleftrightarrow> now \<le> t + int w"
  by (auto simp: since_def)

lemma since_less_iff [window_simps]: "0 < w \<Longrightarrow> since now t < w \<longleftrightarrow> now < t + int w"
  by (auto simp: since_def)

subsection \<open>Machine integers\<close>

definition u32_max :: nat where
  "u32_max = 4294967295"

definition u64_max :: nat where
  "u64_max = 18446744073709551615"

definition sat_add :: "nat \<Rightarrow> nat \<Rightarrow> nat" where
  "sat_add a b = min (a + b) u32_max"

definition sat_mul :: "nat \<Rightarrow> nat \<Rightarrow> nat" where
  "sat_mul a b = min (a * b) u32_max"

text \<open>\<open>x as u32\<close>, and \<open>Duration::as_secs\<close>.\<close>

definition as_u32 :: "nat \<Rightarrow> nat" where
  "as_u32 n = n mod 4294967296"

definition as_secs :: "duration \<Rightarrow> nat" where
  "as_secs d = d div 1000000000"

subsection \<open>Strings\<close>

text \<open>The UTF-8 encodings of the code points with the White\_Space property.\<close>

definition ws_encodings :: "string list" where
  "ws_encodings =
     [[CHR 0x09], [CHR 0x0A], [CHR 0x0B], [CHR 0x0C], [CHR 0x0D], [CHR 0x20],
      [CHR 0xC2, CHR 0x85], [CHR 0xC2, CHR 0xA0], [CHR 0xE1, CHR 0x9A, CHR 0x80],
      [CHR 0xE2, CHR 0x80, CHR 0x80], [CHR 0xE2, CHR 0x80, CHR 0x81],
      [CHR 0xE2, CHR 0x80, CHR 0x82], [CHR 0xE2, CHR 0x80, CHR 0x83],
      [CHR 0xE2, CHR 0x80, CHR 0x84], [CHR 0xE2, CHR 0x80, CHR 0x85],
      [CHR 0xE2, CHR 0x80, CHR 0x86], [CHR 0xE2, CHR 0x80, CHR 0x87],
      [CHR 0xE2, CHR 0x80, CHR 0x88], [CHR 0xE2, CHR 0x80, CHR 0x89],
      [CHR 0xE2, CHR 0x80, CHR 0x8A], [CHR 0xE2, CHR 0x80, CHR 0xA8],
      [CHR 0xE2, CHR 0x80, CHR 0xA9], [CHR 0xE2, CHR 0x80, CHR 0xAF],
      [CHR 0xE2, CHR 0x81, CHR 0x9F], [CHR 0xE3, CHR 0x80, CHR 0x80]]"

function strip_front :: "string list \<Rightarrow> string \<Rightarrow> string" where
  "strip_front ws s =
     (case find (\<lambda>w. w \<noteq> [] \<and> prefix w s) ws of
        None \<Rightarrow> s
      | Some w \<Rightarrow> strip_front ws (drop (length w) s))"
  by pat_completeness auto
termination
proof (relation "measure (length \<circ> snd)")
  fix ws :: "string list" and s w
  assume "find (\<lambda>w. w \<noteq> [] \<and> prefix w s) ws = Some w"
  then have "w \<noteq> []" and "prefix w s" by (auto simp: find_Some_iff)
  then show "((ws, drop (length w) s), (ws, s)) \<in> measure (length \<circ> snd)"
    by (cases w) (auto simp: prefix_def)
qed simp

declare strip_front.simps [simp del]

definition trim_start :: "string \<Rightarrow> string" where
  "trim_start s = strip_front ws_encodings s"

definition trim_end :: "string \<Rightarrow> string" where
  "trim_end s = rev (strip_front (map rev ws_encodings) (rev s))"

definition trim :: "string \<Rightarrow> string" where
  "trim s = trim_end (trim_start s)"

definition byte :: "char \<Rightarrow> nat" where
  "byte c = of_char c"

definition to_ascii_lower_char :: "char \<Rightarrow> char" where
  "to_ascii_lower_char c = (if 65 \<le> byte c \<and> byte c \<le> 90 then char_of (byte c + 32) else c)"

definition to_ascii_lowercase :: "string \<Rightarrow> string" where
  "to_ascii_lowercase s = map to_ascii_lower_char s"

definition eq_ignore_ascii_case :: "string \<Rightarrow> string \<Rightarrow> bool" where
  "eq_ignore_ascii_case a b \<longleftrightarrow> to_ascii_lowercase a = to_ascii_lowercase b"

definition is_ascii_hexdigit :: "char \<Rightarrow> bool" where
  "is_ascii_hexdigit c \<longleftrightarrow>
     48 \<le> byte c \<and> byte c \<le> 57 \<or> 65 \<le> byte c \<and> byte c \<le> 70 \<or> 97 \<le> byte c \<and> byte c \<le> 102"

definition is_ascii_alphanumeric :: "char \<Rightarrow> bool" where
  "is_ascii_alphanumeric c \<longleftrightarrow>
     48 \<le> byte c \<and> byte c \<le> 57 \<or> 65 \<le> byte c \<and> byte c \<le> 90 \<or> 97 \<le> byte c \<and> byte c \<le> 122"

text \<open>The shape test \<open>s.len() == 64 && s.chars().all(|c| c.is_ascii_hexdigit())\<close>.\<close>

definition hex64 :: "string \<Rightarrow> bool" where
  "hex64 s \<longleftrightarrow> length s = 64 \<and> list_all is_ascii_hexdigit s"

text \<open>\<open>s.trim().to_ascii_lowercase()\<close>, the normal form of a pubkey.\<close>

definition norm_key :: "string \<Rightarrow> string" where
  "norm_key s = to_ascii_lowercase (trim s)"

text \<open>Decimal rendering of a number, as \<open>format!\<close> does it.\<close>

fun decimal :: "nat \<Rightarrow> string" where
  "decimal n = (if n < 10 then [char_of (48 + n)] else decimal (n div 10) @ [char_of (48 + n mod 10)])"

declare decimal.simps [simp del]

lemma is_hex_lower [str_simps]: "is_ascii_hexdigit (to_ascii_lower_char c) = is_ascii_hexdigit c"
  by (auto simp: is_ascii_hexdigit_def to_ascii_lower_char_def byte_def)

lemma to_ascii_lower_char_idem [str_simps]:
  "to_ascii_lower_char (to_ascii_lower_char c) = to_ascii_lower_char c"
  by (auto simp: to_ascii_lower_char_def byte_def)

lemma to_ascii_lowercase_idem [str_simps]:
  "to_ascii_lowercase (to_ascii_lowercase s) = to_ascii_lowercase s"
  by (simp add: to_ascii_lowercase_def to_ascii_lower_char_idem)

lemma length_to_ascii_lowercase [simp]: "length (to_ascii_lowercase s) = length s"
  by (simp add: to_ascii_lowercase_def)

lemma hex64_lower [str_simps]: "hex64 (to_ascii_lowercase s) = hex64 s"
  by (simp add: hex64_def to_ascii_lowercase_def list_all_iff is_hex_lower)

lemma ws_no_hex:
  "\<forall>w \<in> set ws_encodings. w \<noteq> [] \<and> \<not> is_ascii_hexdigit (hd w) \<and> \<not> is_ascii_hexdigit (last w)"
  by (simp add: ws_encodings_def is_ascii_hexdigit_def byte_def)

lemma strip_front_hd:
  assumes "s = [] \<or> (\<forall>w \<in> set ws. w \<noteq> [] \<longrightarrow> hd w \<noteq> hd s)"
  shows "strip_front ws s = s"
proof -
  have "find (\<lambda>w. w \<noteq> [] \<and> prefix w s) ws = None"
    using assms by (auto simp: find_None_iff prefix_def hd_append)
  then show ?thesis by (subst strip_front.simps) simp
qed

lemma hex_ends_trim:
  assumes "list_all is_ascii_hexdigit s"
  shows "trim s = s"
proof -
  have "strip_front ws_encodings s = s"
    using assms ws_no_hex by (intro strip_front_hd) (metis hd_in_set list_all_iff)
  moreover have "strip_front (map rev ws_encodings) (rev s) = rev s"
  proof (intro strip_front_hd)
    show "rev s = [] \<or> (\<forall>w \<in> set (map rev ws_encodings). w \<noteq> [] \<longrightarrow> hd w \<noteq> hd (rev s))"
      using assms ws_no_hex
      by (simp add: hd_rev list_all_iff) (metis hd_rev last_in_set rev_is_Nil_conv)
  qed
  ultimately show ?thesis by (simp add: trim_def trim_start_def trim_end_def)
qed

lemma hex64_trim [str_simps]: "hex64 s \<Longrightarrow> trim s = s"
  by (simp add: hex64_def hex_ends_trim)

lemma norm_key_hex64 [str_simps]: "hex64 s \<Longrightarrow> norm_key s = to_ascii_lowercase s"
  by (simp add: norm_key_def hex64_trim)

lemma norm_key_idem [str_simps]: "hex64 (norm_key s) \<Longrightarrow> norm_key (norm_key s) = norm_key s"
  by (simp add: norm_key_hex64) (simp add: norm_key_def to_ascii_lowercase_idem)

lemma hex64_nonempty [dest]: "hex64 s \<Longrightarrow> s \<noteq> []"
  by (auto simp: hex64_def)

text \<open>Trimming twice is trimming once.\<close>

lemma strip_front_idem: "strip_front ws (strip_front ws s) = strip_front ws s"
proof (induction ws s rule: strip_front.induct)
  case (1 ws s)
  show ?case
  proof (cases "find (\<lambda>w. w \<noteq> [] \<and> prefix w s) ws")
    case None
    then have "strip_front ws s = s" by (subst strip_front.simps) simp
    then show ?thesis by simp
  next
    case (Some w)
    then have "strip_front ws s = strip_front ws (drop (length w) s)"
      by (subst strip_front.simps) simp
    with 1 Some show ?thesis by simp
  qed
qed

lemma strip_front_suffix: "suffix (strip_front ws s) s"
proof (induction ws s rule: strip_front.induct)
  case (1 ws s)
  show ?case
  proof (cases "find (\<lambda>w. w \<noteq> [] \<and> prefix w s) ws")
    case None
    then show ?thesis by (subst strip_front.simps) simp
  next
    case (Some w)
    then have "strip_front ws s = strip_front ws (drop (length w) s)"
      by (subst strip_front.simps) simp
    with 1 Some show ?thesis
      by (metis suffix_drop suffix_order.trans)
  qed
qed

lemma strip_front_fixed_iff:
  "strip_front ws s = s \<longleftrightarrow> (\<forall>w \<in> set ws. w \<noteq> [] \<longrightarrow> \<not> prefix w s)"
proof
  assume same: "strip_front ws s = s"
  show "\<forall>w \<in> set ws. w \<noteq> [] \<longrightarrow> \<not> prefix w s"
  proof (rule ccontr)
    assume "\<not> ?thesis"
    then obtain w where w: "find (\<lambda>w. w \<noteq> [] \<and> prefix w s) ws = Some w" "w \<noteq> []" "prefix w s"
      by (cases "find (\<lambda>w. w \<noteq> [] \<and> prefix w s) ws") (auto simp: find_None_iff find_Some_iff)
    then have "strip_front ws s = strip_front ws (drop (length w) s)"
      by (subst strip_front.simps) simp
    then have "length s \<le> length (drop (length w) s)"
      using same strip_front_suffix by (metis suffix_length_le)
    with w show False by (cases w) (auto simp: prefix_def)
  qed
next
  assume "\<forall>w \<in> set ws. w \<noteq> [] \<longrightarrow> \<not> prefix w s"
  then have "find (\<lambda>w. w \<noteq> [] \<and> prefix w s) ws = None" by (auto simp: find_None_iff)
  then show "strip_front ws s = s" by (subst strip_front.simps) simp
qed

lemma trim_idem [str_simps]: "trim (trim s) = trim s"
proof -
  let ?t = "trim_start s"
  have pre: "prefix (trim_end ?t) ?t"
    unfolding trim_end_def using strip_front_suffix suffix_to_prefix by (metis rev_rev_ident)
  have "strip_front ws_encodings ?t = ?t" by (simp add: trim_start_def strip_front_idem)
  then have "strip_front ws_encodings (trim_end ?t) = trim_end ?t"
    using pre by (metis prefix_order.trans strip_front_fixed_iff)
  then have "trim_start (trim s) = trim s" by (simp add: trim_def trim_start_def)
  moreover have "trim_end (trim s) = trim s"
    by (simp add: trim_def trim_end_def strip_front_idem)
  ultimately show ?thesis by (simp add: trim_def)
qed

lemma norm_key_of_trim [str_simps]: "norm_key (trim pk) = norm_key pk"
  by (simp add: norm_key_def trim_idem)

lemma norm_key_trim [str_simps]: "hex64 (norm_key pk) \<Longrightarrow> trim pk \<noteq> []"
  by (auto simp: norm_key_def to_ascii_lowercase_def hex64_def)

text \<open>\<open>haystack.contains(needle)\<close> on string slices.\<close>

definition str_contains :: "string \<Rightarrow> string \<Rightarrow> bool" where
  "str_contains hay needle \<longleftrightarrow> list_ex (\<lambda>t. prefix needle t) (suffixes hay)"

lemma str_contains_iff [str_simps]: "str_contains hay needle \<longleftrightarrow> sublist needle hay"
  by (simp add: str_contains_def list_ex_iff sublist_altdef' Bex_def)

text \<open>\<open>std::str::from_utf8\<close> succeeds.\<close>

definition cont_byte :: "char \<Rightarrow> bool" where
  "cont_byte c \<longleftrightarrow> 0x80 \<le> byte c \<and> byte c \<le> 0xBF"

function utf8_valid :: "string \<Rightarrow> bool" where
  "utf8_valid s =
     (case s of
        [] \<Rightarrow> True
      | a # s1 \<Rightarrow>
          if byte a < 0x80 then utf8_valid s1
          else case s1 of [] \<Rightarrow> False | b # s2 \<Rightarrow>
          if 0xC2 \<le> byte a \<and> byte a \<le> 0xDF then cont_byte b \<and> utf8_valid s2
          else case s2 of [] \<Rightarrow> False | c # s3 \<Rightarrow>
          if 0xE0 \<le> byte a \<and> byte a \<le> 0xEF then
            (if byte a = 0xE0 then 0xA0 \<le> byte b else True) \<and>
            (if byte a = 0xED then byte b \<le> 0x9F else True) \<and>
            cont_byte b \<and> cont_byte c \<and> utf8_valid s3
          else case s3 of [] \<Rightarrow> False | d # s4 \<Rightarrow>
            0xF0 \<le> byte a \<and> byte a \<le> 0xF4 \<and>
            (if byte a = 0xF0 then 0x90 \<le> byte b else True) \<and>
            (if byte a = 0xF4 then byte b \<le> 0x8F else True) \<and>
            cont_byte b \<and> cont_byte c \<and> cont_byte d \<and> utf8_valid s4)"
  by pat_completeness auto
termination by (relation "measure length") auto

declare utf8_valid.simps [simp del]

text \<open>\<open>s.split(c)\<close> on a single-byte separator, and on a set of them.\<close>

fun split_on :: "(char \<Rightarrow> bool) \<Rightarrow> string \<Rightarrow> string list" where
  "split_on p [] = [[]]"
| "split_on p (c # cs) =
     (case split_on p cs of
        [] \<Rightarrow> [[c]]
      | part # parts \<Rightarrow> if p c then [] # part # parts else (c # part) # parts)"

lemma split_on_not_Nil [simp]: "split_on p s \<noteq> []"
  by (cases s) (auto split: list.splits)

text \<open>\<open>s.split_once(pat)\<close> and \<open>s.rsplit_once(pat)\<close>.\<close>

fun split_once :: "string \<Rightarrow> string \<Rightarrow> (string \<times> string) option" where
  "split_once pat [] = (if pat = [] then Some ([], []) else None)"
| "split_once pat (c # cs) =
     (if prefix pat (c # cs) then Some ([], drop (length pat) (c # cs))
      else map_option (\<lambda>(a, b). (c # a, b)) (split_once pat cs))"

lemma split_once_first:
  assumes "list_all (\<lambda>c. c \<noteq> d) a"
  shows "split_once (d # pat) (a @ d # pat @ rest) = Some (a, rest)"
  using assms by (induction a) auto

definition rsplit_once :: "string \<Rightarrow> string \<Rightarrow> (string \<times> string) option" where
  "rsplit_once pat s = map_option (\<lambda>(a, b). (rev b, rev a)) (split_once (rev pat) (rev s))"

definition hex_char :: "nat \<Rightarrow> char" where
  "hex_char d = (if d < 10 then char_of (48 + d) else char_of (87 + d))"

text \<open>Counting the elements of a list that satisfy a condition.\<close>

lemma filter_fewer: "(\<And>x. x \<in> set xs \<Longrightarrow> P x \<Longrightarrow> Q x) \<Longrightarrow> length (filter P xs) \<le> length (filter Q xs)"
  by (induction xs) (auto simp: le_SucI)

lemma filter_one_more:
  "distinct xs \<Longrightarrow> (\<And>x. x \<in> set xs \<Longrightarrow> P x \<Longrightarrow> Q x \<or> x = k) \<Longrightarrow> length (filter P xs) \<le> Suc (length (filter Q xs))"
proof (induction xs)
  case (Cons x xs)
  show ?case
  proof (cases "x = k")
    case True
    then have "length (filter P xs) \<le> length (filter Q xs)"
      by (intro filter_fewer) (use Cons.prems in auto)
    then show ?thesis by simp
  qed (use Cons in auto)
qed simp

lemma filter_one_less:
  assumes "k \<in> set xs" and "Q k" and "\<not> P k" and "\<And>x. x \<in> set xs \<Longrightarrow> P x \<Longrightarrow> Q x"
  shows "Suc (length (filter P xs)) \<le> length (filter Q xs)"
  using assms
proof (induction xs)
  case (Cons x xs)
  show ?case
  proof (cases "x = k")
    case True
    then have "length (filter P xs) \<le> length (filter Q xs)"
      by (intro filter_fewer) (use Cons.prems in auto)
    then show ?thesis using True Cons.prems by simp
  qed (use Cons in \<open>auto simp: le_SucI\<close>)
qed simp

text \<open>A well-formed public key, for the concrete instances.\<close>

definition sample_key :: "char \<Rightarrow> string" where
  "sample_key c = replicate 64 c"

lemma hex64_sample_key [simp]: "is_ascii_hexdigit c \<Longrightarrow> hex64 (sample_key c)"
  by (simp add: hex64_def sample_key_def list_all_iff)

lemma norm_key_sample_key [simp]:
  "is_ascii_hexdigit c \<Longrightarrow> to_ascii_lower_char c = c \<Longrightarrow> norm_key (sample_key c) = sample_key c"
  by (simp add: norm_key_hex64) (simp add: sample_key_def to_ascii_lowercase_def)

end
