(* ===== verification/Json.thy ===== *)
theory Json
  imports Prelude
begin

text \<open>
  The \<open>serde_json::Value\<close> tree the relay processes read (\<open>crates/relay-policy\<close>), with the accessors
  the code calls on it. Parsing a text to a tree and rendering a tree to a text are the library's,
  and stay parameters of the definitions that use them.
\<close>

datatype json =
    JNull
  | JBool bool
  | JPosInt nat \<comment> \<open>a number held as \<open>u64\<close>\<close>
  | JNegInt int \<comment> \<open>a number held as a negative \<open>i64\<close>\<close>
  | JFloat string \<comment> \<open>any other number, by its text\<close>
  | JStr string
  | JArr "json list"
  | JObj "(string \<times> json) list"

fun as_array :: "json \<Rightarrow> json list option" where
  "as_array (JArr xs) = Some xs"
| "as_array _ = None"

fun as_str :: "json \<Rightarrow> string option" where
  "as_str (JStr s) = Some s"
| "as_str _ = None"

fun as_u64 :: "json \<Rightarrow> nat option" where
  "as_u64 (JPosInt n) = Some n"
| "as_u64 _ = None"

text \<open>\<open>Value::get\<close> with a string key: \<open>None\<close> on anything but an object.\<close>

fun get_field :: "string \<Rightarrow> json \<Rightarrow> json option" where
  "get_field k (JObj fields) = map_of fields k"
| "get_field k _ = None"

text \<open>\<open>slice.get(i)\<close>.\<close>

definition get_index :: "nat \<Rightarrow> 'a list \<Rightarrow> 'a option" where
  "get_index i xs = (if i < length xs then Some (xs ! i) else None)"

definition unwrap_or :: "'a \<Rightarrow> 'a option \<Rightarrow> 'a" where
  "unwrap_or d x = (case x of None \<Rightarrow> d | Some v \<Rightarrow> v)"

lemma unwrap_or_simps [simp]: "unwrap_or d None = d" "unwrap_or d (Some v) = v"
  by (simp_all add: unwrap_or_def)

text \<open>\<open>iter().filter_map(f)\<close>.\<close>

definition filter_map :: "('a \<Rightarrow> 'b option) \<Rightarrow> 'a list \<Rightarrow> 'b list" where
  "filter_map f xs = map the (filter (\<lambda>x. x \<noteq> None) (map f xs))"

lemma filter_map_Nil [simp]: "filter_map f [] = []"
  by (simp add: filter_map_def)

lemma filter_map_Cons [simp]:
  "filter_map f (x # xs) = (case f x of None \<Rightarrow> filter_map f xs | Some y \<Rightarrow> y # filter_map f xs)"
  by (simp add: filter_map_def split: option.splits)

lemma set_filter_map: "set (filter_map f xs) = {y. \<exists>x \<in> set xs. f x = Some y}"
  by (induction xs) (auto split: option.splits)

end
