(* ===== verification/ReadPolicy.thy ===== *)
theory ReadPolicy
  imports Json
begin

text \<open>
  The read rule of the relay's WebSocket gate, \<open>crates/relay-policy/src/read_policy.rs\<close>: the
  directory of members and channels (\<open>ReadDirectory::from_parts\<close>), the fields of an event the rule
  looks at (\<open>EventView\<close>) and \<open>allow_event\<close>, which decides who may receive a stored event.

  The specification \<open>may_read\<close> speaks about the rows the directory was built from; the lemmas
  show that the directory implements it.
\<close>

definition GIFT_WRAP_KIND :: nat where "GIFT_WRAP_KIND = 1059"
definition PLAIN_DM_KIND :: nat where "PLAIN_DM_KIND = 4"
definition GROUP_METADATA_KIND_MIN :: nat where "GROUP_METADATA_KIND_MIN = 39000"
definition GROUP_METADATA_KIND_MAX :: nat where "GROUP_METADATA_KIND_MAX = 39003"

record member_acl =
  acl_pubkey :: string
  acl_member_id :: string
  acl_officer :: bool
  acl_teams :: "string set"

record group_acl =
  grp_team_id :: string
  grp_officer_only :: bool

record read_directory =
  readers :: "string \<rightharpoonup> member_acl"
  groups :: "string \<rightharpoonup> group_acl"

subsection \<open>Building the directory\<close>

definition insert_reader :: "(string \<rightharpoonup> member_acl) \<Rightarrow> member_acl \<Rightarrow> (string \<rightharpoonup> member_acl)" where
  "insert_reader rs m =
     (let pk = norm_key (acl_pubkey m) in
      if \<not> hex64 pk then rs else rs(pk \<mapsto> m\<lparr>acl_pubkey := pk\<rparr>))"

definition insert_group ::
  "(string \<rightharpoonup> group_acl) \<Rightarrow> string \<times> group_acl \<Rightarrow> (string \<rightharpoonup> group_acl)" where
  "insert_group gs row =
     (case row of (raw, rule) \<Rightarrow>
        let gid = trim raw in
        if gid \<noteq> [] \<and> grp_team_id rule \<noteq> [] then gs(gid \<mapsto> rule) else gs)"

definition from_parts :: "member_acl list \<Rightarrow> (string \<times> group_acl) list \<Rightarrow> read_directory" where
  "from_parts ms gs =
     \<lparr>readers = foldl insert_reader Map.empty ms, groups = foldl insert_group Map.empty gs\<rparr>"

definition reader :: "read_directory \<Rightarrow> string \<Rightarrow> member_acl option" where
  "reader dir pk = readers dir (norm_key pk)"

subsection \<open>Event fields\<close>

record event_view =
  ev_pubkey :: string
  ev_kind :: nat
  ev_tags :: "string list list"

definition tag_from_json :: "json \<Rightarrow> string list option" where
  "tag_from_json tag = map_option (filter_map as_str) (as_array tag)"

definition event_from_json :: "json \<Rightarrow> event_view option" where
  "event_from_json v =
     Option.bind (Option.bind (get_field ''pubkey'' v) as_str) (\<lambda>pk.
     Option.bind (Option.bind (get_field ''kind'' v) as_u64) (\<lambda>kind.
       Some \<lparr>ev_pubkey = norm_key pk, ev_kind = kind,
             ev_tags = unwrap_or []
               (map_option (filter_map tag_from_json)
                 (Option.bind (get_field ''tags'' v) as_array))\<rparr>))"

definition tag_values :: "event_view \<Rightarrow> string \<Rightarrow> string list" where
  "tag_values ev name =
     filter_map (\<lambda>tag. if get_index 0 tag = Some name then get_index 1 tag else None) (ev_tags ev)"

definition first_tag :: "event_view \<Rightarrow> string \<Rightarrow> string option" where
  "first_tag ev name = find (\<lambda>v. v \<noteq> []) (map trim (tag_values ev name))"

definition group_id :: "event_view \<Rightarrow> string option" where
  "group_id ev = first_tag ev ''h''"

definition address_id :: "event_view \<Rightarrow> string option" where
  "address_id ev = first_tag ev ''d''"

definition p_tag_matches :: "event_view \<Rightarrow> string \<Rightarrow> bool" where
  "p_tag_matches ev pk \<longleftrightarrow> list_ex (\<lambda>p. eq_ignore_ascii_case (trim p) pk) (tag_values ev ''p'')"

subsection \<open>The rule\<close>

datatype read_deny =
  SignedOut | NotMember | GiftWrapNotAddressed | TeamChat | OfficerChat | NotShared

fun read_deny_text :: "read_deny \<Rightarrow> string" where
  "read_deny_text SignedOut = ''signed out''"
| "read_deny_text NotMember = ''not an active member''"
| "read_deny_text GiftWrapNotAddressed = ''gift wrap p-tag is not this member''"
| "read_deny_text TeamChat = ''team chat is limited to team members''"
| "read_deny_text OfficerChat = ''officer chat is limited to officers on that team''"
| "read_deny_text NotShared = ''event is not shared with this member''"

definition is_group_metadata :: "nat \<Rightarrow> bool" where
  "is_group_metadata kind \<longleftrightarrow> GROUP_METADATA_KIND_MIN \<le> kind \<and> kind \<le> GROUP_METADATA_KIND_MAX"

definition allow_group :: "member_acl \<Rightarrow> string \<Rightarrow> read_directory \<Rightarrow> read_deny + unit" where
  "allow_group m gid dir =
     (case groups dir gid of
        None \<Rightarrow> Inl NotShared
      | Some g \<Rightarrow>
          let on_team = grp_team_id g \<in> acl_teams m in
          if grp_officer_only g then
            (if acl_officer m \<and> on_team then Inr () else Inl OfficerChat)
          else if on_team then Inr () else Inl TeamChat)"

definition allow_event ::
  "string option \<Rightarrow> event_view \<Rightarrow> read_directory \<Rightarrow> read_deny + unit" where
  "allow_event authed ev dir =
     (case (case authed of None \<Rightarrow> None
            | Some p \<Rightarrow> if trim p \<noteq> [] then Some (trim p) else None) of
        None \<Rightarrow> Inl SignedOut
      | Some pk \<Rightarrow>
          (case reader dir pk of
             None \<Rightarrow> Inl NotMember
           | Some m \<Rightarrow>
               if ev_kind ev = GIFT_WRAP_KIND then
                 (if p_tag_matches ev (acl_pubkey m) then Inr () else Inl GiftWrapNotAddressed)
               else if is_group_metadata (ev_kind ev) then
                 (case address_id ev of
                    None \<Rightarrow> Inl NotShared
                  | Some gid \<Rightarrow> allow_group m gid dir)
               else
                 (case group_id ev of
                    Some gid \<Rightarrow> allow_group m gid dir
                  | None \<Rightarrow> Inl NotShared)))"

subsection \<open>The directory against the rows it was built from\<close>

text \<open>The row that speaks for a key: the last member row with that normalised key.\<close>

definition member_row :: "member_acl list \<Rightarrow> string \<Rightarrow> member_acl option" where
  "member_row ms pk =
     (if hex64 (norm_key pk)
      then find (\<lambda>m. norm_key (acl_pubkey m) = norm_key pk) (rev ms) else None)"

definition channel_row :: "(string \<times> group_acl) list \<Rightarrow> string \<Rightarrow> group_acl option" where
  "channel_row gs gid =
     (if gid = [] then None
      else map_option snd (find (\<lambda>(raw, g). trim raw = gid \<and> grp_team_id g \<noteq> []) (rev gs)))"

lemma find_append: "find P (xs @ ys) = (case find P xs of None \<Rightarrow> find P ys | Some x \<Rightarrow> Some x)"
  by (induction xs) auto

lemma foldl_insert_reader:
  "foldl insert_reader rs ms k =
     (case find (\<lambda>m. norm_key (acl_pubkey m) = k \<and> hex64 k) (rev ms) of
        None \<Rightarrow> rs k | Some m \<Rightarrow> Some (m\<lparr>acl_pubkey := k\<rparr>))"
  by (induction ms arbitrary: rs)
     (auto simp: find_append insert_reader_def Let_def split: option.splits)

lemma foldl_insert_group:
  "foldl insert_group hs gs k =
     (case find (\<lambda>row. trim (fst row) = k \<and> k \<noteq> [] \<and> grp_team_id (snd row) \<noteq> []) (rev gs) of
        None \<Rightarrow> hs k | Some row \<Rightarrow> Some (snd row))"
  by (induction gs arbitrary: hs)
     (auto simp: find_append insert_group_def Let_def split: option.splits if_splits)

lemma find_conj_const: "find (\<lambda>x. P x \<and> c) xs = (if c then find P xs else None)"
  by (induction xs) auto

lemma find_False [simp]: "find (\<lambda>x. False) xs = None"
  by (induction xs) auto

lemma reader_from_parts:
  "reader (from_parts ms gs) pk =
     map_option (\<lambda>m. m\<lparr>acl_pubkey := norm_key pk\<rparr>) (member_row ms pk)"
  by (simp add: reader_def from_parts_def foldl_insert_reader member_row_def find_conj_const
        split: option.splits)

lemma groups_from_parts: "groups (from_parts ms gs) gid = channel_row gs gid"
  by (cases "gid = []")
     (simp_all add: from_parts_def foldl_insert_group channel_row_def split_def
        split: option.splits)

lemma member_row_SomeD: "member_row ms pk = Some m \<Longrightarrow> hex64 (norm_key pk) \<and> trim pk \<noteq> [] \<and> m \<in> set ms"
  by (auto simp: member_row_def norm_key_def to_ascii_lowercase_def hex64_def find_Some_iff
        split: if_splits) (metis in_set_conv_nth length_rev set_rev)

lemma channel_row_SomeD: "channel_row gs gid = Some g \<Longrightarrow> gid \<noteq> []"
  by (auto simp: channel_row_def split: if_splits)

text \<open>
  The contract of the gate, over the rows: an active member's own gift wraps, and the events of the
  channels of the member's teams, officer channels only to officers.
\<close>

definition event_channel :: "event_view \<Rightarrow> string option" where
  "event_channel ev =
     (if is_group_metadata (ev_kind ev) then address_id ev else group_id ev)"

definition may_read ::
  "member_acl list \<Rightarrow> (string \<times> group_acl) list \<Rightarrow> string \<Rightarrow> event_view \<Rightarrow> bool" where
  "may_read ms gs pk ev \<longleftrightarrow>
     (\<exists>m. member_row ms pk = Some m \<and>
        (if ev_kind ev = GIFT_WRAP_KIND
         then (\<exists>p \<in> set (tag_values ev ''p''). norm_key p = norm_key pk)
         else (\<exists>gid g. event_channel ev = Some gid \<and> channel_row gs gid = Some g \<and>
                 grp_team_id g \<in> acl_teams m \<and> (grp_officer_only g \<longrightarrow> acl_officer m))))"

lemma allow_group_iff:
  "allow_group m gid dir = Inr () \<longleftrightarrow>
     (\<exists>g. groups dir gid = Some g \<and> grp_team_id g \<in> acl_teams m \<and> (grp_officer_only g \<longrightarrow> acl_officer m))"
  by (auto simp: allow_group_def Let_def split: option.splits)

lemma allow_group_frame: "allow_group (m\<lparr>acl_pubkey := k\<rparr>) gid dir = allow_group m gid dir"
  by (simp add: allow_group_def Let_def split: option.splits)

lemma p_tag_matches_iff:
  "p_tag_matches ev (norm_key pk) \<longleftrightarrow> (\<exists>p \<in> set (tag_values ev ''p''). norm_key p = norm_key pk)"
  by (auto simp: p_tag_matches_def list_ex_iff eq_ignore_ascii_case_def norm_key_def
        to_ascii_lowercase_idem)

text \<open>Trimming first, as \<open>allow_event\<close> does, finds the same reader.\<close>

lemma reader_trim: "reader dir (trim pk) = reader dir pk"
  by (simp add: reader_def norm_key_of_trim)

lemma allow_event_signed_in:
  "allow_event (Some pk) ev (from_parts ms gs) = Inr () \<longleftrightarrow> may_read ms gs pk ev"
proof (cases "member_row ms pk")
  case None
  then show ?thesis
    by (auto simp: allow_event_def may_read_def reader_trim reader_from_parts)
next
  case (Some m)
  then have "trim pk \<noteq> []" using member_row_SomeD by blast
  with Some show ?thesis
    by (auto simp: allow_event_def may_read_def reader_trim reader_from_parts p_tag_matches_iff
          allow_group_iff allow_group_frame groups_from_parts event_channel_def
          split: option.splits)
qed

lemma allow_event_SomeD:
  "allow_event authed ev dir = Inr () \<Longrightarrow> \<exists>pk m. authed = Some pk \<and> reader dir pk = Some m"
  by (auto simp: allow_event_def reader_trim split: option.splits if_splits)

end
