(* ===== verification/RateWindow.thy ===== *)
theory RateWindow
  imports Prelude
begin

text \<open>
  The contract of the program's sliding-window limiters (the read gate's message and connection
  rates, the write plugin's per-author bucket, the gift-wrap budget), and the one theorem
  their clients need: over any sequence of operations the number of accepted requests
  that still lie in the window never exceeds the cap.

  \<open>step op now s\<close> runs one operation at time \<open>now\<close>; its first component says whether the
  operation was a request of the tracked key that was let through. A limiter may also charge
  refused requests (\<open>keep_rejected\<close> is an inequality), and operations of other keys count as
  steps that let nothing through.
\<close>

fun accepted :: "('op \<Rightarrow> instant \<Rightarrow> 's \<Rightarrow> bool \<times> 's) \<Rightarrow> 's \<Rightarrow> ('op \<times> instant) list \<Rightarrow> instant list"
where
  "accepted step s [] = []"
| "accepted step s ((x, now) # rest) =
     (case step x now s of (b, s') \<Rightarrow>
        (if b then [now] else []) @ accepted step s' rest)"

fun final_state :: "('op \<Rightarrow> instant \<Rightarrow> 's \<Rightarrow> bool \<times> 's) \<Rightarrow> 's \<Rightarrow> ('op \<times> instant) list \<Rightarrow> 's" where
  "final_state step s [] = s"
| "final_state step s ((x, now) # rest) = final_state step (snd (step x now s)) rest"

definition count_live :: "(instant \<Rightarrow> instant \<Rightarrow> bool) \<Rightarrow> instant \<Rightarrow> instant list \<Rightarrow> nat" where
  "count_live live now ts = length (filter (live now) ts)"

lemma count_live_append [simp]:
  "count_live live now (xs @ ys) = count_live live now xs + count_live live now ys"
  by (simp add: count_live_def)

lemma count_live_Nil [simp]: "count_live live now [] = 0"
  by (simp add: count_live_def)

text \<open>Time never runs backwards along a trace that starts at \<open>t\<close>.\<close>

fun ordered_from :: "instant \<Rightarrow> ('op \<times> instant) list \<Rightarrow> bool" where
  "ordered_from t [] = True"
| "ordered_from t ((x, now) # rest) \<longleftrightarrow> t \<le> now \<and> ordered_from now rest"

fun end_time :: "instant \<Rightarrow> ('op \<times> instant) list \<Rightarrow> instant" where
  "end_time t [] = t"
| "end_time t ((x, now) # rest) = end_time now rest"

locale rate_limiter =
  fixes step :: "'op \<Rightarrow> instant \<Rightarrow> 's \<Rightarrow> bool \<times> 's"
    and stamps :: "'s \<Rightarrow> instant list"
    and live :: "instant \<Rightarrow> instant \<Rightarrow> bool"
    and ok :: "instant \<Rightarrow> 's \<Rightarrow> bool"
    and cap :: nat
  assumes live_antimono: "now \<le> now' \<Longrightarrow> live now' t \<Longrightarrow> live now t"
    and ok_later: "ok t s \<Longrightarrow> t \<le> now \<Longrightarrow> ok now s"
    and ok_step: "ok now s \<Longrightarrow> step x now s = (b, s') \<Longrightarrow> ok now s'"
    and accept_cap:
      "ok now s \<Longrightarrow> step x now s = (True, s') \<Longrightarrow> count_live live now (stamps s @ [now]) \<le> cap"
    and keep_accepted:
      "ok now s \<Longrightarrow> step x now s = (True, s') \<Longrightarrow> now \<le> later \<Longrightarrow>
       count_live live later (stamps s @ [now]) \<le> count_live live later (stamps s')"
    and keep_rejected:
      "ok now s \<Longrightarrow> step x now s = (False, s') \<Longrightarrow> now \<le> later \<Longrightarrow>
       count_live live later (stamps s) \<le> count_live live later (stamps s')"
begin

lemma count_live_antimono: "now \<le> later \<Longrightarrow> count_live live later ts \<le> count_live live now ts"
  unfolding count_live_def
  by (induction ts) (auto dest: live_antimono)

text \<open>
  The invariant of a run: with \<open>past\<close> the requests accepted before, the live ones are at most
  \<open>cap\<close>, and the limiter still remembers at least as many stamps.
\<close>

lemma accepted_window_aux:
  assumes "ok t s" and "ordered_from t tr"
    and "\<And>later. t \<le> later \<Longrightarrow> count_live live later past \<le> count_live live later (stamps s)"
    and "\<And>later. t \<le> later \<Longrightarrow> count_live live later past \<le> cap"
    and "end_time t tr \<le> later"
  shows "count_live live later (past @ accepted step s tr) \<le> cap"
  using assms
proof (induction tr arbitrary: t s past)
  case Nil
  then show ?case by simp
next
  case (Cons e tr)
  obtain x now where e: "e = (x, now)" by force
  obtain b s' where st: "step x now s = (b, s')" by force
  from Cons.prems e have le: "t \<le> now" and rest: "ordered_from now tr" by auto
  have ok: "ok now s" using Cons.prems(1) le by (rule ok_later)
  have ok': "ok now s'" using ok st by (rule ok_step)
  show ?case
  proof (cases b)
    case True
    have a: "count_live live l (past @ [now]) \<le> count_live live l (stamps s')" if "now \<le> l" for l
      using keep_accepted [OF ok, of x s' l] st True that Cons.prems(3) [of l] le by simp
    have b: "count_live live l (past @ [now]) \<le> cap" if "now \<le> l" for l
    proof -
      have "count_live live l (past @ [now]) \<le> count_live live l (stamps s @ [now])"
        using Cons.prems(3) [of l] le that by simp
      also have "\<dots> \<le> count_live live now (stamps s @ [now])"
        using that by (rule count_live_antimono)
      also have "\<dots> \<le> cap" using accept_cap [OF ok, of x s'] st True by simp
      finally show ?thesis .
    qed
    have "count_live live later ((past @ [now]) @ accepted step s' tr) \<le> cap"
      by (rule Cons.IH [OF ok' rest a b]) (use Cons.prems(5) e in simp_all)
    then show ?thesis using e st True by simp
  next
    case False
    have a: "count_live live l past \<le> count_live live l (stamps s')" if "now \<le> l" for l
      using keep_rejected [OF ok, of x s' l] st False that Cons.prems(3) [of l] le
      by (auto intro: order_trans)
    have b: "count_live live l past \<le> cap" if "now \<le> l" for l
      using Cons.prems(4) [of l] le that by simp
    have "count_live live later (past @ accepted step s' tr) \<le> cap"
      by (rule Cons.IH [OF ok' rest a b]) (use Cons.prems(5) e in simp_all)
    then show ?thesis using e st False by simp
  qed
qed

lemma accepted_window:
  assumes "ok t s" and "ordered_from t tr" and "end_time t tr \<le> later"
  shows "count_live live later (accepted step s tr) \<le> cap"
  using accepted_window_aux [OF assms(1,2), of "[]" later] assms(3) by simp

lemma ok_final: "ok t s \<Longrightarrow> ordered_from t tr \<Longrightarrow> ok (end_time t tr) (final_state step s tr)"
proof (induction tr arbitrary: t s)
  case (Cons e tr)
  obtain x now where e: "e = (x, now)" by force
  obtain b s' where st: "step x now s = (b, s')" by force
  have "ok now s'" using Cons.prems e st by (auto intro: ok_step ok_later)
  then show ?case using Cons.IH [of now s'] Cons.prems e st by simp
qed simp

end

text \<open>
  Front pruning of a time-ordered queue, and filtering, drop the same stamps when
  liveness is monotone in the stamp.
\<close>

lemma dropWhile_eq_filter:
  assumes "sorted ts" and "\<And>t t'. t \<le> t' \<Longrightarrow> P t' \<Longrightarrow> P t"
  shows "dropWhile P ts = filter (\<lambda>t. \<not> P t) ts"
  using assms(1)
proof (induction ts)
  case (Cons t ts)
  show ?case
  proof (cases "P t")
    case True
    with Cons show ?thesis by simp
  next
    case False
    then have "\<forall>t' \<in> set ts. \<not> P t'" using Cons.prems assms(2) by auto
    then have "filter (\<lambda>t. \<not> P t) ts = ts" by (simp add: filter_id_conv)
    with False show ?thesis by simp
  qed
qed simp

end
