(* ===== verification/GiftBudget.thy ===== *)
theory GiftBudget
  imports RateWindow Json
begin

text \<open>
  The gift-wrap budget of the read gate, \<open>GiftBudget\<close> in \<open>crates/relay-policy/src/session.rs\<close>: one
  bucket of time stamps per pair of authenticated sender and recipient, charged when a
  wrap is let through, swept on a timer. The mutex around the map makes each operation atomic, so
  an operation is a function of the state and the clock reading it takes.
\<close>

record gift_budget =
  gb_limit :: nat
  gb_window :: duration
  gb_buckets :: "string \<rightharpoonup> instant list"

definition gift_budget_new :: "nat \<Rightarrow> nat \<Rightarrow> gift_budget" where
  "gift_budget_new limit window_secs =
     \<lparr>gb_limit = limit, gb_window = from_secs window_secs, gb_buckets = Map.empty\<rparr>"

definition recipient_of :: "json \<Rightarrow> string option" where
  "recipient_of tag =
     Option.bind (as_array tag) (\<lambda>parts.
       if Option.bind (get_index 0 parts) as_str \<noteq> Some ''p'' then None
       else Option.bind (Option.bind (get_index 1 parts) as_str) (\<lambda>raw.
         let pk = norm_key raw in if hex64 pk then Some pk else None))"

definition recipient_pubkeys :: "json \<Rightarrow> string list" where
  "recipient_pubkeys frame =
     (case Option.bind (Option.bind (Option.bind (as_array frame) (get_index 1))
             (get_field ''tags'')) as_array of
        None \<Rightarrow> []
      | Some tags \<Rightarrow> filter_map recipient_of tags)"

definition gift_key :: "string \<Rightarrow> string \<Rightarrow> string" where
  "gift_key authed recipient = ''gift:'' @ authed @ '':'' @ recipient"

definition in_window :: "duration \<Rightarrow> instant \<Rightarrow> instant \<Rightarrow> bool" where
  "in_window w now stamp \<longleftrightarrow> since now stamp < w"

definition or_default :: "('k \<rightharpoonup> 'v list) \<Rightarrow> 'k \<Rightarrow> 'v list" where
  "or_default m k = (case m k of None \<Rightarrow> [] | Some v \<Rightarrow> v)"

definition charge :: "duration \<Rightarrow> instant \<Rightarrow> (string \<rightharpoonup> instant list) \<Rightarrow> string \<Rightarrow>
    (string \<rightharpoonup> instant list)" where
  "charge w now bs key = bs(key \<mapsto> filter (in_window w now) (or_default bs key) @ [now])"

definition gift_allow ::
  "gift_budget \<Rightarrow> string \<Rightarrow> json \<Rightarrow> instant \<Rightarrow> bool \<times> gift_budget" where
  "gift_allow gb authed frame now =
     (let recipients = recipient_pubkeys frame in
      if recipients = [] then (True, gb)
      else
        let a = norm_key authed;
            keys = map (gift_key a) recipients;
            w = gb_window gb
        in if list_ex (\<lambda>key. gb_limit gb \<le> length (filter (in_window w now)
                (or_default (gb_buckets gb) key))) keys
           then (False, gb)
           else (True, gb\<lparr>gb_buckets := foldl (charge w now) (gb_buckets gb) keys\<rparr>))"

text \<open>\<open>HashMap::retain\<close> over the buckets: stale stamps go, then empty buckets.\<close>

definition sweep_buckets ::
  "(instant \<Rightarrow> bool) \<Rightarrow> (string \<rightharpoonup> instant list) \<Rightarrow> (string \<rightharpoonup> instant list)" where
  "sweep_buckets keep bs =
     (\<lambda>k. case bs k of None \<Rightarrow> None
          | Some st \<Rightarrow> let st' = filter keep st in if st' = [] then None else Some st')"

definition sweep_at :: "gift_budget \<Rightarrow> instant \<Rightarrow> gift_budget" where
  "sweep_at gb now =
     gb\<lparr>gb_buckets := sweep_buckets (in_window (gb_window gb) now) (gb_buckets gb)\<rparr>"

subsection \<open>Buckets under the operations\<close>

lemma or_default_sweep [window_simps]:
  "or_default (sweep_buckets keep bs) k = filter keep (or_default bs k)"
  by (simp add: or_default_def sweep_buckets_def Let_def split: option.splits)

lemma or_default_charge_same:
  "or_default (charge w now bs k) k = filter (in_window w now) (or_default bs k) @ [now]"
  by (simp add: charge_def or_default_def)

lemma or_default_charge_other: "k' \<noteq> k \<Longrightarrow> or_default (charge w now bs k) k' = or_default bs k'"
  by (simp add: charge_def or_default_def)

lemma foldl_charge_other: "k \<notin> set keys \<Longrightarrow> foldl (charge w now) bs keys k = bs k"
  by (induction keys arbitrary: bs) (auto simp: charge_def)

lemma in_window_antimono: "now \<le> later \<Longrightarrow> in_window w later t \<Longrightarrow> in_window w now t"
  unfolding in_window_def using since_mono [of now later t] by linarith

lemma count_live_filter_in_window:
  assumes "now \<le> later"
  shows "count_live (in_window w) later (filter (in_window w now) ts) = count_live (in_window w) later ts"
proof -
  have "filter (in_window w later) (filter (in_window w now) ts) = filter (in_window w later) ts"
    using in_window_antimono [OF assms] by (auto intro: filter_cong)
  then show ?thesis by (simp add: count_live_def)
qed

lemma count_live_charge:
  assumes "now \<le> later"
  shows "count_live (in_window w) later (or_default bs k)
           \<le> count_live (in_window w) later (or_default (charge w now bs k') k)"
  by (cases "k = k'")
     (simp_all add: or_default_charge_same or_default_charge_other count_live_filter_in_window assms)

lemma count_live_foldl_charge:
  assumes "now \<le> later"
  shows "count_live (in_window w) later (or_default bs k)
           \<le> count_live (in_window w) later (or_default (foldl (charge w now) bs keys) k)"
proof (induction keys arbitrary: bs)
  case (Cons k' keys)
  show ?case using Cons [of "charge w now bs k'"] count_live_charge [OF assms, of w bs k k']
    by simp
qed simp

lemma count_live_foldl_charged:
  assumes "now \<le> later" and "k \<in> set keys"
  shows "count_live (in_window w) later (or_default bs k @ [now])
           \<le> count_live (in_window w) later (or_default (foldl (charge w now) bs keys) k)"
  using assms(2)
proof (induction keys arbitrary: bs)
  case (Cons k' keys)
  show ?case
  proof (cases "k = k'")
    case True
    then have "count_live (in_window w) later (or_default (charge w now bs k') k) =
        count_live (in_window w) later (or_default bs k @ [now])"
      by (simp add: or_default_charge_same count_live_filter_in_window assms)
    then show ?thesis
      using count_live_foldl_charge [OF assms(1), of w "charge w now bs k'" k keys] by simp
  next
    case False
    then show ?thesis using Cons.IH [of "charge w now bs k'"] Cons.prems
      by (simp add: or_default_charge_other)
  qed
qed simp

subsection \<open>The budget as a rate limiter\<close>

datatype gift_op = Publish string json | Sweep

definition charged_keys :: "string \<Rightarrow> json \<Rightarrow> string list" where
  "charged_keys authed frame = map (gift_key (norm_key authed)) (recipient_pubkeys frame)"

definition gift_step :: "string \<Rightarrow> gift_op \<Rightarrow> instant \<Rightarrow> gift_budget \<Rightarrow> bool \<times> gift_budget" where
  "gift_step key x now gb =
     (case x of
        Publish authed frame \<Rightarrow>
          (case gift_allow gb authed frame now of
             (b, gb') \<Rightarrow> (b \<and> key \<in> set (charged_keys authed frame), gb'))
      | Sweep \<Rightarrow> (False, sweep_at gb now))"

definition gift_ok :: "nat \<Rightarrow> duration \<Rightarrow> instant \<Rightarrow> gift_budget \<Rightarrow> bool" where
  "gift_ok n w now gb \<longleftrightarrow> gb_limit gb = n \<and> gb_window gb = w"

definition gift_stamps :: "string \<Rightarrow> gift_budget \<Rightarrow> instant list" where
  "gift_stamps key gb = or_default (gb_buckets gb) key"

lemma gift_allow_cases:
  assumes "gift_allow gb authed frame now = (b, gb')"
  obtains (empty) "b" "gb' = gb" "charged_keys authed frame = []"
  | (full) key where "\<not> b" "gb' = gb" "key \<in> set (charged_keys authed frame)"
      "gb_limit gb \<le> count_live (in_window (gb_window gb)) now (gift_stamps key gb)"
  | (charged) "b" "charged_keys authed frame \<noteq> []"
      "gb' = gb\<lparr>gb_buckets := foldl (charge (gb_window gb) now) (gb_buckets gb) (charged_keys authed frame)\<rparr>"
      "\<forall>key \<in> set (charged_keys authed frame).
         count_live (in_window (gb_window gb)) now (gift_stamps key gb) < gb_limit gb"
  using assms
  by (auto simp: gift_allow_def Let_def charged_keys_def count_live_def gift_stamps_def list_ex_iff
        not_le split: if_splits)

lemma gift_step_keeps_config:
  "gift_ok n w now gb \<Longrightarrow> gift_step key x now gb = (b, gb') \<Longrightarrow> gift_ok n w now gb'"
  by (auto simp: gift_step_def gift_ok_def sweep_at_def gift_allow_def Let_def
        split: gift_op.splits prod.splits if_splits)

interpretation gifts: rate_limiter "gift_step key" "gift_stamps key" "in_window w" "gift_ok n w" n
  for key n w
proof (unfold_locales, goal_cases)
  case (1 now now' t)
  then show ?case by (rule in_window_antimono)
next
  case (2 t s now)
  then show ?case by (simp add: gift_ok_def)
next
  case (3 now s x b s')
  then show ?case by (rule gift_step_keeps_config)
next
  case (4 now s x s')
  then obtain authed frame where x: "x = Publish authed frame"
      and al: "gift_allow s authed frame now = (True, s')" and key: "key \<in> set (charged_keys authed frame)"
    by (auto simp: gift_step_def split: gift_op.splits prod.splits)
  from al show ?case
    by (rule gift_allow_cases) (use key 4(1) in \<open>auto simp: gift_ok_def count_live_def\<close>)
next
  case (5 now s x s' later)
  then obtain authed frame where x: "x = Publish authed frame"
      and al: "gift_allow s authed frame now = (True, s')" and key: "key \<in> set (charged_keys authed frame)"
    by (auto simp: gift_step_def split: gift_op.splits prod.splits)
  from al show ?case
  proof (rule gift_allow_cases, goal_cases)
    case 1
    then show ?thesis using key by simp
  next
    case (2 k)
    then show ?thesis by simp
  next
    case 3
    then show ?thesis
      using 5(1) count_live_foldl_charged [OF 5(3) key, of w "gb_buckets s"]
      by (simp add: gift_stamps_def gift_ok_def)
  qed
next
  case (6 now s x s' later)
  show ?case
  proof (cases x)
    case (Publish authed frame)
    then obtain b where al: "gift_allow s authed frame now = (b, s')"
      using 6(2) by (auto simp: gift_step_def split: prod.splits)
    from al show ?thesis
      by (rule gift_allow_cases)
         (use 6(1) count_live_foldl_charge [OF 6(3)] in \<open>auto simp: gift_stamps_def gift_ok_def\<close>)
  next
    case Sweep
    then show ?thesis using 6
      by (auto simp: gift_step_def sweep_at_def gift_stamps_def gift_ok_def window_simps
            count_live_filter_in_window)
  qed
qed

text \<open>The key of a pair determines the pair: recipients are 64 characters long.\<close>

lemma gift_key_inject:
  assumes "gift_key a r = gift_key a' r'" and "length r = length r'"
  shows "a = a' \<and> r = r'"
  using assms by (simp add: gift_key_def)

lemma recipient_pubkeys_hex64: "r \<in> set (recipient_pubkeys frame) \<Longrightarrow> hex64 r"
  by (auto simp: recipient_pubkeys_def set_filter_map recipient_of_def Let_def bind_eq_Some_conv
        split: option.splits if_splits)

subsection \<open>The budget over a run\<close>

text \<open>
  C38: the gift-wrap budget is a sliding-window cap per sender and recipient. Over any sequence of
  published wraps and sweeps in time order, from any senders to any recipients, the wraps of one
  authenticated sender to one recipient that were let through and still lie in the window are at
  most the limit.
\<close>

theorem gift_wraps_within_budget:
  assumes "ordered_from t ops" and "end_time t ops \<le> later"
  shows "count_live (in_window (from_secs secs)) later
    (accepted (gift_step (gift_key (norm_key sender) recipient)) (gift_budget_new n secs) ops) \<le> n"
  by (rule gifts.accepted_window [OF _ assms]) (simp add: gift_ok_def gift_budget_new_def)

definition wit_wrap :: json where
  "wit_wrap = JArr [JStr ''EVENT'',
     JObj [(''kind'', JPosInt 1059), (''tags'', JArr [JArr [JStr ''p'', JStr (sample_key CHR ''b'')]])]]"

theorem gift_wraps_within_budget_witness:
  "count_live (in_window (from_secs 60)) 9
    (accepted (gift_step (gift_key (norm_key (sample_key CHR ''a'')) (sample_key CHR ''b'')))
      (gift_budget_new 2 60)
      [(Publish (sample_key CHR ''a'') wit_wrap, 1), (Publish (sample_key CHR ''a'') wit_wrap, 2),
       (Publish (sample_key CHR ''a'') wit_wrap, 3), (Sweep, 9)]) \<le> 2"
  by (rule gift_wraps_within_budget [of 0]) simp_all

text \<open>
  A sender cannot use up another sender's budget. Whatever frame one authenticated key
  publishes, the bucket of any other key for any recipient is what it was, whether
  the frame is let through or refused.
\<close>

theorem gift_budget_isolated:
  assumes "norm_key authed \<noteq> norm_key victim" and "hex64 recipient"
  shows "gb_buckets (snd (gift_allow gb authed frame now)) (gift_key (norm_key victim) recipient) =
         gb_buckets gb (gift_key (norm_key victim) recipient)"
proof -
  have "gift_key (norm_key victim) recipient \<notin> set (charged_keys authed frame)"
  proof
    assume "gift_key (norm_key victim) recipient \<in> set (charged_keys authed frame)"
    then obtain r where "r \<in> set (recipient_pubkeys frame)"
        and eq: "gift_key (norm_key victim) recipient = gift_key (norm_key authed) r"
      by (auto simp: charged_keys_def)
    then have "length recipient = length r" using assms(2) recipient_pubkeys_hex64 by (auto simp: hex64_def)
    with gift_key_inject [OF eq] assms(1) show False by simp
  qed
  moreover obtain b gb' where "gift_allow gb authed frame now = (b, gb')" by force
  then show ?thesis
    by (rule gift_allow_cases) (use calculation \<open>gift_allow gb authed frame now = (b, gb')\<close>
        in \<open>simp_all add: foldl_charge_other\<close>)
qed

theorem gift_budget_isolated_witness:
  "gb_buckets (snd (gift_allow (gift_budget_new 2 60) (sample_key CHR ''a'') wit_wrap 5))
     (gift_key (norm_key (sample_key CHR ''c'')) (sample_key CHR ''b'')) =
   gb_buckets (gift_budget_new 2 60) (gift_key (norm_key (sample_key CHR ''c'')) (sample_key CHR ''b''))"
  by (rule gift_budget_isolated)
     (simp_all add: is_ascii_hexdigit_def byte_def to_ascii_lower_char_def, simp add: sample_key_def)

end
