(* ===== verification/GateSession.thy ===== *)
theory GateSession
  imports ReadPolicy GiftBudget
begin

text \<open>
  One connection of the read gate: \<open>GateSession\<close> of \<open>crates/relay-policy/src/session.rs\<close> (client
  frames, NIP-42 AUTH, publishing, relay frames) and \<open>verify_nip42\<close> of \<open>nip42.rs\<close>.

  Parameters of the definitions, for code that is not in the repository:
  \<^item> \<open>parse\<close>: \<open>serde_json::from_str\<close>, \<open>None\<close> on malformed text;
  \<^item> \<open>render\<close>: the text of a JSON value;
  \<^item> \<open>verify\<close>: an \<open>AuthVerifier\<close>, in production \<open>verify_nip42\<close>, which itself takes the event
    parser and the signature check of the \<open>nostr\<close> library.
\<close>

definition AUTH_REQUIRED :: string where
  "AUTH_REQUIRED = ''auth-required: NIP-42 AUTH required before REQ''"
definition PUBLISH_AUTH_REQUIRED :: string where
  "PUBLISH_AUTH_REQUIRED = ''auth-required: NIP-42 AUTH required before publishing''"
definition COUNT_DISABLED :: string where
  "COUNT_DISABLED = ''restricted: COUNT is disabled''"
definition NEG_DISABLED :: string where
  "NEG_DISABLED = ''restricted: negentropy sync is disabled''"
definition RATE_LIMITED :: string where
  "RATE_LIMITED = ''rate-limited: too many events''"

record client_outcome =
  to_client :: "string list"
  to_relay :: "string list"

record gate_session =
  challenge :: string
  authed_pubkey :: "string option"

definition session_new :: "string \<Rightarrow> gate_session" where
  "session_new ch = \<lparr>challenge = ch, authed_pubkey = None\<rparr>"

definition challenge_message :: "(json \<Rightarrow> string) \<Rightarrow> gate_session \<Rightarrow> string" where
  "challenge_message render s = render (JArr [JStr ''AUTH'', JStr (challenge s)])"

definition closed_msg :: "(json \<Rightarrow> string) \<Rightarrow> string \<Rightarrow> string \<Rightarrow> string" where
  "closed_msg render sub_id reason = render (JArr [JStr ''CLOSED'', JStr sub_id, JStr reason])"

definition ok_msg :: "(json \<Rightarrow> string) \<Rightarrow> string \<Rightarrow> bool \<Rightarrow> string \<Rightarrow> string" where
  "ok_msg render event_id acc message =
     render (JArr [JStr ''OK'', JStr event_id, JBool acc, JStr message])"

definition published_kind :: "json \<Rightarrow> nat option" where
  "published_kind v =
     Option.bind (Option.bind (Option.bind (as_array v) (get_index 1)) (get_field ''kind'')) as_u64"

definition published_id :: "json \<Rightarrow> string" where
  "published_id v =
     unwrap_or [] (Option.bind (Option.bind (Option.bind (as_array v) (get_index 1))
       (get_field ''id'')) as_str)"

subsection \<open>Publishing, subscribing, authenticating\<close>

definition reply :: "string \<Rightarrow> client_outcome" where
  "reply msg = \<lparr>to_client = [msg], to_relay = []\<rparr>"

definition forward :: "string \<Rightarrow> client_outcome" where
  "forward text = \<lparr>to_client = [], to_relay = [text]\<rparr>"

definition silent :: client_outcome where
  "silent = \<lparr>to_client = [], to_relay = []\<rparr>"

definition gate_event ::
  "(json \<Rightarrow> string) \<Rightarrow> gate_session \<Rightarrow> string \<Rightarrow> json \<Rightarrow> read_directory \<Rightarrow> gift_budget \<Rightarrow> instant
     \<Rightarrow> client_outcome \<times> gift_budget" where
  "gate_event render s text v dir gb now =
     (let event_id = published_id v in
      case authed_pubkey s of
        None \<Rightarrow> (reply (ok_msg render event_id False PUBLISH_AUTH_REQUIRED), gb)
      | Some authed \<Rightarrow>
          if reader dir authed = None then
            (reply (ok_msg render event_id False PUBLISH_AUTH_REQUIRED), gb)
          else if published_kind v = Some PLAIN_DM_KIND then
            (reply (ok_msg render event_id False ''blocked: kind 4 plain DMs are not accepted''), gb)
          else if published_kind v = Some GIFT_WRAP_KIND then
            (case gift_allow gb authed v now of
               (False, gb') \<Rightarrow> (reply (ok_msg render event_id False RATE_LIMITED), gb')
             | (True, gb') \<Rightarrow> (forward text, gb'))
          else (forward text, gb))"

definition gate_req :: "(json \<Rightarrow> string) \<Rightarrow> gate_session \<Rightarrow> string \<Rightarrow> string \<Rightarrow> client_outcome" where
  "gate_req render s text sub_id =
     (if authed_pubkey s = None then reply (closed_msg render sub_id AUTH_REQUIRED)
      else forward text)"

definition on_auth ::
  "(json \<Rightarrow> string) \<Rightarrow> (json \<Rightarrow> string \<Rightarrow> string + string) \<Rightarrow> gate_session \<Rightarrow> json
     \<Rightarrow> client_outcome \<times> gate_session" where
  "on_auth render verify s v =
     (let event_id = published_id v in
      case Option.bind (as_array v) (get_index 1) of
        None \<Rightarrow> (reply (ok_msg render event_id False ''auth-required: missing AUTH event''), s)
      | Some event \<Rightarrow>
          (case verify event (challenge s) of
             Inr pk \<Rightarrow> (reply (ok_msg render event_id True []), s\<lparr>authed_pubkey := Some (norm_key pk)\<rparr>)
           | Inl reason \<Rightarrow>
               (reply (ok_msg render event_id False (''auth-required: '' @ reason)), s)))"

text \<open>The first element of a frame, when it is a string.\<close>

definition frame_kind :: "json \<Rightarrow> string option" where
  "frame_kind v = Option.bind (Option.bind (as_array v) (get_index 0)) as_str"

definition on_client_text ::
  "(string \<Rightarrow> json option) \<Rightarrow> (json \<Rightarrow> string) \<Rightarrow> (json \<Rightarrow> string \<Rightarrow> string + string) \<Rightarrow>
   string \<Rightarrow> read_directory \<Rightarrow> instant \<Rightarrow> gate_session \<times> gift_budget
     \<Rightarrow> client_outcome \<times> gate_session \<times> gift_budget" where
  "on_client_text parse render verify text dir now st =
     (case st of (s, gb) \<Rightarrow>
      case parse text of None \<Rightarrow> (silent, s, gb)
      | Some v \<Rightarrow>
        (case frame_kind v of None \<Rightarrow> (silent, s, gb)
         | Some kind \<Rightarrow>
            let sub_id = unwrap_or [] (Option.bind (Option.bind (as_array v) (get_index 1)) as_str) in
            if kind = ''REQ'' then (gate_req render s text sub_id, s, gb)
            else if kind = ''COUNT'' then (reply (closed_msg render sub_id COUNT_DISABLED), s, gb)
            else if prefix ''NEG'' kind then (reply (closed_msg render sub_id NEG_DISABLED), s, gb)
            else if kind = ''EVENT'' then
              (case gate_event render s text v dir gb now of (out, gb') \<Rightarrow> (out, s, gb'))
            else if kind = ''CLOSE'' then (forward text, s, gb)
            else if kind = ''AUTH'' then
              (case on_auth render verify s v of (out, s') \<Rightarrow> (out, s', gb))
            else (silent, s, gb)))"

text \<open>A frame from strfry: \<open>None\<close> drops it.\<close>

definition on_relay_text ::
  "(string \<Rightarrow> json option) \<Rightarrow> gate_session \<Rightarrow> string \<Rightarrow> read_directory \<Rightarrow> string option" where
  "on_relay_text parse s text dir =
     Option.bind (parse text) (\<lambda>v.
     Option.bind (frame_kind v) (\<lambda>kind.
       if kind = ''AUTH'' then None
       else if kind = ''EVENT'' then
         Option.bind (Option.bind (as_array v) (get_index 2)) (\<lambda>event_json.
         Option.bind (event_from_json event_json) (\<lambda>event.
           case allow_event (authed_pubkey s) event dir of
             Inr _ \<Rightarrow> Some text
           | Inl reason \<Rightarrow> None))
       else Some text))"

subsection \<open>The production verifier\<close>

text \<open>
  \<open>parse_event\<close> is \<open>nostr::Event::from_json\<close> on the rendered value, giving the kind, the tags and the
  author's key in hex; \<open>check_sig\<close> is \<open>Event::verify\<close>.
\<close>

record nostr_event =
  ne_kind :: nat
  ne_tags :: "string list list"
  ne_pubkey :: string

definition verify_nip42 ::
  "(json \<Rightarrow> string + nostr_event) \<Rightarrow> (json \<Rightarrow> bool) \<Rightarrow> json \<Rightarrow> string \<Rightarrow> string + string" where
  "verify_nip42 parse_event check_sig event ch =
     (if ch = [] then Inl ''empty challenge''
      else case parse_event event of
        Inl e \<Rightarrow> Inl (''invalid AUTH event: '' @ e)
      | Inr ev \<Rightarrow>
          if \<not> check_sig event then Inl ''bad signature''
          else if ne_kind ev \<noteq> 22242 then Inl ''kind must be 22242''
          else if \<not> list_ex (\<lambda>parts. 2 \<le> length parts \<and> parts ! 0 = ''challenge'' \<and> parts ! 1 = ch)
                   (ne_tags ev)
          then Inl ''challenge mismatch''
          else Inr (ne_pubkey ev))"

lemma verify_nip42_Inr:
  "verify_nip42 parse_event check_sig event ch = Inr pk \<longleftrightarrow>
     ch \<noteq> [] \<and> check_sig event \<and>
     (\<exists>ev. parse_event event = Inr ev \<and> ne_kind ev = 22242 \<and> ne_pubkey ev = pk \<and>
        (\<exists>parts \<in> set (ne_tags ev). 2 \<le> length parts \<and> parts ! 0 = ''challenge'' \<and> parts ! 1 = ch))"
  by (auto simp: verify_nip42_def list_ex_iff split: sum.splits)

subsection \<open>What a client frame can cause\<close>

text \<open>The specification of the upstream direction: which client frames strfry gets to see.\<close>

definition passes_upstream ::
  "(string \<Rightarrow> json option) \<Rightarrow> string \<Rightarrow> read_directory \<Rightarrow> gate_session \<Rightarrow> gift_budget \<Rightarrow> instant \<Rightarrow> bool"
where
  "passes_upstream parse text dir s gb now \<longleftrightarrow>
     (\<exists>v kind. parse text = Some v \<and> frame_kind v = Some kind \<and>
        (kind = ''CLOSE'' \<or>
         kind = ''REQ'' \<and> authed_pubkey s \<noteq> None \<or>
         kind = ''EVENT'' \<and>
           (\<exists>pk. authed_pubkey s = Some pk \<and> reader dir pk \<noteq> None \<and>
              published_kind v \<noteq> Some PLAIN_DM_KIND \<and>
              (published_kind v = Some GIFT_WRAP_KIND \<longrightarrow> fst (gift_allow gb pk v now)))))"

text \<open>An \<open>AUTH\<close> frame the verifier accepts for the challenge \<open>ch\<close>, and the key it proves.\<close>

definition authenticates ::
  "(string \<Rightarrow> json option) \<Rightarrow> (json \<Rightarrow> string \<Rightarrow> string + string) \<Rightarrow> string \<Rightarrow> string \<Rightarrow> string \<Rightarrow> bool"
where
  "authenticates parse verify ch text pk \<longleftrightarrow>
     (\<exists>v event raw. parse text = Some v \<and> frame_kind v = Some ''AUTH'' \<and>
        Option.bind (as_array v) (get_index 1) = Some event \<and>
        verify event ch = Inr raw \<and> pk = norm_key raw)"

lemmas outcome_defs = reply_def forward_def silent_def

lemma gate_event_to_relay:
  "to_relay (fst (gate_event render s text v dir gb now)) =
     (if \<exists>pk. authed_pubkey s = Some pk \<and> reader dir pk \<noteq> None \<and>
              published_kind v \<noteq> Some PLAIN_DM_KIND \<and>
              (published_kind v = Some GIFT_WRAP_KIND \<longrightarrow> fst (gift_allow gb pk v now))
      then [text] else [])"
  by (cases "authed_pubkey s")
     (auto simp: gate_event_def Let_def outcome_defs split: prod.splits bool.splits)

lemma on_auth_to_relay: "to_relay (fst (on_auth render verify s v)) = []"
  by (auto simp: on_auth_def Let_def outcome_defs split: option.splits sum.splits)

lemma on_client_to_relay:
  "to_relay (fst (on_client_text parse render verify text dir now (s, gb))) =
     (if passes_upstream parse text dir s gb now then [text] else [])"
proof (cases "parse text")
  case None
  then show ?thesis by (simp add: on_client_text_def passes_upstream_def outcome_defs)
next
  case v: (Some v)
  show ?thesis
  proof (cases "frame_kind v")
    case None
    with v show ?thesis by (simp add: on_client_text_def passes_upstream_def outcome_defs)
  next
    case kind: (Some kind)
    consider "kind = ''REQ''" | "kind = ''EVENT''" | "kind = ''CLOSE''" | "kind = ''AUTH''"
      | "kind \<notin> {''REQ'', ''EVENT'', ''CLOSE'', ''AUTH''}" by blast
    then show ?thesis
    proof cases
      case 2
      then show ?thesis using v kind gate_event_to_relay [of render s "text" v dir gb now]
        by (simp add: on_client_text_def passes_upstream_def split_def)
    next
      case 4
      then show ?thesis using v kind on_auth_to_relay [of render verify s v]
        by (simp add: on_client_text_def passes_upstream_def split_def)
    qed (use v kind in \<open>auto simp: on_client_text_def passes_upstream_def gate_req_def outcome_defs Let_def\<close>)
  qed
qed

lemma on_auth_session:
  assumes "on_auth render verify s v = (out, s')"
  shows "challenge s' = challenge s \<and>
    (authed_pubkey s' = authed_pubkey s \<or>
     (\<exists>event raw. Option.bind (as_array v) (get_index 1) = Some event \<and>
        verify event (challenge s) = Inr raw \<and> authed_pubkey s' = Some (norm_key raw)))"
  using assms by (auto simp: on_auth_def Let_def split: option.splits sum.splits)

lemma on_client_other_session:
  assumes "Option.bind (parse text) frame_kind \<noteq> Some ''AUTH''"
  shows "fst (snd (on_client_text parse render verify text dir now (s, gb))) = s"
proof (cases "parse text")
  case (Some v)
  show ?thesis
  proof (cases "frame_kind v")
    case kind: (Some kind)
    with assms Some have "kind \<noteq> ''AUTH''" by simp
    with Some kind show ?thesis by (simp add: on_client_text_def split_def Let_def)
  qed (simp add: on_client_text_def Some)
qed (simp add: on_client_text_def)

lemma on_client_auth_session:
  assumes "parse text = Some v" and "frame_kind v = Some ''AUTH''"
  shows "fst (snd (on_client_text parse render verify text dir now (s, gb))) =
         snd (on_auth render verify s v)"
  using assms by (simp add: on_client_text_def split_def)

lemma on_client_session:
  assumes "on_client_text parse render verify text dir now (s, gb) = (out, s', gb')"
  shows "challenge s' = challenge s \<and>
    (authed_pubkey s' = authed_pubkey s \<or>
     (\<exists>pk. authenticates parse verify (challenge s) text pk \<and> authed_pubkey s' = Some pk))"
proof (cases "Option.bind (parse text) frame_kind = Some ''AUTH''")
  case True
  then obtain v where v: "parse text = Some v" "frame_kind v = Some ''AUTH''"
    by (auto simp: bind_eq_Some_conv)
  obtain o' where "on_auth render verify s v = (o', s')"
    using on_client_auth_session [of parse "text", OF v, of render verify dir now s gb] assms
    by (metis fst_conv prod.collapse snd_conv)
  from on_auth_session [OF this] v show ?thesis unfolding authenticates_def by blast
next
  case False
  with on_client_other_session [of parse "text" render verify dir now s gb] assms show ?thesis by simp
qed

text \<open>The event inside an \<open>EVENT\<close> frame of strfry.\<close>

definition carried_event :: "(string \<Rightarrow> json option) \<Rightarrow> string \<Rightarrow> event_view option" where
  "carried_event parse text =
     Option.bind (parse text) (\<lambda>v.
       Option.bind (Option.bind (as_array v) (get_index 2)) event_from_json)"

definition is_event_frame :: "(string \<Rightarrow> json option) \<Rightarrow> string \<Rightarrow> bool" where
  "is_event_frame parse text \<longleftrightarrow> Option.bind (parse text) frame_kind = Some ''EVENT''"

lemma on_relay_event:
  assumes "is_event_frame parse text"
  shows "on_relay_text parse s text dir = Some out \<longleftrightarrow>
    out = text \<and> (\<exists>ev. carried_event parse text = Some ev \<and> allow_event (authed_pubkey s) ev dir = Inr ())"
proof -
  from assms obtain v where v: "parse text = Some v" "frame_kind v = Some ''EVENT''"
    by (auto simp: is_event_frame_def bind_eq_Some_conv)
  have "on_relay_text parse s text dir =
      Option.bind (carried_event parse text) (\<lambda>ev.
        case allow_event (authed_pubkey s) ev dir of Inr _ \<Rightarrow> Some text | Inl _ \<Rightarrow> None)"
    using v by (simp add: on_relay_text_def carried_event_def bind_assoc)
  then show ?thesis
    by (cases "carried_event parse text") (auto split: sum.splits)
qed

end
