(* ===== verification/GateLimits.thy ===== *)
theory GateLimits
  imports RateWindow Json
begin

text \<open>
  Per-client limits of the read gate, \<open>crates/relay-policy/src/limits.rs\<close>: one bucket per client
  address with the number of open connections and the time stamps of connection attempts and of
  frames. \<open>try_admit\<close>, \<open>allow_message\<close> and the drop of an \<open>Admission\<close> each hold
  the mutex for their whole body, so each is one atomic step. Addresses are any type; a network
  (\<open>ipnet::IpNet\<close>) is seen through its \<open>contains\<close> test, a parameter.
\<close>

record bucket =
  connections :: nat
  conn_times :: "instant list"
  msg_times :: "instant list"

record 'ip gate_limits =
  max_connections :: nat
  max_new_per_window :: nat
  max_messages_per_window :: nat
  window :: duration
  buckets :: "'ip \<rightharpoonup> bucket"

definition limits_build :: "nat \<Rightarrow> nat \<Rightarrow> nat \<Rightarrow> duration \<Rightarrow> 'ip gate_limits" where
  "limits_build max_conn max_new max_msgs w =
     \<lparr>max_connections = max_conn, max_new_per_window = max_new,
      max_messages_per_window = max_msgs, window = w, buckets = Map.empty\<rparr>"

definition stale :: "duration \<Rightarrow> instant \<Rightarrow> instant \<Rightarrow> bool" where
  "stale w now t \<longleftrightarrow> w < since now t"

definition bucket_prune :: "instant \<Rightarrow> duration \<Rightarrow> bucket \<Rightarrow> bucket" where
  "bucket_prune now w b =
     b\<lparr>conn_times := dropWhile (stale w now) (conn_times b),
       msg_times := dropWhile (stale w now) (msg_times b)\<rparr>"

definition bucket_idle :: "bucket \<Rightarrow> bool" where
  "bucket_idle b \<longleftrightarrow> connections b = 0 \<and> conn_times b = [] \<and> msg_times b = []"

definition fresh_bucket :: bucket where
  "fresh_bucket = \<lparr>connections = 0, conn_times = [], msg_times = []\<rparr>"

definition entry_or_insert :: "'ip gate_limits \<Rightarrow> 'ip \<Rightarrow> bucket" where
  "entry_or_insert gl ip = (case buckets gl ip of None \<Rightarrow> fresh_bucket | Some b \<Rightarrow> b)"

text \<open>A refused attempt stays in \<open>conn_times\<close>: the bucket is stored in both branches.\<close>

definition try_admit :: "'ip \<Rightarrow> instant \<Rightarrow> 'ip gate_limits \<Rightarrow> bool \<times> 'ip gate_limits" where
  "try_admit ip now gl =
     (let b = bucket_prune now (window gl) (entry_or_insert gl ip);
          b = b\<lparr>conn_times := conn_times b @ [now]\<rparr>
      in if max_new_per_window gl < length (conn_times b) \<or> max_connections gl \<le> connections b
         then (False, gl\<lparr>buckets := (buckets gl)(ip \<mapsto> b)\<rparr>)
         else (True, gl\<lparr>buckets := (buckets gl)(ip \<mapsto> b\<lparr>connections := connections b + 1\<rparr>)\<rparr>))"

definition allow_message :: "'ip \<Rightarrow> instant \<Rightarrow> 'ip gate_limits \<Rightarrow> bool \<times> 'ip gate_limits" where
  "allow_message ip now gl =
     (let b = bucket_prune now (window gl) (entry_or_insert gl ip)
      in if max_messages_per_window gl \<le> length (msg_times b)
         then (False, gl\<lparr>buckets := (buckets gl)(ip \<mapsto> b)\<rparr>)
         else (True, gl\<lparr>buckets := (buckets gl)(ip \<mapsto> b\<lparr>msg_times := msg_times b @ [now]\<rparr>)\<rparr>))"

text \<open>\<open>Drop for Admission\<close>: \<open>saturating_sub\<close> is the subtraction on \<open>nat\<close>.\<close>

definition release :: "'ip \<Rightarrow> instant \<Rightarrow> 'ip gate_limits \<Rightarrow> 'ip gate_limits" where
  "release ip now gl =
     (case buckets gl ip of
        None \<Rightarrow> gl
      | Some b \<Rightarrow>
          let b = bucket_prune now (window gl) (b\<lparr>connections := connections b - 1\<rparr>)
          in if bucket_idle b then gl\<lparr>buckets := (buckets gl)(ip := None)\<rparr>
             else gl\<lparr>buckets := (buckets gl)(ip \<mapsto> b)\<rparr>)"

subsection \<open>The client address\<close>

definition is_trusted :: "('net \<Rightarrow> 'ip \<Rightarrow> bool) \<Rightarrow> 'net list \<Rightarrow> 'ip \<Rightarrow> bool" where
  "is_trusted contains trusted ip \<longleftrightarrow> list_ex (\<lambda>net. contains net ip) trusted"

definition resolve_client_ip ::
  "('net \<Rightarrow> 'ip \<Rightarrow> bool) \<Rightarrow> 'ip \<Rightarrow> 'ip list \<Rightarrow> 'net list \<Rightarrow> 'ip" where
  "resolve_client_ip contains peer forwarded trusted =
     (if \<not> is_trusted contains trusted peer then peer
      else case find (\<lambda>ip. \<not> is_trusted contains trusted ip) (rev forwarded) of
        Some ip \<Rightarrow> ip
      | None \<Rightarrow> (case forwarded of [] \<Rightarrow> peer | ip # _ \<Rightarrow> ip))"

text \<open>
  \<open>parse_net\<close>, \<open>parse_ip\<close> and \<open>host_net\<close> are the \<open>FromStr\<close> of \<open>IpNet\<close> and \<open>IpAddr\<close> and the
  one-address network.
\<close>

definition parse_trusted_proxies ::
  "(string \<Rightarrow> 'net option) \<Rightarrow> (string \<Rightarrow> 'ip option) \<Rightarrow> ('ip \<Rightarrow> 'net) \<Rightarrow> 'net list \<Rightarrow> string \<Rightarrow> 'net list"
where
  "parse_trusted_proxies parse_net parse_ip host_net loopback_nets raw =
     loopback_nets @
     filter_map (\<lambda>part. case parse_net part of Some net \<Rightarrow> Some net
                        | None \<Rightarrow> map_option host_net (parse_ip part))
       (filter (\<lambda>s. s \<noteq> []) (map trim (split_on (\<lambda>c. c = CHR '','') raw)))"

lemma resolve_untrusted_peer:
  "\<not> is_trusted contains trusted peer \<Longrightarrow> resolve_client_ip contains peer forwarded trusted = peer"
  by (simp add: resolve_client_ip_def)

lemma find_skip: "\<forall>x \<in> set xs. \<not> P x \<Longrightarrow> P y \<Longrightarrow> find P (xs @ y # ys) = Some y"
  by (induction xs) auto

lemma resolve_rightmost_untrusted:
  assumes "is_trusted contains trusted peer" and "\<not> is_trusted contains trusted ip"
    and "\<forall>hop \<in> set hops. is_trusted contains trusted hop"
  shows "resolve_client_ip contains peer (spoofed @ ip # hops) trusted = ip"
proof -
  have "find (\<lambda>ip. \<not> is_trusted contains trusted ip) (rev hops @ ip # rev spoofed) = Some ip"
    using assms by (intro find_skip) auto
  then show ?thesis using assms(1) by (simp add: resolve_client_ip_def)
qed

subsection \<open>Buckets under the operations\<close>

definition bucket_ok :: "instant \<Rightarrow> bucket \<Rightarrow> bool" where
  "bucket_ok now b \<longleftrightarrow>
     sorted (conn_times b) \<and> sorted (msg_times b) \<and>
     (\<forall>t \<in> set (conn_times b) \<union> set (msg_times b). t \<le> now)"

definition limits_ok :: "instant \<Rightarrow> 'ip gate_limits \<Rightarrow> bool" where
  "limits_ok now gl \<longleftrightarrow> (\<forall>ip b. buckets gl ip = Some b \<longrightarrow> bucket_ok now b)"

definition fresh_in :: "duration \<Rightarrow> instant \<Rightarrow> instant \<Rightarrow> bool" where
  "fresh_in w now t \<longleftrightarrow> since now t \<le> w"

lemma stale_fresh: "stale w now t \<longleftrightarrow> \<not> fresh_in w now t"
  by (auto simp: stale_def fresh_in_def)

lemma stale_mono: "t \<le> t' \<Longrightarrow> stale w now t' \<Longrightarrow> stale w now t"
  unfolding stale_def using since_antimono [of t t' now] by linarith

lemma dropWhile_stale:
  assumes "sorted ts"
  shows "dropWhile (stale w now) ts = filter (fresh_in w now) ts"
  using dropWhile_eq_filter [OF assms, of "stale w now"] stale_mono by (simp add: stale_fresh)

lemma bucket_ok_fresh [simp]: "bucket_ok now fresh_bucket"
  by (simp add: bucket_ok_def fresh_bucket_def)

lemma bucket_ok_later: "bucket_ok t b \<Longrightarrow> t \<le> now \<Longrightarrow> bucket_ok now b"
  unfolding bucket_ok_def by (blast intro: order_trans)

lemma bucket_ok_entry: "limits_ok now gl \<Longrightarrow> bucket_ok now (entry_or_insert gl ip)"
  by (auto simp: limits_ok_def entry_or_insert_def split: option.splits)

lemma bucket_prune_filter:
  "bucket_ok now b \<Longrightarrow> bucket_prune now w b =
     b\<lparr>conn_times := filter (fresh_in w now) (conn_times b),
       msg_times := filter (fresh_in w now) (msg_times b)\<rparr>"
  by (simp add: bucket_prune_def bucket_ok_def dropWhile_stale)

lemma bucket_ok_prune: "bucket_ok now b \<Longrightarrow> bucket_ok now (bucket_prune now w b)"
  by (simp add: bucket_prune_filter) (auto simp: bucket_ok_def sorted_filter [where f = id, simplified])

lemma bucket_ok_snoc:
  "bucket_ok now b \<Longrightarrow> bucket_ok now (b\<lparr>conn_times := conn_times b @ [now]\<rparr>)"
  "bucket_ok now b \<Longrightarrow> bucket_ok now (b\<lparr>msg_times := msg_times b @ [now]\<rparr>)"
  "bucket_ok now b \<Longrightarrow> bucket_ok now (b\<lparr>connections := n\<rparr>)"
  by (auto simp: bucket_ok_def sorted_append)

lemma limits_ok_upd:
  "limits_ok now gl \<Longrightarrow> bucket_ok now b \<Longrightarrow> limits_ok now (gl\<lparr>buckets := (buckets gl)(ip \<mapsto> b)\<rparr>)"
  "limits_ok now gl \<Longrightarrow> limits_ok now (gl\<lparr>buckets := (buckets gl)(ip := None)\<rparr>)"
  by (auto simp: limits_ok_def)

lemma fresh_in_antimono: "now \<le> later \<Longrightarrow> fresh_in w later t \<Longrightarrow> fresh_in w now t"
  unfolding fresh_in_def using since_mono [of now later t] by linarith

lemma count_live_fresh_filter:
  assumes "now \<le> later"
  shows "count_live (fresh_in w) later (filter (fresh_in w now) ts) = count_live (fresh_in w) later ts"
proof -
  have "filter (fresh_in w later) (filter (fresh_in w now) ts) = filter (fresh_in w later) ts"
    using fresh_in_antimono [OF assms] by (auto intro: filter_cong)
  then show ?thesis by (simp add: count_live_def)
qed

subsection \<open>Operations as steps\<close>

datatype 'ip limit_op = Admit 'ip | Message 'ip | Release 'ip

fun limit_step :: "'ip limit_op \<Rightarrow> instant \<Rightarrow> 'ip gate_limits \<Rightarrow> bool \<times> 'ip gate_limits" where
  "limit_step (Admit ip) now gl = try_admit ip now gl"
| "limit_step (Message ip) now gl = allow_message ip now gl"
| "limit_step (Release ip) now gl = (True, release ip now gl)"

lemma limits_ok_step: "limits_ok now gl \<Longrightarrow> limits_ok now (snd (limit_step x now gl))"
proof (cases x)
  case (Admit ip)
  assume ok: "limits_ok now gl"
  have "bucket_ok now (bucket_prune now (window gl) (entry_or_insert gl ip))"
    using ok by (intro bucket_ok_prune bucket_ok_entry)
  then show ?thesis using ok Admit
    by (auto simp: try_admit_def Let_def intro!: limits_ok_upd bucket_ok_snoc
          simp del: gate_limits.update_convs bucket.update_convs)
next
  case (Message ip)
  assume ok: "limits_ok now gl"
  have "bucket_ok now (bucket_prune now (window gl) (entry_or_insert gl ip))"
    using ok by (intro bucket_ok_prune bucket_ok_entry)
  then show ?thesis using ok Message
    by (auto simp: allow_message_def Let_def intro!: limits_ok_upd bucket_ok_snoc)
next
  case (Release ip)
  assume ok: "limits_ok now gl"
  show ?thesis
  proof (cases "buckets gl ip")
    case None
    then show ?thesis using Release ok by (simp add: release_def)
  next
    case (Some b)
    then have "bucket_ok now b" using ok by (auto simp: limits_ok_def)
    then have "bucket_ok now (bucket_prune now (window gl) (b\<lparr>connections := connections b - 1\<rparr>))"
      by (intro bucket_ok_prune bucket_ok_snoc)
    with Some Release ok show ?thesis
      by (auto simp: release_def Let_def intro: limits_ok_upd)
  qed
qed

lemma limits_ok_later: "limits_ok t gl \<Longrightarrow> t \<le> now \<Longrightarrow> limits_ok now gl"
  by (auto simp: limits_ok_def intro: bucket_ok_later)

lemma config_step:
  "window (snd (limit_step x now gl)) = window gl"
  "max_messages_per_window (snd (limit_step x now gl)) = max_messages_per_window gl"
  "max_new_per_window (snd (limit_step x now gl)) = max_new_per_window gl"
  "max_connections (snd (limit_step x now gl)) = max_connections gl"
  by (cases x; auto simp: try_admit_def allow_message_def release_def Let_def split: option.splits)+

lemma entry_upd [window_simps]:
  "entry_or_insert (gl\<lparr>buckets := (buckets gl)(ip \<mapsto> b)\<rparr>) ip' =
     (if ip' = ip then b else entry_or_insert gl ip')"
  "entry_or_insert (gl\<lparr>buckets := (buckets gl)(ip := None)\<rparr>) ip' =
     (if ip' = ip then fresh_bucket else entry_or_insert gl ip')"
  by (auto simp: entry_or_insert_def)

lemma idle_fresh: "bucket_idle b \<longleftrightarrow> b = fresh_bucket"
  by (cases b) (simp add: bucket_idle_def fresh_bucket_def)

lemma entry_release:
  "limits_ok now gl \<Longrightarrow> entry_or_insert (release ip now gl) ip' =
     (if ip' = ip \<and> buckets gl ip \<noteq> None
      then bucket_prune now (window gl)
             ((entry_or_insert gl ip)\<lparr>connections := connections (entry_or_insert gl ip) - 1\<rparr>)
      else entry_or_insert gl ip')"
  by (auto simp: release_def Let_def window_simps idle_fresh entry_or_insert_def split: option.splits)

lemma prune_fields:
  "connections (bucket_prune now w b) = connections b"
  "bucket_prune now w (b\<lparr>connections := n\<rparr>) = (bucket_prune now w b)\<lparr>connections := n\<rparr>"
  by (simp_all add: bucket_prune_def)

text \<open>
  What every operation leaves in the bucket of an address, seen through the window: the stamp of an
  accepted frame, and the stamp of every connection attempt.
\<close>

lemma msg_times_step:
  assumes "limits_ok now gl" and "limit_step x now gl = (b, gl')" and "now \<le> later"
  shows "count_live (fresh_in (window gl)) later (msg_times (entry_or_insert gl' ip)) =
         count_live (fresh_in (window gl)) later
           (msg_times (entry_or_insert gl ip) @ (if x = Message ip \<and> b then [now] else []))"
  using assms bucket_ok_entry [OF assms(1)]
  by (cases x)
     (auto simp: try_admit_def allow_message_def Let_def window_simps entry_release prune_fields
       bucket_prune_filter count_live_fresh_filter split: if_splits)

lemma conn_times_step:
  assumes "limits_ok now gl" and "limit_step x now gl = (b, gl')" and "now \<le> later"
  shows "count_live (fresh_in (window gl)) later (conn_times (entry_or_insert gl' ip)) =
         count_live (fresh_in (window gl)) later
           (conn_times (entry_or_insert gl ip) @ (if x = Admit ip then [now] else []))"
  using assms bucket_ok_entry [OF assms(1)]
  by (cases x)
     (auto simp: try_admit_def allow_message_def Let_def window_simps entry_release prune_fields
       bucket_prune_filter count_live_fresh_filter split: if_splits)

lemma message_accept_cap:
  assumes "limits_ok now gl" and "limit_step (Message ip) now gl = (True, gl')"
  shows "count_live (fresh_in (window gl)) now (msg_times (entry_or_insert gl ip) @ [now])
           \<le> max_messages_per_window gl"
  using assms bucket_ok_entry [OF assms(1), of ip]
  by (auto simp: allow_message_def Let_def bucket_prune_filter count_live_def split: if_splits)

lemma admit_accept_cap:
  assumes "limits_ok now gl" and "limit_step (Admit ip) now gl = (True, gl')"
  shows "count_live (fresh_in (window gl)) now (conn_times (entry_or_insert gl ip) @ [now])
           \<le> max_new_per_window gl"
  using assms bucket_ok_entry [OF assms(1), of ip]
  by (auto simp: try_admit_def Let_def bucket_prune_filter count_live_def split: if_splits)

subsection \<open>The two rates as rate limiters\<close>

definition message_step ::
  "'ip \<Rightarrow> 'ip limit_op \<Rightarrow> instant \<Rightarrow> 'ip gate_limits \<Rightarrow> bool \<times> 'ip gate_limits" where
  "message_step ip x now gl =
     (case limit_step x now gl of (b, gl') \<Rightarrow> (x = Message ip \<and> b, gl'))"

definition admit_step ::
  "'ip \<Rightarrow> 'ip limit_op \<Rightarrow> instant \<Rightarrow> 'ip gate_limits \<Rightarrow> bool \<times> 'ip gate_limits" where
  "admit_step ip x now gl =
     (case limit_step x now gl of (b, gl') \<Rightarrow> (x = Admit ip \<and> b, gl'))"

definition limits_ok_at :: "nat \<Rightarrow> nat \<Rightarrow> duration \<Rightarrow> instant \<Rightarrow> 'ip gate_limits \<Rightarrow> bool" where
  "limits_ok_at m c w now gl \<longleftrightarrow>
     limits_ok now gl \<and> max_messages_per_window gl = m \<and> max_new_per_window gl = c \<and> window gl = w"

lemma limits_ok_at_step:
  assumes "limits_ok_at m c w now gl" and "limit_step x now gl = (b, gl')"
  shows "limits_ok_at m c w now gl'"
  using assms limits_ok_step [of now gl x] config_step [of x now gl]
  by (auto simp: limits_ok_at_def)

interpretation frames: rate_limiter "message_step ip" "\<lambda>gl. msg_times (entry_or_insert gl ip)"
    "fresh_in w" "limits_ok_at m c w" m
  for ip m c w
proof (unfold_locales, goal_cases)
  case (1 now now' t)
  then show ?case by (rule fresh_in_antimono)
next
  case (2 t s now)
  then show ?case by (auto simp: limits_ok_at_def intro: limits_ok_later)
next
  case (3 now s x b s')
  then show ?case by (auto simp: message_step_def split: prod.splits intro: limits_ok_at_step)
next
  case (4 now s x s')
  then show ?case using message_accept_cap [of now s ip s']
    by (auto simp: message_step_def limits_ok_at_def split: prod.splits)
next
  case (5 now s x s' later)
  then show ?case using msg_times_step [of now s x True s' later ip]
    by (auto simp: message_step_def limits_ok_at_def split: prod.splits)
next
  case (6 now s x s' later)
  then obtain b where "limit_step x now s = (b, s')" "\<not> (x = Message ip \<and> b)"
    by (auto simp: message_step_def split: prod.splits)
  then show ?case using 6 msg_times_step [of now s x b s' later ip]
    by (simp add: limits_ok_at_def split: if_splits)
qed

interpretation arrivals: rate_limiter "admit_step ip" "\<lambda>gl. conn_times (entry_or_insert gl ip)"
    "fresh_in w" "limits_ok_at m c w" c
  for ip m c w
proof (unfold_locales, goal_cases)
  case (1 now now' t)
  then show ?case by (rule fresh_in_antimono)
next
  case (2 t s now)
  then show ?case by (auto simp: limits_ok_at_def intro: limits_ok_later)
next
  case (3 now s x b s')
  then show ?case by (auto simp: admit_step_def split: prod.splits intro: limits_ok_at_step)
next
  case (4 now s x s')
  then show ?case using admit_accept_cap [of now s ip s']
    by (auto simp: admit_step_def limits_ok_at_def split: prod.splits)
next
  case (5 now s x s' later)
  then show ?case using conn_times_step [of now s x True s' later ip]
    by (auto simp: admit_step_def limits_ok_at_def split: prod.splits)
next
  case (6 now s x s' later)
  then obtain b where "limit_step x now s = (b, s')"
    by (auto simp: admit_step_def split: prod.splits)
  then show ?case using 6 conn_times_step [of now s x b s' later ip]
    by (simp add: limits_ok_at_def split: if_splits)
qed

subsection \<open>Open connections\<close>

text \<open>
  The reachable states of the limiter together with \<open>live\<close>, the number of \<open>Admission\<close> values held
  per address. Only a held admission can be dropped.
\<close>

inductive limit_reach ::
  "nat \<Rightarrow> nat \<Rightarrow> nat \<Rightarrow> duration \<Rightarrow> instant \<Rightarrow> 'ip gate_limits \<Rightarrow> ('ip \<Rightarrow> nat) \<Rightarrow> bool"
  for mc mn mm w where
  built: "limit_reach mc mn mm w t (limits_build mc mn mm w) (\<lambda>_. 0)"
| admitted: "limit_reach mc mn mm w t gl live \<Longrightarrow> t \<le> now \<Longrightarrow> try_admit ip now gl = (True, gl') \<Longrightarrow>
     limit_reach mc mn mm w now gl' (live(ip := live ip + 1))"
| refused: "limit_reach mc mn mm w t gl live \<Longrightarrow> t \<le> now \<Longrightarrow> try_admit ip now gl = (False, gl') \<Longrightarrow>
     limit_reach mc mn mm w now gl' live"
| framed: "limit_reach mc mn mm w t gl live \<Longrightarrow> t \<le> now \<Longrightarrow> allow_message ip now gl = (b, gl') \<Longrightarrow>
     limit_reach mc mn mm w now gl' live"
| dropped: "limit_reach mc mn mm w t gl live \<Longrightarrow> t \<le> now \<Longrightarrow> 0 < live ip \<Longrightarrow>
     limit_reach mc mn mm w now (release ip now gl) (live(ip := live ip - 1))"

lemma connections_step:
  "try_admit ip now gl = (b, gl') \<Longrightarrow>
     connections (entry_or_insert gl' ip') =
       connections (entry_or_insert gl ip') + (if ip' = ip \<and> b then 1 else 0) \<and>
     (b \<longrightarrow> connections (entry_or_insert gl ip) < max_connections gl)"
  "allow_message ip now gl = (b, gl') \<Longrightarrow>
     connections (entry_or_insert gl' ip') = connections (entry_or_insert gl ip')"
  by (auto simp: try_admit_def allow_message_def Let_def window_simps prune_fields split: if_splits)

lemma limit_reach_ok: "limit_reach mc mn mm w t gl live \<Longrightarrow> limits_ok t gl \<and> max_connections gl = mc"
proof (induction rule: limit_reach.induct)
  case (built t)
  then show ?case by (simp add: limits_build_def limits_ok_def)
next
  case (admitted t gl live now ip gl')
  then show ?case
    using limits_ok_step [of now gl "Admit ip"] config_step(4) [of "Admit ip" now gl] limits_ok_later
    by (metis limit_step.simps(1) snd_conv)
next
  case (refused t gl live now ip gl')
  then show ?case
    using limits_ok_step [of now gl "Admit ip"] config_step(4) [of "Admit ip" now gl] limits_ok_later
    by (metis limit_step.simps(1) snd_conv)
next
  case (framed t gl live now ip b gl')
  then show ?case
    using limits_ok_step [of now gl "Message ip"] config_step(4) [of "Message ip" now gl] limits_ok_later
    by (metis limit_step.simps(2) snd_conv)
next
  case (dropped t gl live now ip)
  then show ?case
    using limits_ok_step [of now gl "Release ip"] config_step(4) [of "Release ip" now gl] limits_ok_later
    by (metis limit_step.simps(3) snd_conv)
qed

lemma limit_reach_balance:
  "limit_reach mc mn mm w t gl live \<Longrightarrow>
     connections (entry_or_insert gl ip) = live ip \<and> live ip \<le> mc"
proof (induction arbitrary: ip rule: limit_reach.induct)
  case (built t)
  then show ?case by (simp add: limits_build_def entry_or_insert_def fresh_bucket_def)
next
  case (admitted t gl live now ip0 gl')
  show ?case
    using connections_step(1) [OF admitted.hyps(3), of ip] limit_reach_ok [OF admitted.hyps(1)]
      admitted.IH [of ip] admitted.IH [of ip0]
    by auto
next
  case (refused t gl live now ip0 gl')
  then show ?case using connections_step(1) [OF refused.hyps(3), of ip] by auto
next
  case (framed t gl live now ip0 b gl')
  then show ?case using connections_step(2) [OF framed.hyps(3), of ip] by auto
next
  case (dropped t gl live now ip0)
  have ok: "limits_ok now gl" using limit_reach_ok [OF dropped.hyps(1)] dropped.hyps(2) limits_ok_later by blast
  have "buckets gl ip0 \<noteq> None"
    using dropped.hyps(3) dropped.IH [of ip0] by (auto simp: entry_or_insert_def fresh_bucket_def split: option.splits)
  then show ?case
    using dropped.hyps(3) dropped.IH [of ip]
    by (auto simp: entry_release [OF ok] prune_fields)
qed

subsection \<open>The limits over a run\<close>

text \<open>
  The message rate. Over any sequence of admissions, frames and disconnections of any
  clients in time order, the frames of one client address that were let through and still lie in
  the window are at most the configured number.
\<close>

theorem messages_within_rate:
  assumes "ordered_from t ops" and "end_time t ops \<le> later"
  shows "count_live (fresh_in w) later (accepted (message_step ip) (limits_build mc mn mm w) ops) \<le> mm"
  by (rule frames.accepted_window [of mm mn w t, OF _ assms])
     (simp add: limits_ok_at_def limits_build_def limits_ok_def)

theorem messages_within_rate_witness:
  "count_live (fresh_in 60) 9 (accepted (message_step (7::nat)) (limits_build 1 5 2 60)
     [(Admit 7, 1), (Message 7, 2), (Message 8, 2), (Message 7, 3), (Message 7, 4), (Release 7, 9)]) \<le> 2"
  by (rule messages_within_rate [of 0]) simp_all

text \<open>
  The connection rate. Over any such sequence, the connections of one address that were
  admitted and still lie in the window are at most the configured number.
\<close>

theorem connections_within_rate:
  assumes "ordered_from t ops" and "end_time t ops \<le> later"
  shows "count_live (fresh_in w) later (accepted (admit_step ip) (limits_build mc mn mm w) ops) \<le> mn"
  by (rule arrivals.accepted_window [of mm mn w t, OF _ assms])
     (simp add: limits_ok_at_def limits_build_def limits_ok_def)

theorem connections_within_rate_witness:
  "count_live (fresh_in 60) 9 (accepted (admit_step (7::nat)) (limits_build 5 2 9 60)
     [(Admit 7, 1), (Release 7, 2), (Admit 7, 2), (Admit 7, 3), (Admit 8, 9)]) \<le> 2"
  by (rule connections_within_rate [of 0]) simp_all

text \<open>
  C31: the connection counter is exact. In every reachable state it equals the
  number of admissions held for the address, and that number never exceeds the limit:
  pruning, refusals and the removal of idle buckets never lose or invent a connection.
\<close>

theorem open_connections_bounded:
  assumes "limit_reach mc mn mm w t gl live"
  shows "connections (entry_or_insert gl ip) = live ip \<and> live ip \<le> mc"
  by (rule limit_reach_balance [OF assms])

theorem open_connections_bounded_witness:
  "connections (entry_or_insert (snd (try_admit (7::nat) 1 (limits_build 1 5 9 60))) 7) = 1 \<and> (1::nat) \<le> 1"
proof -
  have "limit_reach 1 5 9 60 1 (snd (try_admit (7::nat) 1 (limits_build 1 5 9 60)))
      ((\<lambda>_. 0)(7 := (\<lambda>_. 0) 7 + 1))"
  proof (rule limit_reach.admitted [OF limit_reach.built [of 1 5 9 60 0]])
    show "try_admit (7::nat) 1 (limits_build 1 5 9 60) =
        (True, snd (try_admit (7::nat) 1 (limits_build 1 5 9 60)))"
      by (simp add: try_admit_def limits_build_def Let_def bucket_prune_def entry_or_insert_def fresh_bucket_def)
  qed simp
  from open_connections_bounded [OF this, of 7] show ?thesis by simp
qed

text \<open>
  C40: the client address cannot be spoofed. Behind trusted proxies the address is the
  rightmost forwarded entry that is not a trusted proxy, whatever the client put
  before it; and a peer that is not a trusted proxy is taken for itself, whatever it forwards.
\<close>

theorem client_ip_not_spoofable:
  assumes "\<not> is_trusted contains trusted ip"
  shows "resolve_client_ip contains ip forwarded trusted = ip \<and>
    (is_trusted contains trusted peer \<longrightarrow> (\<forall>hop \<in> set hops. is_trusted contains trusted hop) \<longrightarrow>
       resolve_client_ip contains peer (spoofed @ ip # hops) trusted = ip)"
  using assms by (simp add: resolve_untrusted_peer resolve_rightmost_untrusted)

theorem client_ip_not_spoofable_witness:
  "resolve_client_ip (=) (1::nat) ([9, 3] @ 7 # [2]) [1, 2] = 7"
  using client_ip_not_spoofable [of "(=)" "[1, 2]" "7::nat" "[]" 1 "[2]" "[9, 3]"]
  by (simp add: is_trusted_def)

end
