(* ===== verification/GateProxy.thy ===== *)
theory GateProxy
  imports GateSession GateLimits
begin

text \<open>
  The connection handler of the read gate: HTTP classification
  (\<open>crates/relay-policy/src/http_gate.rs\<close>) and the WebSocket pump
  (\<open>crates/relay-policy/src/proxy.rs\<close>: \<open>handle_conn\<close>, \<open>pump\<close>, \<open>forward_client\<close>,
  \<open>forward_relay\<close>). Sockets are seen as the messages they deliver; \<open>tokio::select!\<close> is any
  interleaving of client and relay messages, and the directory a step reads is whatever snapshot
  is current then. A failed send ends the connection and is left out: it only cuts a run short.
\<close>

subsection \<open>HTTP classification\<close>

datatype http_class = WebSocket | Nip11 | Reject

type_synonym header = "string \<times> string"

definition token_matches :: "string \<Rightarrow> string \<Rightarrow> bool" where
  "token_matches part token \<longleftrightarrow>
     eq_ignore_ascii_case (trim (hd (split_on (\<lambda>c. c = CHR '';'') (trim part)))) token"

definition header_has_token :: "header list \<Rightarrow> string \<Rightarrow> string \<Rightarrow> bool" where
  "header_has_token headers name token \<longleftrightarrow>
     list_ex (\<lambda>(n, v). utf8_valid v \<and>
         list_ex (\<lambda>part. token_matches part token) (split_on (\<lambda>c. c = CHR '','') v))
       (filter (\<lambda>(n, v). eq_ignore_ascii_case n name) headers)"

definition forwarded_for :: "(string \<Rightarrow> 'ip option) \<Rightarrow> header list \<Rightarrow> 'ip list" where
  "forwarded_for parse_ip headers =
     concat (map (\<lambda>(n, v).
         if \<not> eq_ignore_ascii_case n ''x-forwarded-for'' \<or> \<not> utf8_valid v then []
         else filter_map (\<lambda>part. parse_ip (trim part)) (split_on (\<lambda>c. c = CHR '','') v)) headers)"

text \<open>
  \<open>parse_http\<close> is the \<open>httparse\<close> library: an error text, \<open>None\<close> for a partial request, or the
  headers.
\<close>

definition parse_request ::
  "(string \<Rightarrow> string + header list option) \<Rightarrow> (string \<Rightarrow> 'ip option) \<Rightarrow> string
     \<Rightarrow> string + http_class \<times> 'ip list" where
  "parse_request parse_http parse_ip buf =
     (case parse_http buf of
        Inl err \<Rightarrow> Inl (''bad http: '' @ err)
      | Inr None \<Rightarrow> Inl ''incomplete http request''
      | Inr (Some headers) \<Rightarrow>
          let upgrade = header_has_token headers ''upgrade'' ''websocket'';
              connection = header_has_token headers ''connection'' ''upgrade'';
              class = (if upgrade \<and> connection then WebSocket
                       else if header_has_token headers ''accept'' ''application/nostr+json''
                       then Nip11 else Reject)
          in Inr (class, forwarded_for parse_ip headers))"

text \<open>What \<open>handle_conn\<close> does with the first request. \<open>Proxy\<close> holds the admission.\<close>

datatype 'ip verdict = Limited | AnswerNip11 | AnswerReject | Proxy 'ip

definition handle_conn ::
  "(string \<Rightarrow> string + header list option) \<Rightarrow> (string \<Rightarrow> 'ip option) \<Rightarrow> ('net \<Rightarrow> 'ip \<Rightarrow> bool)
     \<Rightarrow> 'net list \<Rightarrow> 'ip \<Rightarrow> string \<Rightarrow> instant \<Rightarrow> instant \<Rightarrow> 'ip gate_limits
     \<Rightarrow> 'ip verdict \<times> 'ip gate_limits" where
  "handle_conn parse_http parse_ip contains trusted peer header now done_at gl =
     (let (class, forwarded) =
            (case parse_request parse_http parse_ip header of
               Inr r \<Rightarrow> r | Inl _ \<Rightarrow> (Reject, []));
          client_ip = resolve_client_ip contains peer forwarded trusted
      in case try_admit client_ip now gl of
           (False, gl') \<Rightarrow> (Limited, gl')
         | (True, gl') \<Rightarrow>
             (case class of
                Nip11 \<Rightarrow> (AnswerNip11, release client_ip done_at gl')
              | Reject \<Rightarrow> (AnswerReject, release client_ip done_at gl')
              | WebSocket \<Rightarrow> (Proxy client_ip, gl')))"

subsection \<open>The pump\<close>

datatype ws_message =
  MText string | MBinary string | MPing string | MPong string | MClose | MFrame

record gate_env =
  parse_text :: "string \<Rightarrow> json option"
  render_json :: "json \<Rightarrow> string"
  verify_auth :: "json \<Rightarrow> string \<Rightarrow> string + string"

record 'ip pump_state =
  session :: gate_session
  gifts :: gift_budget
  limits :: "'ip gate_limits"

text \<open>The messages a step sends to the client and to strfry, and whether the pump goes on.\<close>

record pump_out =
  client_tx :: "ws_message list"
  upstream_tx :: "ws_message list"
  goes_on :: bool

definition out_none :: "bool \<Rightarrow> pump_out" where
  "out_none b = \<lparr>client_tx = [], upstream_tx = [], goes_on = b\<rparr>"

definition counts_toward_message_limit :: "ws_message \<Rightarrow> bool" where
  "counts_toward_message_limit msg \<longleftrightarrow>
     (case msg of MText _ \<Rightarrow> True | MBinary _ \<Rightarrow> True | MPing _ \<Rightarrow> True | _ \<Rightarrow> False)"

definition forward_client ::
  "gate_env \<Rightarrow> ws_message \<Rightarrow> read_directory \<Rightarrow> instant \<Rightarrow> 'ip pump_state
     \<Rightarrow> pump_out \<times> 'ip pump_state" where
  "forward_client env msg dir now st =
     (case msg of
        MText text \<Rightarrow>
          (case on_client_text (parse_text env) (render_json env) (verify_auth env) text dir now
                  (session st, gifts st) of
             (out, s, gb) \<Rightarrow>
               (\<lparr>client_tx = map MText (to_client out), upstream_tx = map MText (to_relay out),
                 goes_on = True\<rparr>, st\<lparr>session := s, gifts := gb\<rparr>))
      | MPing payload \<Rightarrow> (\<lparr>client_tx = [MPong payload], upstream_tx = [], goes_on = True\<rparr>, st)
      | MPong _ \<Rightarrow> (out_none True, st)
      | MClose \<Rightarrow> (out_none False, st)
      | MBinary _ \<Rightarrow> (out_none True, st)
      | MFrame \<Rightarrow> (out_none True, st))"

definition forward_relay ::
  "gate_env \<Rightarrow> ws_message \<Rightarrow> read_directory \<Rightarrow> gate_session \<Rightarrow> pump_out" where
  "forward_relay env msg dir s =
     (case msg of
        MText text \<Rightarrow>
          \<lparr>client_tx = (case on_relay_text (parse_text env) s text dir of
                          None \<Rightarrow> [] | Some fwd \<Rightarrow> [MText fwd]),
           upstream_tx = [], goes_on = True\<rparr>
      | MPing payload \<Rightarrow> \<lparr>client_tx = [], upstream_tx = [MPong payload], goes_on = True\<rparr>
      | MPong _ \<Rightarrow> out_none True
      | MClose \<Rightarrow> out_none False
      | MBinary _ \<Rightarrow> out_none True
      | MFrame \<Rightarrow> out_none True)"

datatype pump_event = FromClient ws_message | FromRelay ws_message

type_synonym pump_input = "pump_event \<times> read_directory \<times> instant"

definition notice_limited :: string where
  "notice_limited =
     ''['' @ [CHR 0x22] @ ''NOTICE'' @ [CHR 0x22] @ '','' @ [CHR 0x22] @
     ''rate-limited: too many messages'' @ [CHR 0x22] @ '']''"

definition pump_step ::
  "gate_env \<Rightarrow> 'ip \<Rightarrow> pump_input \<Rightarrow> 'ip pump_state \<Rightarrow> pump_out \<times> 'ip pump_state" where
  "pump_step env client_ip inp st =
     (case inp of (ev, dir, now) \<Rightarrow>
        (case ev of
           FromClient msg \<Rightarrow>
             if counts_toward_message_limit msg then
               (case allow_message client_ip now (limits st) of
                  (False, gl) \<Rightarrow>
                    (\<lparr>client_tx = [MText notice_limited], upstream_tx = [], goes_on = False\<rparr>,
                     st\<lparr>limits := gl\<rparr>)
                | (True, gl) \<Rightarrow> forward_client env msg dir now (st\<lparr>limits := gl\<rparr>))
             else forward_client env msg dir now st
         | FromRelay msg \<Rightarrow> (forward_relay env msg dir (session st), st)))"

definition pump_init :: "string \<Rightarrow> gift_budget \<Rightarrow> 'ip gate_limits \<Rightarrow> 'ip pump_state" where
  "pump_init ch gb gl = \<lparr>session = session_new ch, gifts = gb, limits = gl\<rparr>"

text \<open>
  The state after a sequence of inputs, \<open>None\<close> once the loop has been left. Between two steps of
  this connection the other connections may change the shared budgets: \<open>shared\<close> is what they
  leave, one pair per step.
\<close>

fun pump_after ::
  "gate_env \<Rightarrow> 'ip \<Rightarrow> (pump_input \<times> gift_budget \<times> 'ip gate_limits) list \<Rightarrow> 'ip pump_state
     \<Rightarrow> 'ip pump_state option" where
  "pump_after env ip [] st = Some st"
| "pump_after env ip ((inp, gb, gl) # rest) st =
     (case pump_step env ip inp (st\<lparr>gifts := gb, limits := gl\<rparr>) of
        (out, st') \<Rightarrow> if goes_on out then pump_after env ip rest st' else None)"

subsection \<open>Authentication along a run\<close>

definition authenticated_by ::
  "gate_env \<Rightarrow> string \<Rightarrow> (pump_input \<times> gift_budget \<times> 'ip gate_limits) list \<Rightarrow> string \<Rightarrow> bool" where
  "authenticated_by env ch past pk \<longleftrightarrow>
     (\<exists>text dir now shared. ((FromClient (MText text), dir, now), shared) \<in> set past \<and>
        authenticates (parse_text env) (verify_auth env) ch text pk)"

lemma forward_client_session:
  assumes "forward_client env msg dir now st = (out, st')"
  shows "challenge (session st') = challenge (session st) \<and>
    (authed_pubkey (session st') = authed_pubkey (session st) \<or>
     (\<exists>text pk. msg = MText text \<and>
        authenticates (parse_text env) (verify_auth env) (challenge (session st)) text pk \<and>
        authed_pubkey (session st') = Some pk))"
  using assms
  by (auto simp: forward_client_def split: ws_message.splits prod.splits dest: on_client_session)

lemma pump_step_session:
  assumes "pump_step env ip (ev, dir, now) st = (out, st')"
  shows "challenge (session st') = challenge (session st) \<and>
    (authed_pubkey (session st') = authed_pubkey (session st) \<or>
     (\<exists>text pk. ev = FromClient (MText text) \<and>
        authenticates (parse_text env) (verify_auth env) (challenge (session st)) text pk \<and>
        authed_pubkey (session st') = Some pk))"
  using assms
  by (auto simp: pump_step_def split: pump_event.splits if_splits prod.splits bool.splits
        dest!: forward_client_session)

lemma pump_after_session:
  assumes "pump_after env ip past st = Some st'"
  shows "challenge (session st') = challenge (session st) \<and>
    (authed_pubkey (session st') = authed_pubkey (session st) \<or>
     (\<exists>pk. authenticated_by env (challenge (session st)) past pk \<and>
        authed_pubkey (session st') = Some pk))"
  using assms
proof (induction past arbitrary: st)
  case (Cons e rest)
  obtain ev dir now gb gl where e: "e = ((ev, dir, now), gb, gl)" by (metis prod.exhaust)
  obtain out s1 where step: "pump_step env ip (ev, dir, now) (st\<lparr>gifts := gb, limits := gl\<rparr>) = (out, s1)"
    by force
  have rest: "pump_after env ip rest s1 = Some st'" using Cons.prems e step by (simp split: if_splits)
  have later: "authenticated_by env ch (e # rest) pk" if "authenticated_by env ch rest pk" for ch pk
    using that unfolding authenticated_by_def by (meson list.set_intros(2))
  have here: "authenticated_by env ch (e # rest) pk"
    if "ev = FromClient (MText text)" "authenticates (parse_text env) (verify_auth env) ch text pk"
    for ch pk "text"
    using that e unfolding authenticated_by_def by (meson list.set_intros(1))
  show ?case
    using pump_step_session [OF step] Cons.IH [OF rest] later here by force
qed simp

lemma pump_run_session:
  assumes "pump_after env ip past (pump_init ch gb gl) = Some st"
  shows "challenge (session st) = ch \<and>
    (\<forall>pk. authed_pubkey (session st) = Some pk \<longrightarrow> authenticated_by env ch past pk)"
  using pump_after_session [OF assms] by (auto simp: pump_init_def session_new_def)

lemma pump_step_relay_client:
  "client_tx (fst (pump_step env ip (FromRelay msg, dir, now) st)) =
     (case msg of
        MText text \<Rightarrow> (case on_relay_text (parse_text env) (session st) text dir of
                        None \<Rightarrow> [] | Some fwd \<Rightarrow> [MText fwd])
      | _ \<Rightarrow> [])"
  by (auto simp: pump_step_def forward_relay_def out_none_def split: ws_message.splits)

text \<open>
  A concrete connection: the client answers the challenge, strfry then sends a gift wrap for it.
\<close>

definition wit_auth_event :: nostr_event where
  "wit_auth_event =
     \<lparr>ne_kind = 22242, ne_tags = [[''challenge'', ''c'']], ne_pubkey = sample_key CHR ''a''\<rparr>"

definition wit_env :: gate_env where
  "wit_env =
     \<lparr>parse_text = (\<lambda>t. if t = ''auth'' then Some (JArr [JStr ''AUTH'', JObj []])
         else if t = ''wrap'' then Some (JArr [JStr ''EVENT'', JStr ''sub'',
           JObj [(''pubkey'', JStr (sample_key CHR ''b'')), (''kind'', JPosInt 1059),
                 (''tags'', JArr [JArr [JStr ''p'', JStr (sample_key CHR ''a'')]])]])
         else None),
      render_json = (\<lambda>_. []),
      verify_auth = verify_nip42 (\<lambda>_. Inr wit_auth_event) (\<lambda>_. True)\<rparr>"

lemma wit_verifier: "verify_auth wit_env = verify_nip42 (\<lambda>_. Inr wit_auth_event) (\<lambda>_. True)"
  by (simp add: wit_env_def)

definition wit_limits :: "nat gate_limits" where
  "wit_limits = limits_build 1 1 10 60"

definition wit_past :: "(pump_input \<times> gift_budget \<times> nat gate_limits) list" where
  "wit_past =
     [((FromClient (MText ''auth''), from_parts [] [], 5), gift_budget_new 20 60, wit_limits)]"

definition wit_member :: member_acl where
  "wit_member = \<lparr>acl_pubkey = sample_key CHR ''a'', acl_member_id = ''m'', acl_officer = False, acl_teams = {}\<rparr>"

definition wit_state :: "nat pump_state" where
  "wit_state =
     \<lparr>session = \<lparr>challenge = ''c'', authed_pubkey = Some (sample_key CHR ''a'')\<rparr>,
      gifts = gift_budget_new 20 60, limits = snd (allow_message 1 5 wit_limits)\<rparr>"

lemma wit_signed_in: "authed_pubkey (session wit_state) = Some (sample_key CHR ''a'')"
  by (simp add: wit_state_def)

lemma wit_key [simp]: "norm_key (sample_key CHR ''a'') = sample_key CHR ''a''" "hex64 (sample_key CHR ''a'')"
  "norm_key (sample_key CHR ''b'') = sample_key CHR ''b''"
  by (simp_all add: is_ascii_hexdigit_def byte_def to_ascii_lower_char_def)

lemma wit_allowed: "fst (allow_message (1::nat) 5 wit_limits)"
  by (simp add: allow_message_def wit_limits_def limits_build_def Let_def bucket_prune_def
      entry_or_insert_def fresh_bucket_def)

lemma wit_run:
  "pump_after wit_env 1 wit_past (pump_init ''c'' (gift_budget_new 20 60) wit_limits) = Some wit_state"
  using wit_allowed
  by (cases "allow_message (1::nat) 5 wit_limits")
     (simp add: wit_past_def pump_step_def counts_toward_message_limit_def forward_client_def
       on_client_text_def wit_env_def frame_kind_def get_index_def on_auth_def verify_nip42_def wit_auth_event_def
       Let_def reply_def wit_state_def pump_init_def session_new_def)

lemma wit_view:
  "carried_event (parse_text wit_env) ''wrap'' =
     Some \<lparr>ev_pubkey = sample_key CHR ''b'', ev_kind = 1059, ev_tags = [[''p'', sample_key CHR ''a'']]\<rparr>"
  by (simp add: carried_event_def wit_env_def get_index_def event_from_json_def tag_from_json_def)

lemma wit_may_read:
  "may_read [wit_member] [] (sample_key CHR ''a'')
     \<lparr>ev_pubkey = sample_key CHR ''b'', ev_kind = 1059, ev_tags = [[''p'', sample_key CHR ''a'']]\<rparr>"
  by (simp add: may_read_def member_row_def wit_member_def GIFT_WRAP_KIND_def tag_values_def get_index_def)

lemma wit_sent:
  "MText ''wrap'' \<in> set (client_tx (fst (pump_step wit_env 1
     (FromRelay (MText ''wrap''), from_parts [wit_member] [], 9) wit_state)))"
proof -
  have frame: "is_event_frame (parse_text wit_env) ''wrap''"
    by (simp add: is_event_frame_def wit_env_def frame_kind_def get_index_def)
  have "on_relay_text (parse_text wit_env) (session wit_state) ''wrap'' (from_parts [wit_member] []) = Some ''wrap''"
    unfolding on_relay_event [OF frame] using wit_may_read wit_view
    by (simp add: wit_state_def allow_event_signed_in)
  then show ?thesis by (simp add: pump_step_relay_client)
qed

text \<open>
  C1: the confidentiality of the gate over a whole connection. After any sequence of client and
  relay messages, if strfry sends an event frame and the gate passes it to the client, then
  the client has proved, with an AUTH frame on this connection and for this connection's challenge,
  the key of an active member, and the member and channel rows entitle that member to the event.
\<close>

theorem gate_delivers_only_entitled:
  assumes run: "pump_after env ip past (pump_init ch gb gl) = Some st"
    and ev: "is_event_frame (parse_text env) text"
    and sent: "MText out \<in> set (client_tx (fst (pump_step env ip
                 (FromRelay (MText text), from_parts ms gs, now) st)))"
  shows "out = text \<and>
    (\<exists>pk view. authenticated_by env ch past pk \<and>
       carried_event (parse_text env) text = Some view \<and> may_read ms gs pk view)"
proof -
  let ?dir = "from_parts ms gs"
  from sent have "on_relay_text (parse_text env) (session st) text ?dir = Some out"
    by (auto simp: pump_step_relay_client split: option.splits)
  then obtain view where out: "out = text" and view: "carried_event (parse_text env) text = Some view"
      and allow: "allow_event (authed_pubkey (session st)) view ?dir = Inr ()"
    using on_relay_event [OF ev] by blast
  from allow_event_SomeD [OF allow] obtain pk where pk: "authed_pubkey (session st) = Some pk" by blast
  with allow have "may_read ms gs pk view" by (simp add: allow_event_signed_in)
  with pump_run_session [OF run] pk view out show ?thesis by blast
qed

theorem gate_delivers_only_entitled_witness:
  "\<exists>pk view. authenticated_by wit_env ''c'' wit_past pk \<and>
     carried_event (parse_text wit_env) ''wrap'' = Some view \<and> may_read [wit_member] [] pk view"
  using gate_delivers_only_entitled [OF wit_run _ wit_sent]
  by (simp add: is_event_frame_def wit_env_def frame_kind_def get_index_def)

text \<open>
  The upstream direction. The frames a text message of the client sends to strfry are exactly
  what \<open>passes_upstream\<close> allows, unchanged: nothing but CLOSE before AUTH, never a COUNT or a
  negentropy frame, an EVENT only from an active member, never a plain DM, and a gift wrap only
  within the budget of the sender and recipient.
\<close>

theorem gate_forwards_upstream:
  "upstream_tx (fst (forward_client env (MText text) dir now st)) =
     (if passes_upstream (parse_text env) text dir (session st) (gifts st) now then [MText text] else [])"
  using on_client_to_relay [of "parse_text env" "render_json env" "verify_auth env" "text" dir now
      "session st" "gifts st"]
  by (auto simp: forward_client_def split: prod.splits if_splits)

text \<open>
  C39: with the production verifier, a connection is signed in only through an event of kind 22242
  whose signature checks and whose challenge tag is the challenge this connection was given.
\<close>

theorem signed_in_only_by_own_challenge:
  assumes run: "pump_after env ip past (pump_init ch gb gl) = Some st"
    and verifier: "verify_auth env = verify_nip42 parse_event check_sig"
    and signed_in: "authed_pubkey (session st) = Some pk"
  shows "\<exists>text dir now shared v event ev.
    ((FromClient (MText text), dir, now), shared) \<in> set past \<and>
    parse_text env text = Some v \<and> frame_kind v = Some ''AUTH'' \<and>
    Option.bind (as_array v) (get_index 1) = Some event \<and>
    check_sig event \<and> parse_event event = Inr ev \<and> ne_kind ev = 22242 \<and>
    (\<exists>tag \<in> set (ne_tags ev). 2 \<le> length tag \<and> tag ! 0 = ''challenge'' \<and> tag ! 1 = ch) \<and>
    pk = norm_key (ne_pubkey ev)"
proof -
  from pump_run_session [OF run] signed_in have "authenticated_by env ch past pk" by blast
  then show ?thesis
    unfolding authenticated_by_def authenticates_def verifier verify_nip42_Inr by blast
qed

theorem signed_in_only_by_own_challenge_witness:
  "\<exists>text dir now shared v event ev.
    ((FromClient (MText text), dir, now), shared) \<in> set wit_past \<and>
    parse_text wit_env text = Some v \<and> frame_kind v = Some ''AUTH'' \<and>
    Option.bind (as_array v) (get_index 1) = Some event \<and>
    True \<and> (Inr wit_auth_event :: string + nostr_event) = Inr ev \<and> ne_kind ev = 22242 \<and>
    (\<exists>tag \<in> set (ne_tags ev). 2 \<le> length tag \<and> tag ! 0 = ''challenge'' \<and> tag ! 1 = ''c'') \<and>
    sample_key CHR ''a'' = norm_key (ne_pubkey ev)"
  by (rule signed_in_only_by_own_challenge [OF wit_run wit_verifier wit_signed_in])

end
