(* ===== verification/WritePolicy.thy ===== *)
theory WritePolicy
  imports GiftBudget
begin

text \<open>
  The relay's write policy, \<open>crates/relay-policy/src/policy.rs\<close> (the engine) and the loop body of
  \<open>main.rs\<close> (the strfry plugin). An event is accepted when its author, or for a
  gift wrap its recipient, is an active member, its kind is allowed, its group tag names a group
  the author may write, and the rate bucket has room.
\<close>

datatype decision = Accept | Refuse string

record policy_config =
  rate_limit_events :: nat
  rate_limit_window_secs :: nat
  allowed_kinds :: "nat set"
  enforce_group_membership :: bool

definition default_config :: policy_config where
  "default_config =
     \<lparr>rate_limit_events = 30, rate_limit_window_secs = 60,
      allowed_kinds =
        {0, 1, 7, 9, 10, 11, 12, 22242, 13, 14, 1059, 34550, 1111, 5} \<union> {39000..39009} \<union>
        {9000, 9001, 9002, 9003, 9004, 9005, 9006, 9007, 9008, 9021, 9022} \<union> {20000..29999},
      enforce_group_membership = True\<rparr>"

record event_info =
  ei_id :: string
  ei_pubkey :: string
  ei_kind :: nat
  ei_tags :: "string list list"
  ei_authed :: "string option"

text \<open>The value of the first tag of at least two parts with that name.\<close>

definition named_tag :: "string \<Rightarrow> string list \<Rightarrow> bool" where
  "named_tag name tag \<longleftrightarrow> 2 \<le> length tag \<and> tag ! 0 = name"

definition info_group_id :: "event_info \<Rightarrow> string option" where
  "info_group_id ev = map_option (\<lambda>tag. tag ! 1) (find (named_tag ''h'') (ei_tags ev))"

definition is_group_event :: "event_info \<Rightarrow> bool" where
  "is_group_event ev \<longleftrightarrow> info_group_id ev \<noteq> None"

definition gift_sender :: "event_info \<Rightarrow> string" where
  "gift_sender ev =
     (case ei_authed ev of
        Some raw \<Rightarrow> let pk = norm_key raw in
          if hex64 pk then pk else to_ascii_lowercase (ei_pubkey ev)
      | None \<Rightarrow> to_ascii_lowercase (ei_pubkey ev))"

record policy_engine =
  config :: policy_config
  pubkey_allowlist :: "string set"
  group_members :: "string \<rightharpoonup> string set"
  rate_buckets :: "string \<rightharpoonup> instant list"

definition engine_new :: "policy_config \<Rightarrow> policy_engine" where
  "engine_new cfg =
     \<lparr>config = cfg, pubkey_allowlist = {}, group_members = Map.empty, rate_buckets = Map.empty\<rparr>"

definition update_allowlist :: "string set \<Rightarrow> policy_engine \<Rightarrow> policy_engine" where
  "update_allowlist pks eng = eng\<lparr>pubkey_allowlist := pks\<rparr>"

definition update_group_members :: "(string \<rightharpoonup> string set) \<Rightarrow> policy_engine \<Rightarrow> policy_engine" where
  "update_group_members gs eng = eng\<lparr>group_members := gs\<rparr>"

fun find_map :: "('a \<Rightarrow> 'b option) \<Rightarrow> 'a list \<Rightarrow> 'b option" where
  "find_map f [] = None"
| "find_map f (x # xs) = (case f x of None \<Rightarrow> find_map f xs | Some y \<Rightarrow> Some y)"

definition allowlisted_recipient :: "policy_engine \<Rightarrow> event_info \<Rightarrow> string option" where
  "allowlisted_recipient eng ev =
     find_map (\<lambda>tag. if named_tag ''p'' tag then
                 (let pk = to_ascii_lowercase (tag ! 1)
                  in if pk \<in> pubkey_allowlist eng then Some pk else None)
               else None) (ei_tags ev)"

definition kind_not_allowed :: "nat \<Rightarrow> string" where
  "kind_not_allowed kind = ''blocked: event kind '' @ decimal kind @ '' not allowed''"

text \<open>
  The bucket key, or the reason for the refusal, from the author, the kind and the recipient.
\<close>

definition rate_key :: "policy_engine \<Rightarrow> event_info \<Rightarrow> string + string" where
  "rate_key eng ev =
     (if ei_kind ev = 1059 then
        (if ei_kind ev \<notin> allowed_kinds (config eng) then Inl (kind_not_allowed (ei_kind ev))
         else case allowlisted_recipient eng ev of
             Some pk \<Rightarrow> Inr (gift_key (gift_sender ev) pk)
           | None \<Rightarrow> Inl ''blocked: gift wrap recipient not in member allowlist'')
      else if ei_pubkey ev \<notin> pubkey_allowlist eng then Inl ''blocked: pubkey not in member allowlist''
      else if ei_kind ev \<notin> allowed_kinds (config eng) then Inl (kind_not_allowed (ei_kind ev))
      else Inr (ei_pubkey ev))"

definition group_refusal :: "policy_engine \<Rightarrow> event_info \<Rightarrow> string option" where
  "group_refusal eng ev =
     (if enforce_group_membership (config eng) then
        (case info_group_id ev of
           None \<Rightarrow> None
         | Some gid \<Rightarrow>
             (case group_members eng gid of
                Some members \<Rightarrow>
                  if ei_pubkey ev \<in> members then None
                  else Some (''blocked: not a member of group '' @ [CHR 0x27] @ gid @ [CHR 0x27])
              | None \<Rightarrow> Some (''blocked: unknown group '' @ [CHR 0x27] @ gid @ [CHR 0x27])))
      else None)"

text \<open>\<open>RateBucket::record\<close>: drop what is not after the cutoff, push, count.\<close>

definition bucket_record :: "instant \<Rightarrow> nat \<Rightarrow> instant list \<Rightarrow> instant list" where
  "bucket_record now window_secs ts =
     (let cutoff = now - int (from_secs window_secs)
      in filter (\<lambda>t. cutoff < t) ts @ [now])"

definition evaluate :: "event_info \<Rightarrow> instant \<Rightarrow> policy_engine \<Rightarrow> decision \<times> policy_engine" where
  "evaluate ev now eng =
     (if ei_kind ev = 4 then (Refuse ''blocked: kind 4 plain DMs are not accepted'', eng)
      else case rate_key eng ev of
        Inl reason \<Rightarrow> (Refuse reason, eng)
      | Inr key \<Rightarrow>
          (case group_refusal eng ev of
             Some reason \<Rightarrow> (Refuse reason, eng)
           | None \<Rightarrow>
               let ts = bucket_record now (rate_limit_window_secs (config eng))
                          (or_default (rate_buckets eng) key);
                   eng' = eng\<lparr>rate_buckets := (rate_buckets eng)(key \<mapsto> ts)\<rparr>
               in if rate_limit_events (config eng) < length ts
                  then (Refuse ''rate-limited: too many events'', eng') else (Accept, eng')))"

definition prune_rate_buckets_at :: "instant \<Rightarrow> policy_engine \<Rightarrow> policy_engine" where
  "prune_rate_buckets_at now eng =
     eng\<lparr>rate_buckets := sweep_buckets (in_window (from_secs (rate_limit_window_secs (config eng))) now)
                          (rate_buckets eng)\<rparr>"

definition reload_on_write_miss :: "string \<Rightarrow> bool" where
  "reload_on_write_miss reason \<longleftrightarrow>
     str_contains reason ''not in member allowlist'' \<or> str_contains reason ''unknown group'' \<or>
     str_contains reason ''not a member of group''"

subsection \<open>The plugin loop\<close>

record strfry_event =
  se_id :: string
  se_pubkey :: string
  se_kind :: nat
  se_tags :: "string list list"

record strfry_input =
  msg_type :: string
  event :: strfry_event
  authed :: "string option"

record strfry_output =
  so_id :: string
  so_action :: string
  so_msg :: string

text \<open>
  One input line that parsed; \<open>lower\<close> is the Unicode \<open>str::to_lowercase\<close>. The result is the line
  written back, whether a writer reload is requested, and the engine.
\<close>

definition handle_input ::
  "(string \<Rightarrow> string) \<Rightarrow> strfry_input \<Rightarrow> instant \<Rightarrow> policy_engine
     \<Rightarrow> strfry_output \<times> bool \<times> policy_engine" where
  "handle_input lower inp now eng =
     (if msg_type inp = ''lookback'' then
        (\<lparr>so_id = se_id (event inp), so_action = ''accept'', so_msg = []\<rparr>, False, eng)
      else
        let info = \<lparr>ei_id = se_id (event inp), ei_pubkey = lower (se_pubkey (event inp)),
                    ei_kind = se_kind (event inp), ei_tags = se_tags (event inp),
                    ei_authed = authed inp\<rparr>
        in case evaluate info now eng of
             (Accept, eng') \<Rightarrow>
               (\<lparr>so_id = se_id (event inp), so_action = ''accept'', so_msg = []\<rparr>, False, eng')
           | (Refuse reason, eng') \<Rightarrow>
               (\<lparr>so_id = se_id (event inp), so_action = ''reject'', so_msg = reason\<rparr>,
                reload_on_write_miss reason, eng'))"

subsection \<open>What the engine admits\<close>

text \<open>The policy without the rate limit, and the bucket an admitted event is charged to.\<close>

definition admissible :: "policy_engine \<Rightarrow> event_info \<Rightarrow> bool" where
  "admissible eng ev \<longleftrightarrow>
     ei_kind ev \<noteq> 4 \<and> ei_kind ev \<in> allowed_kinds (config eng) \<and>
     (if ei_kind ev = 1059
      then (\<exists>tag \<in> set (ei_tags ev). named_tag ''p'' tag \<and>
              to_ascii_lowercase (tag ! 1) \<in> pubkey_allowlist eng)
      else ei_pubkey ev \<in> pubkey_allowlist eng) \<and>
     (enforce_group_membership (config eng) \<longrightarrow>
        (\<forall>gid. info_group_id ev = Some gid \<longrightarrow>
           (\<exists>ms. group_members eng gid = Some ms \<and> ei_pubkey ev \<in> ms)))"

definition charged_bucket :: "policy_engine \<Rightarrow> event_info \<Rightarrow> string" where
  "charged_bucket eng ev = (case rate_key eng ev of Inr key \<Rightarrow> key | Inl _ \<Rightarrow> [])"

lemma find_map_Some: "find_map f xs = Some y \<Longrightarrow> \<exists>x \<in> set xs. f x = Some y"
  by (induction xs) (auto split: option.splits)

lemma find_map_None: "find_map f xs = None \<longleftrightarrow> (\<forall>x \<in> set xs. f x = None)"
  by (induction xs) (auto split: option.splits)

lemma allowlisted_recipient_iff:
  "allowlisted_recipient eng ev \<noteq> None \<longleftrightarrow>
     (\<exists>tag \<in> set (ei_tags ev). named_tag ''p'' tag \<and>
        to_ascii_lowercase (tag ! 1) \<in> pubkey_allowlist eng)"
  by (auto simp: allowlisted_recipient_def find_map_None Let_def split: if_splits)

lemma rate_key_iff:
  "(\<exists>key. rate_key eng ev = Inr key) \<longleftrightarrow>
     ei_kind ev \<in> allowed_kinds (config eng) \<and>
     (if ei_kind ev = 1059 then allowlisted_recipient eng ev \<noteq> None
      else ei_pubkey ev \<in> pubkey_allowlist eng)"
  by (auto simp: rate_key_def split: option.splits)

lemma group_refusal_iff:
  "group_refusal eng ev = None \<longleftrightarrow>
     (enforce_group_membership (config eng) \<longrightarrow>
        (\<forall>gid. info_group_id ev = Some gid \<longrightarrow>
           (\<exists>ms. group_members eng gid = Some ms \<and> ei_pubkey ev \<in> ms)))"
  by (auto simp: group_refusal_def split: option.splits if_splits)

lemma admissible_iff:
  "admissible eng ev \<longleftrightarrow>
     ei_kind ev \<noteq> 4 \<and> (\<exists>key. rate_key eng ev = Inr key) \<and> group_refusal eng ev = None"
  unfolding admissible_def rate_key_iff group_refusal_iff allowlisted_recipient_iff by auto

lemma in_window_cutoff: "0 < w \<Longrightarrow> in_window w now t \<longleftrightarrow> now - int w < t"
  by (auto simp: in_window_def window_simps)

lemma evaluate_not_admissible: "\<not> admissible eng ev \<Longrightarrow> snd (evaluate ev now eng) = eng"
  by (auto simp: evaluate_def admissible_iff split: sum.splits option.splits)

lemma evaluate_admissible:
  assumes "admissible eng ev"
    and "ts = bucket_record now (rate_limit_window_secs (config eng))
           (or_default (rate_buckets eng) (charged_bucket eng ev))"
  shows "evaluate ev now eng =
    (if rate_limit_events (config eng) < length ts then Refuse ''rate-limited: too many events'' else Accept,
     eng\<lparr>rate_buckets := (rate_buckets eng)(charged_bucket eng ev \<mapsto> ts)\<rparr>)"
  using assms by (auto simp: evaluate_def admissible_iff charged_bucket_def Let_def)

subsection \<open>The engine as a rate limiter\<close>

datatype engine_op =
    Evaluate event_info
  | ReloadAllowlist "string set"
  | ReloadGroups "string \<rightharpoonup> string set"
  | PruneBuckets

fun engine_op_step :: "engine_op \<Rightarrow> instant \<Rightarrow> policy_engine \<Rightarrow> decision option \<times> policy_engine" where
  "engine_op_step (Evaluate ev) now eng = (case evaluate ev now eng of (d, eng') \<Rightarrow> (Some d, eng'))"
| "engine_op_step (ReloadAllowlist pks) now eng = (None, update_allowlist pks eng)"
| "engine_op_step (ReloadGroups gs) now eng = (None, update_group_members gs eng)"
| "engine_op_step PruneBuckets now eng = (None, prune_rate_buckets_at now eng)"

text \<open>Accepted events that are charged to the bucket \<open>key\<close>.\<close>

definition engine_step :: "string \<Rightarrow> engine_op \<Rightarrow> instant \<Rightarrow> policy_engine \<Rightarrow> bool \<times> policy_engine" where
  "engine_step key x now eng =
     (case engine_op_step x now eng of (d, eng') \<Rightarrow>
        (d = Some Accept \<and> (\<exists>ev. x = Evaluate ev \<and> charged_bucket eng ev = key), eng'))"

definition after_cutoff :: "duration \<Rightarrow> instant \<Rightarrow> instant \<Rightarrow> bool" where
  "after_cutoff w now t \<longleftrightarrow> now - int w < t"

definition engine_ok :: "nat \<Rightarrow> nat \<Rightarrow> instant \<Rightarrow> policy_engine \<Rightarrow> bool" where
  "engine_ok n secs now eng \<longleftrightarrow>
     rate_limit_events (config eng) = n \<and> rate_limit_window_secs (config eng) = secs \<and>
     (\<forall>key. \<forall>t \<in> set (or_default (rate_buckets eng) key). t \<le> now)"

lemma bucket_record_cutoff:
  "bucket_record now secs ts = filter (after_cutoff (from_secs secs) now) ts @ [now]"
  by (simp add: bucket_record_def after_cutoff_def [abs_def] Let_def)

lemma after_cutoff_antimono: "now \<le> later \<Longrightarrow> after_cutoff w later t \<Longrightarrow> after_cutoff w now t"
  by (simp add: after_cutoff_def)

lemma count_live_cutoff_filter:
  assumes "now \<le> later" and "\<And>t. t \<in> set ts \<Longrightarrow> after_cutoff w later t \<Longrightarrow> P t"
  shows "count_live (after_cutoff w) later (filter P ts) = count_live (after_cutoff w) later ts"
proof -
  have "filter (after_cutoff w later) (filter P ts) = filter (after_cutoff w later) ts"
    using assms(2) by (auto intro: filter_cong)
  then show ?thesis by (simp add: count_live_def)
qed

lemma or_default_upd: "or_default (m(k \<mapsto> v)) k' = (if k' = k then v else or_default m k')"
  by (simp add: or_default_def)

lemma engine_stamps_step:
  assumes "engine_ok n secs now eng" and "engine_op_step x now eng = (d, eng')" and "now \<le> later"
  shows "count_live (after_cutoff (from_secs secs)) later (or_default (rate_buckets eng') key) =
    count_live (after_cutoff (from_secs secs)) later
      (or_default (rate_buckets eng) key @
        (if \<exists>ev. x = Evaluate ev \<and> admissible eng ev \<and> charged_bucket eng ev = key then [now] else []))"
proof (cases x)
  case (Evaluate ev)
  show ?thesis
  proof (cases "admissible eng ev")
    case True
    then show ?thesis
      using assms Evaluate
      by (auto simp: evaluate_admissible [OF True refl] or_default_upd bucket_record_cutoff engine_ok_def
            intro!: count_live_cutoff_filter after_cutoff_antimono)
  next
    case False
    then show ?thesis using assms Evaluate evaluate_not_admissible [OF False, of now]
      by (auto split: prod.splits)
  qed
next
  case PruneBuckets
  have "count_live (after_cutoff (from_secs secs)) later
      (filter (in_window (from_secs secs) now) (or_default (rate_buckets eng) key)) =
    count_live (after_cutoff (from_secs secs)) later (or_default (rate_buckets eng) key)"
    using assms(1,3)
    by (intro count_live_cutoff_filter)
       (fastforce simp: after_cutoff_def in_window_def since_def engine_ok_def)+
  then show ?thesis using assms PruneBuckets
    by (auto simp: prune_rate_buckets_at_def window_simps engine_ok_def)
qed (use assms in \<open>auto simp: update_allowlist_def update_group_members_def\<close>)

lemma engine_ok_step:
  assumes "engine_ok n secs now eng" and "engine_op_step x now eng = (d, eng')"
  shows "engine_ok n secs now eng'"
proof (cases x)
  case (Evaluate ev)
  show ?thesis
  proof (cases "admissible eng ev")
    case True
    then show ?thesis
      using assms Evaluate
      by (auto simp: evaluate_admissible [OF True refl] or_default_upd bucket_record_cutoff engine_ok_def
            split: if_splits)
  next
    case False
    then show ?thesis using assms Evaluate evaluate_not_admissible [OF False, of now]
      by (auto split: prod.splits)
  qed
qed (use assms in \<open>auto simp: update_allowlist_def update_group_members_def
       prune_rate_buckets_at_def engine_ok_def window_simps\<close>)

lemma engine_step_accept:
  assumes "engine_step key x now eng = (True, eng')"
  obtains ev where "x = Evaluate ev" "admissible eng ev" "charged_bucket eng ev = key"
    "length (bucket_record now (rate_limit_window_secs (config eng)) (or_default (rate_buckets eng) key))
       \<le> rate_limit_events (config eng)"
proof -
  from assms obtain ev where x: "x = Evaluate ev" and key: "charged_bucket eng ev = key"
    and acc: "fst (evaluate ev now eng) = Accept"
    by (auto simp: engine_step_def split: prod.splits)
  have adm: "admissible eng ev"
  proof (rule ccontr)
    assume "\<not> admissible eng ev"
    then show False using acc
      by (auto simp: evaluate_def admissible_iff split: sum.splits option.splits if_splits)
  qed
  show ?thesis
    using that [OF x adm key] acc key evaluate_admissible [OF adm refl, of now]
    by (simp split: if_splits)
qed

interpretation writes: rate_limiter "engine_step key" "\<lambda>eng. or_default (rate_buckets eng) key"
    "after_cutoff (from_secs secs)" "engine_ok n secs" n
  for key n secs
proof (unfold_locales, goal_cases)
  case (1 now now' t)
  then show ?case by (rule after_cutoff_antimono)
next
  case (2 t s now)
  then show ?case by (fastforce simp: engine_ok_def)
next
  case (3 now s x b s')
  then show ?case by (auto simp: engine_step_def split: prod.splits intro: engine_ok_step)
next
  case (4 now s x s')
  from 4(2) show ?case
    by (rule engine_step_accept) (use 4(1) in \<open>simp add: bucket_record_cutoff engine_ok_def count_live_def\<close>)
next
  case (5 now s x s' later)
  from 5(2) obtain d where d: "engine_op_step x now s = (d, s')"
    by (auto simp: engine_step_def split: prod.splits)
  from 5(2) show ?case
    by (rule engine_step_accept) (use engine_stamps_step [OF 5(1) d 5(3), of key] in auto)
next
  case (6 now s x s' later)
  from 6(2) obtain d where d: "engine_op_step x now s = (d, s')"
    by (auto simp: engine_step_def split: prod.splits)
  then show ?case using engine_stamps_step [OF 6(1) d 6(3), of key] by simp
qed

subsection \<open>The decision and the write rate\<close>

lemma evaluate_Accept_iff:
  "fst (evaluate ev now eng) = Accept \<longleftrightarrow>
     admissible eng ev \<and>
     count_live (after_cutoff (from_secs (rate_limit_window_secs (config eng)))) now
       (or_default (rate_buckets eng) (charged_bucket eng ev)) < rate_limit_events (config eng)"
proof (cases "admissible eng ev")
  case True
  then show ?thesis
    by (auto simp: evaluate_admissible [OF True refl] bucket_record_cutoff count_live_def)
next
  case False
  then show ?thesis
    by (auto simp: evaluate_def admissible_iff split: sum.splits option.splits)
qed

text \<open>
  C28: what the write policy accepts. An event is accepted exactly when it is not a plain DM, its
  kind is allowed, its author (for a gift wrap: a tagged recipient) is an active member, its
  group tag names a group it may write, and the bucket it is charged to has room; an event
  that is not admissible leaves the engine as it was, so it costs nobody any budget.
\<close>

theorem evaluate_decision:
  "(fst (evaluate ev now eng) = Accept \<longleftrightarrow>
      admissible eng ev \<and>
      count_live (after_cutoff (from_secs (rate_limit_window_secs (config eng)))) now
        (or_default (rate_buckets eng) (charged_bucket eng ev)) < rate_limit_events (config eng)) \<and>
   (snd (evaluate ev now eng) = eng \<or> admissible eng ev)"
  using evaluate_Accept_iff evaluate_not_admissible by blast

text \<open>
  The write rate. Over any sequence of events, reloads of the allowlist and of the
  group map, and prunings in time order, the events charged to one bucket that were accepted in
  any window are at most the configured number.
\<close>

theorem writes_within_rate:
  assumes "rate_limit_events cfg = n" and "rate_limit_window_secs cfg = secs"
    and "ordered_from t ops" and "end_time t ops \<le> later"
  shows "count_live (after_cutoff (from_secs secs)) later
    (accepted (engine_step key) (engine_new cfg) ops) \<le> n"
  by (rule writes.accepted_window [OF _ assms(3,4)])
     (use assms(1,2) in \<open>simp add: engine_ok_def engine_new_def or_default_def\<close>)

definition wit_note :: event_info where
  "wit_note = \<lparr>ei_id = ''e'', ei_pubkey = ''k'', ei_kind = 1, ei_tags = [], ei_authed = None\<rparr>"

theorem writes_within_rate_witness:
  "count_live (after_cutoff (from_secs 60)) 9
    (accepted (engine_step ''k'') (engine_new (default_config\<lparr>rate_limit_events := 2\<rparr>))
      [(ReloadAllowlist {''k''}, 0), (Evaluate wit_note, 1), (Evaluate wit_note, 2),
       (Evaluate wit_note, 3), (PruneBuckets, 9)]) \<le> 2"
  by (rule writes_within_rate [of _ _ _ 0]) (simp_all add: default_config_def)

end
