(* ===== verification/OrgRoles.thy ===== *)
theory OrgRoles
  imports Prelude
begin

text \<open>
  Organisation roles (\<open>crates/db/src/types.rs\<close>) with their privilege order, the library's
  \<open>linorder\<close>.
\<close>

datatype org_role = Admin | Officer | Member | Recruit

fun level :: "org_role \<Rightarrow> nat" where
  "level Admin = 3"
| "level Officer = 2"
| "level Member = 1"
| "level Recruit = 0"

definition is_at_least :: "org_role \<Rightarrow> org_role \<Rightarrow> bool" where
  "is_at_least r required \<longleftrightarrow> level required \<le> level r"

fun can_access_officer_channel :: "org_role \<Rightarrow> bool" where
  "can_access_officer_channel Admin = True"
| "can_access_officer_channel Officer = True"
| "can_access_officer_channel _ = False"

instantiation org_role :: linorder
begin

definition less_eq_org_role :: "org_role \<Rightarrow> org_role \<Rightarrow> bool" where
  "less_eq_org_role a b \<longleftrightarrow> level a \<le> level b"

definition less_org_role :: "org_role \<Rightarrow> org_role \<Rightarrow> bool" where
  "less_org_role a b \<longleftrightarrow> level a < level b"

instance
proof
  fix a b c :: org_role
  show "a < b \<longleftrightarrow> a \<le> b \<and> \<not> b \<le> a" by (auto simp: less_eq_org_role_def less_org_role_def)
  show "a \<le> a" by (simp add: less_eq_org_role_def)
  show "a \<le> b \<Longrightarrow> b \<le> c \<Longrightarrow> a \<le> c" by (simp add: less_eq_org_role_def)
  show "a \<le> b \<Longrightarrow> b \<le> a \<Longrightarrow> a = b"
    by (cases a; cases b) (simp_all add: less_eq_org_role_def)
  show "a \<le> b \<or> b \<le> a" by (auto simp: less_eq_org_role_def)
qed

end

lemma is_at_least_le: "is_at_least r required \<longleftrightarrow> required \<le> r"
  by (simp add: is_at_least_def less_eq_org_role_def)

lemma can_access_officer_channel_iff: "can_access_officer_channel r \<longleftrightarrow> Officer \<le> r"
  by (cases r) (simp_all add: less_eq_org_role_def)

end
