(* ===== verification/RelayDirectory.thy ===== *)
theory RelayDirectory
  imports ReadPolicy WritePolicy OrgRoles
begin

text \<open>
  How the two relay processes turn database rows into what they enforce,
  \<open>crates/relay-policy/src/directory.rs\<close> and \<open>load_pubkey_allowlist\<close> of \<open>main.rs\<close>. The rows are
  parameters: active members' identities, active roster pairs (member, team) and all team channels,
  as the database queries return them.
\<close>

record identity_row =
  id_member :: string
  id_pubkey :: "string option"
  id_role :: org_role

datatype group_type = Public | OfficerOnly

record channel_row_db =
  ch_team :: string
  ch_group :: string
  ch_type :: group_type
  ch_active :: bool

subsection \<open>The read directory\<close>

text \<open>\<open>unwrap_or_default()\<close> and \<open>or_default()\<close> on a set-valued map.\<close>

definition set_or_default :: "('k \<rightharpoonup> 'v set) \<Rightarrow> 'k \<Rightarrow> 'v set" where
  "set_or_default m k = (case m k of None \<Rightarrow> {} | Some s \<Rightarrow> s)"

definition add_team ::
  "(string \<rightharpoonup> string set) \<Rightarrow> string \<times> string \<Rightarrow> (string \<rightharpoonup> string set)" where
  "add_team m pair =
     (case pair of (member, team) \<Rightarrow>
        m(member \<mapsto> insert team (set_or_default m member)))"

text \<open>The loop over members takes each team set out of the map (\<open>HashMap::remove\<close>).\<close>

fun member_acls :: "(string \<rightharpoonup> string set) \<Rightarrow> identity_row list \<Rightarrow> member_acl list" where
  "member_acls teams [] = []"
| "member_acls teams (m # ms) =
     (case id_pubkey m of
        None \<Rightarrow> member_acls teams ms
      | Some pk \<Rightarrow>
          \<lparr>acl_pubkey = pk, acl_member_id = id_member m,
           acl_officer = can_access_officer_channel (id_role m),
           acl_teams = set_or_default teams (id_member m)\<rparr>
          # member_acls (teams(id_member m := None)) ms)"

definition channel_acl :: "channel_row_db \<Rightarrow> string \<times> group_acl" where
  "channel_acl c =
     (ch_group c, \<lparr>grp_team_id = ch_team c, grp_officer_only = (ch_type c = OfficerOnly)\<rparr>)"

definition load_read_directory ::
  "identity_row list \<Rightarrow> (string \<times> string) list \<Rightarrow> channel_row_db list \<Rightarrow> read_directory" where
  "load_read_directory members pairs channels =
     from_parts (member_acls (foldl add_team Map.empty pairs) members) (map channel_acl channels)"

subsection \<open>The write map\<close>

record team_writers =
  roster :: "string set"
  officers :: "string set"

definition add_pubkey ::
  "(string \<rightharpoonup> string \<times> bool) \<Rightarrow> identity_row \<Rightarrow> (string \<rightharpoonup> string \<times> bool)" where
  "add_pubkey m row =
     (case id_pubkey row of
        None \<Rightarrow> m
      | Some raw \<Rightarrow>
          let pk = to_ascii_lowercase raw in
          if hex64 pk then m(id_member row \<mapsto> (pk, can_access_officer_channel (id_role row))) else m)"

definition add_writer ::
  "(string \<rightharpoonup> string \<times> bool) \<Rightarrow> (string \<rightharpoonup> team_writers) \<Rightarrow> string \<times> string
     \<Rightarrow> (string \<rightharpoonup> team_writers)" where
  "add_writer keys m pair =
     (case pair of (member, team) \<Rightarrow>
        (case keys member of
           None \<Rightarrow> m
         | Some (pk, officer) \<Rightarrow>
             let entry = (case m team of None \<Rightarrow> \<lparr>roster = {}, officers = {}\<rparr> | Some e \<Rightarrow> e);
                 entry = entry\<lparr>roster := insert pk (roster entry)\<rparr>;
                 entry = (if officer then entry\<lparr>officers := insert pk (officers entry)\<rparr> else entry)
             in m(team \<mapsto> entry)))"

definition add_channel ::
  "(string \<rightharpoonup> team_writers) \<Rightarrow> (string \<rightharpoonup> string set) \<Rightarrow> channel_row_db
     \<Rightarrow> (string \<rightharpoonup> string set)" where
  "add_channel by_team gs c =
     (if \<not> ch_active c then gs
      else case by_team (ch_team c) of
        None \<Rightarrow> gs(ch_group c \<mapsto> {})
      | Some team \<Rightarrow>
          gs(ch_group c \<mapsto> (if ch_type c = OfficerOnly then officers team else roster team)))"

definition load_group_writers ::
  "identity_row list \<Rightarrow> (string \<times> string) list \<Rightarrow> channel_row_db list \<Rightarrow> (string \<rightharpoonup> string set)" where
  "load_group_writers members pairs channels =
     foldl (add_channel (foldl (add_writer (foldl add_pubkey Map.empty members)) Map.empty pairs))
       Map.empty channels"

text \<open>The allowlist of the plugin; a failed query (\<open>None\<close>) gives the empty set.\<close>

definition load_pubkey_allowlist :: "identity_row list option \<Rightarrow> string set" where
  "load_pubkey_allowlist rows =
     (case rows of
        None \<Rightarrow> {}
      | Some members \<Rightarrow>
          set (map to_ascii_lowercase (filter hex64 (filter_map id_pubkey members))))"

text \<open>\<open>refresh_writers\<close>: a failed group query keeps the previous map.\<close>

definition refresh_writers ::
  "identity_row list option \<Rightarrow> (string \<rightharpoonup> string set) option \<Rightarrow> instant \<Rightarrow> policy_engine
     \<Rightarrow> policy_engine" where
  "refresh_writers members loaded now eng =
     (let eng = update_allowlist (load_pubkey_allowlist members) eng;
          eng = (case loaded of Some gs \<Rightarrow> update_group_members gs eng | None \<Rightarrow> eng)
      in prune_rate_buckets_at now eng)"

subsection \<open>The maps in terms of the rows\<close>

lemma set_or_default_add_team:
  "set_or_default (add_team m p) k = set_or_default m k \<union> {team. (k, team) = p}"
  by (cases p) (auto simp: add_team_def set_or_default_def)

lemma teams_by_member:
  "set_or_default (foldl add_team m pairs) k = set_or_default m k \<union> {team. (k, team) \<in> set pairs}"
proof (induction pairs arbitrary: m)
  case (Cons p pairs)
  show ?case
    by (simp only: foldl_Cons Cons.IH set_or_default_add_team list.set) blast
qed simp

definition acl_of :: "(string \<times> string) list \<Rightarrow> identity_row \<Rightarrow> member_acl option" where
  "acl_of pairs row =
     map_option (\<lambda>pk.
       \<lparr>acl_pubkey = pk, acl_member_id = id_member row,
        acl_officer = can_access_officer_channel (id_role row),
        acl_teams = {team. (id_member row, team) \<in> set pairs}\<rparr>) (id_pubkey row)"

lemma acl_of_simps:
  "id_pubkey row = None \<Longrightarrow> acl_of pairs row = None"
  "id_pubkey row = Some pk \<Longrightarrow> acl_of pairs row = Some
     \<lparr>acl_pubkey = pk, acl_member_id = id_member row,
      acl_officer = can_access_officer_channel (id_role row),
      acl_teams = {team. (id_member row, team) \<in> set pairs}\<rparr>"
  by (simp_all add: acl_of_def)

lemma member_acls_rows:
  assumes "distinct (map id_member rows)"
    and "\<forall>row \<in> set rows. set_or_default m (id_member row) =
           {team. (id_member row, team) \<in> set pairs}"
  shows "member_acls m rows = filter_map (acl_of pairs) rows"
  using assms
proof (induction rows arbitrary: m)
  case (Cons row rows)
  show ?case
  proof (cases "id_pubkey row")
    case None
    then show ?thesis using Cons by (simp add: acl_of_simps)
  next
    case (Some pk)
    have "\<forall>r \<in> set rows. id_member r \<noteq> id_member row"
      using Cons.prems(1) by (auto simp: image_iff)
    then have "member_acls (m(id_member row := None)) rows = filter_map (acl_of pairs) rows"
      using Cons.prems by (intro Cons.IH) (auto simp: set_or_default_def)
    with Some Cons.prems(2) show ?thesis by (simp add: acl_of_simps)
  qed
qed simp

lemma load_read_directory_rows:
  assumes "distinct (map id_member rows)"
  shows "load_read_directory rows pairs channels =
    from_parts (filter_map (acl_of pairs) rows) (map channel_acl channels)"
  using member_acls_rows [OF assms, of "foldl add_team Map.empty pairs" pairs]
    teams_by_member [of Map.empty pairs]
  by (simp add: load_read_directory_def set_or_default_def [of Map.empty])

lemma add_pubkey_apply:
  "add_pubkey m row k =
     (case id_pubkey row of
        None \<Rightarrow> m k
      | Some raw \<Rightarrow>
          if k = id_member row \<and> hex64 (to_ascii_lowercase raw)
          then Some (to_ascii_lowercase raw, can_access_officer_channel (id_role row)) else m k)"
  by (simp add: add_pubkey_def Let_def split: option.splits)

lemma pubkeys_by_member:
  assumes "foldl add_pubkey Map.empty rows k = Some (pk, b)"
  shows "\<exists>row raw. row \<in> set rows \<and> id_member row = k \<and> id_pubkey row = Some raw \<and>
    pk = to_ascii_lowercase raw \<and> hex64 pk \<and> b = can_access_officer_channel (id_role row)"
  using assms
proof (induction rows rule: rev_induct)
  case (snoc row rows)
  show ?case
  proof (cases "foldl add_pubkey Map.empty rows k = Some (pk, b)")
    case True
    then show ?thesis using snoc.IH by auto
  next
    case False
    then show ?thesis using snoc.prems add_pubkey_apply [of "foldl add_pubkey Map.empty rows" row k]
      by (auto split: option.splits if_splits)
  qed
qed simp

lemma add_writer_apply:
  "add_writer keys m (member, team) =
     (case keys member of
        None \<Rightarrow> m
      | Some (pk, b) \<Rightarrow>
          m(team \<mapsto>
            \<lparr>roster = insert pk (case m team of None \<Rightarrow> {} | Some e \<Rightarrow> roster e),
             officers = (if b then insert pk else id) (case m team of None \<Rightarrow> {} | Some e \<Rightarrow> officers e)\<rparr>))"
  by (auto simp: add_writer_def Let_def split: option.splits)

lemma writers_by_team:
  assumes "foldl (add_writer keys) Map.empty pairs team = Some tw"
  shows "(\<forall>pk \<in> roster tw. \<exists>member b. (member, team) \<in> set pairs \<and> keys member = Some (pk, b)) \<and>
         (\<forall>pk \<in> officers tw. \<exists>member. (member, team) \<in> set pairs \<and> keys member = Some (pk, True))"
  using assms
proof (induction pairs arbitrary: tw rule: rev_induct)
  case (snoc p pairs)
  obtain member t where p: "p = (member, t)" by force
  let ?old = "foldl (add_writer keys) Map.empty pairs"
  show ?case
  proof (cases "t = team \<and> keys member \<noteq> None")
    case False
    then have "?old team = Some tw"
      using snoc.prems p by (auto simp: add_writer_apply split: option.splits prod.splits if_splits)
    from snoc.IH [OF this] show ?thesis by simp blast
  next
    case True
    then obtain pk b where key: "keys member = Some (pk, b)" by auto
    show ?thesis
    proof (cases "?old team")
      case None
      then show ?thesis using snoc.prems p key True
        by (auto simp: add_writer_apply split: if_splits intro!: exI [of _ member])
    next
      case (Some old)
      then show ?thesis using snoc.prems p key True snoc.IH [OF Some]
        by (auto simp: add_writer_apply split: if_splits; blast)
    qed
  qed
qed simp

lemma add_channel_apply:
  "add_channel by_team gs c k =
     (if ch_active c \<and> k = ch_group c
      then Some (case by_team (ch_team c) of None \<Rightarrow> {}
                 | Some tw \<Rightarrow> if ch_type c = OfficerOnly then officers tw else roster tw)
      else gs k)"
  by (simp add: add_channel_def split: option.splits)

lemma channels_by_group:
  assumes "foldl (add_channel by_team) Map.empty channels gid = Some ws" and "pk \<in> ws"
  shows "\<exists>c tw. c \<in> set channels \<and> ch_active c \<and> ch_group c = gid \<and> by_team (ch_team c) = Some tw \<and>
    pk \<in> (if ch_type c = OfficerOnly then officers tw else roster tw)"
  using assms
proof (induction channels arbitrary: ws rule: rev_induct)
  case (snoc c channels)
  show ?case
  proof (cases "ch_active c \<and> ch_group c = gid")
    case True
    then have "by_team (ch_team c) \<noteq> None"
      and "pk \<in> (case by_team (ch_team c) of None \<Rightarrow> {}
             | Some tw \<Rightarrow> if ch_type c = OfficerOnly then officers tw else roster tw)"
      using snoc.prems
      by (auto simp: add_channel_apply [of by_team "foldl (add_channel by_team) Map.empty channels" c gid]
          split: option.splits)
    with True show ?thesis by (intro exI [of _ c]) auto
  next
    case False
    then have "foldl (add_channel by_team) Map.empty channels gid = Some ws"
      using snoc.prems(1) add_channel_apply [of by_team "foldl (add_channel by_team) Map.empty channels" c gid]
      by (auto split: if_splits)
    from snoc.IH [OF this snoc.prems(2)] show ?thesis by (simp only: set_append Un_iff) blast
  qed
qed simp

lemma group_writer_rows:
  assumes "load_group_writers rows pairs channels gid = Some ws" and "pk \<in> ws"
  obtains c row raw where "c \<in> set channels" "ch_group c = gid" "row \<in> set rows"
    "id_pubkey row = Some raw" "pk = to_ascii_lowercase raw" "hex64 pk"
    "(id_member row, ch_team c) \<in> set pairs"
    "ch_type c = OfficerOnly \<Longrightarrow> can_access_officer_channel (id_role row)"
proof -
  let ?keys = "foldl add_pubkey Map.empty rows"
  let ?teams = "foldl (add_writer ?keys) Map.empty pairs"
  from channels_by_group [OF assms [unfolded load_group_writers_def]] obtain c tw
    where c: "c \<in> set channels" "ch_group c = gid" "?teams (ch_team c) = Some tw"
      "pk \<in> (if ch_type c = OfficerOnly then officers tw else roster tw)" by blast
  from writers_by_team [OF c(3)] c(4) obtain member b
    where m: "(member, ch_team c) \<in> set pairs" "?keys member = Some (pk, b)"
      "ch_type c = OfficerOnly \<longrightarrow> b" by (auto split: if_splits)
  from pubkeys_by_member [OF m(2)] c m that show ?thesis by blast
qed

lemma find_rev_unique:
  assumes "distinct (map f xs)" and "x \<in> set xs" and "f x = k" and "Q x"
  shows "find (\<lambda>y. f y = k \<and> Q y) (rev xs) = Some x"
proof (cases "find (\<lambda>y. f y = k \<and> Q y) (rev xs)")
  case None
  then show ?thesis using assms by (auto simp: find_None_iff)
next
  case (Some y)
  then have "y \<in> set xs" "f y = k"
    by (auto simp: find_Some_iff) (metis length_rev nth_mem set_rev)
  then show ?thesis using Some assms(1-3) by (auto simp: distinct_map inj_on_def)
qed

text \<open>
  Whoever may write to a channel may read it: the two processes load their rules
  separately, from the same rows, and the read gate's rule is not the stricter one.
\<close>

lemma writer_may_read:
  assumes ids: "distinct (map id_member rows)"
    and keys: "distinct (map acl_pubkey_norm (filter_map (acl_of pairs) rows))"
    and norm: "acl_pubkey_norm = (\<lambda>m. norm_key (acl_pubkey m))"
    and groups: "distinct (map (\<lambda>c. trim (ch_group c)) channels)"
    and teams: "\<forall>c \<in> set channels. ch_team c \<noteq> []"
    and gid: "trim gid = gid" "gid \<noteq> []"
    and writer: "load_group_writers rows pairs channels gid = Some ws" "pk \<in> ws"
    and ev: "ev_kind view \<noteq> GIFT_WRAP_KIND" "event_channel view = Some gid"
  shows "may_read (filter_map (acl_of pairs) rows) (map channel_acl channels) pk view"
proof -
  from group_writer_rows [OF writer] obtain c row raw where
    c: "c \<in> set channels" "ch_group c = gid" and row: "row \<in> set rows" "id_pubkey row = Some raw"
    and pk: "pk = to_ascii_lowercase raw" "hex64 pk" and on_team: "(id_member row, ch_team c) \<in> set pairs"
    and officer: "ch_type c = OfficerOnly \<Longrightarrow> can_access_officer_channel (id_role row)" by blast
  let ?acl = "the (acl_of pairs row)"
  have acl: "?acl \<in> set (filter_map (acl_of pairs) rows)" "norm_key (acl_pubkey ?acl) = pk"
    using row pk by (auto simp: set_filter_map acl_of_def hex64_lower norm_key_hex64)
  have pk_norm: "norm_key pk = pk"
    using pk by (simp add: norm_key_hex64 hex64_lower to_ascii_lowercase_idem)
  have "member_row (filter_map (acl_of pairs) rows) pk = Some ?acl"
    using find_rev_unique [OF keys acl(1), of pk "\<lambda>_. True"] acl(2) pk(2) pk_norm norm
    by (simp add: member_row_def)
  moreover have "channel_row (map channel_acl channels) gid = Some (snd (channel_acl c))"
  proof -
    have inst: "trim (fst (channel_acl c)) = gid" "grp_team_id (snd (channel_acl c)) \<noteq> []"
      using c gid teams by (simp_all add: channel_acl_def)
    have "distinct (map (\<lambda>r. trim (fst r)) (map channel_acl channels))"
      using groups by (simp add: channel_acl_def comp_def)
    moreover have "channel_acl c \<in> set (map channel_acl channels)" using c(1) by simp
    ultimately have "find (\<lambda>r. trim (fst r) = gid \<and> grp_team_id (snd r) \<noteq> []) (rev (map channel_acl channels))
      = Some (channel_acl c)"
      using inst by (intro find_rev_unique) simp_all
    then show ?thesis using gid by (simp add: channel_row_def split_def)
  qed
  ultimately show ?thesis
    using ev on_team officer row by (auto simp: may_read_def channel_acl_def acl_of_def)
qed



text \<open>
  The plugin fails closed. After a refresh in which the member query failed, no event is
  accepted, whatever the group query returned.
\<close>

theorem failed_refresh_accepts_nothing:
  "fst (evaluate ev now (refresh_writers None loaded t eng)) \<noteq> Accept"
  by (auto simp: evaluate_Accept_iff refresh_writers_def load_pubkey_allowlist_def update_allowlist_def
      update_group_members_def prune_rate_buckets_at_def admissible_def Let_def split: option.splits)

end
