(* ===== verification/RelayCreds.thy ===== *)
theory RelayCreds
  imports Prelude
begin

text \<open>
  The database credentials of the relay processes, \<open>crates/relay-policy/src/creds.rs\<close>, and the
  production switch, \<open>crates/auth/src/env_flags.rs\<close>. A process environment is a record of optional
  strings.
\<close>

definition production_value_enabled :: "string \<Rightarrow> bool" where
  "production_value_enabled value =
     (let t = trim value in
      if t = [] then False
      else to_ascii_lowercase t \<notin> {''0'', ''false'', ''no'', ''off''})"

definition DEV_URL :: string where "DEV_URL = ''ws://127.0.0.1:8000''"
definition DEV_USER :: string where "DEV_USER = ''root''"
definition DEV_PASS :: string where "DEV_PASS = ''root''"

record relay_db_config =
  url :: string
  username :: string
  password :: string

datatype cred_error = MissingPassword | DefaultRoot | LocalUrl

record db_env =
  env_url :: "string option"
  env_user :: "string option"
  env_password :: "string option"
  env_pass_alias :: "string option"

definition nonempty :: "string option \<Rightarrow> string option" where
  "nonempty value =
     (case map_option trim value of None \<Rightarrow> None | Some s \<Rightarrow> if s = [] then None else Some s)"

definition or_else :: "'a option \<Rightarrow> 'a option \<Rightarrow> 'a option" where
  "or_else a b = (case a of Some x \<Rightarrow> Some x | None \<Rightarrow> b)"

definition password_from_env :: "db_env \<Rightarrow> string option" where
  "password_from_env env = or_else (nonempty (env_password env)) (nonempty (env_pass_alias env))"

text \<open>\<open>trim_end_matches('.')\<close>.\<close>

definition trim_end_dots :: "string \<Rightarrow> string" where
  "trim_end_dots s = rev (dropWhile (\<lambda>c. c = CHR ''.'') (rev s))"

definition LOOPBACK_HOSTS :: "string set" where
  "LOOPBACK_HOSTS = {[], ''localhost'', ''127.0.0.1'', ''::1'', ''0.0.0.0''}"

definition hostport_of :: "string \<Rightarrow> string" where
  "hostport_of trimmed =
     (let after_scheme = (case split_once ''://'' trimmed of Some (_, rest) \<Rightarrow> rest | None \<Rightarrow> trimmed)
      in hd (split_on (\<lambda>c. c \<in> {CHR ''/'', CHR ''?'', CHR ''#''}) after_scheme))"

definition host_of :: "string \<Rightarrow> string" where
  "host_of hostport =
     (if prefix ''['' hostport then hd (split_on (\<lambda>c. c = CHR '']'') (drop 1 hostport))
      else case rsplit_once '':'' hostport of Some (h, _) \<Rightarrow> h | None \<Rightarrow> hostport)"

definition url_is_local :: "string \<Rightarrow> bool" where
  "url_is_local u =
     (let trimmed = trim u in
      if trimmed = [] then True
      else to_ascii_lowercase (trim_end_dots (trim (host_of (hostport_of trimmed)))) \<in> LOOPBACK_HOSTS)"

definition resolve_relay_db_config :: "bool \<Rightarrow> db_env \<Rightarrow> cred_error + relay_db_config" where
  "resolve_relay_db_config production env =
     (let user = (case nonempty (env_user env) of Some u \<Rightarrow> u | None \<Rightarrow> DEV_USER);
          pass = password_from_env env
      in if production then
           (case pass of None \<Rightarrow> Inl MissingPassword
            | Some p \<Rightarrow>
                if user = DEV_USER \<and> p = DEV_PASS then Inl DefaultRoot
                else case nonempty (env_url env) of None \<Rightarrow> Inl LocalUrl
                  | Some u \<Rightarrow>
                      if url_is_local u then Inl LocalUrl
                      else Inr \<lparr>url = u, username = user, password = p\<rparr>)
         else Inr \<lparr>url = (case nonempty (env_url env) of Some u \<Rightarrow> u | None \<Rightarrow> DEV_URL),
                   username = user,
                   password = (case pass of Some p \<Rightarrow> p | None \<Rightarrow> DEV_PASS)\<rparr>)"

subsection \<open>What a production relay runs with\<close>

lemma nonempty_Some: "nonempty v = Some s \<longleftrightarrow> (\<exists>raw. v = Some raw \<and> s = trim raw \<and> s \<noteq> [])"
  by (auto simp: nonempty_def split: option.splits)

lemma or_else_Some: "or_else a b = Some x \<longleftrightarrow> a = Some x \<or> a = None \<and> b = Some x"
  by (cases a) (auto simp: or_else_def)

lemma password_from_env_Some:
  "password_from_env env = Some p \<longleftrightarrow>
     nonempty (env_password env) = Some p \<or>
     nonempty (env_password env) = None \<and> nonempty (env_pass_alias env) = Some p"
  by (simp add: password_from_env_def or_else_Some)

lemma split_on_clean: "list_all (\<lambda>c. \<not> p c) a \<Longrightarrow> split_on p a = [a]"
  by (induction a) auto

lemma split_on_first:
  "list_all (\<lambda>c. \<not> p c) a \<Longrightarrow> p d \<Longrightarrow> hd (split_on p (a @ d # rest)) = a"
proof (induction a)
  case Nil
  then show ?case by (auto split: list.splits)
next
  case (Cons c a)
  then show ?case by (cases "split_on p (a @ d # rest)") auto
qed

lemma rsplit_once_last:
  assumes "list_all (\<lambda>c. c \<noteq> d) b"
  shows "rsplit_once [d] (a @ d # b) = Some (a, b)"
  using split_once_first [of d "rev b" "[]" "rev a"] assms
  by (simp add: rsplit_once_def list_all_iff)

text \<open>
  The specification of the host test on a URL in the usual form: scheme, host, port, and a path,
  query or fragment.
\<close>

definition plain_host :: "string \<Rightarrow> bool" where
  "plain_host h \<longleftrightarrow>
     list_all (\<lambda>c. c \<notin> {CHR '':'', CHR ''/'', CHR ''?'', CHR ''#'', CHR ''['', CHR '']''}) h \<and>
     trim h = h"

lemma url_is_local_parts:
  assumes whole: "trim (scheme @ ''://'' @ h @ '':'' @ port @ CHR ''/'' # path) =
      scheme @ ''://'' @ h @ '':'' @ port @ CHR ''/'' # path"
    and scheme: "list_all (\<lambda>c. c \<noteq> CHR '':'') scheme"
    and h: "plain_host h"
    and port: "list_all (\<lambda>c. c \<notin> {CHR '':'', CHR ''/'', CHR ''?'', CHR ''#''}) port"
  shows "url_is_local (scheme @ ''://'' @ h @ '':'' @ port @ CHR ''/'' # path) \<longleftrightarrow>
    to_ascii_lowercase (trim_end_dots h) \<in> LOOPBACK_HOSTS"
proof -
  let ?u = "scheme @ ''://'' @ h @ '':'' @ port @ CHR ''/'' # path"
  have once: "split_once ''://'' ?u = Some (scheme, h @ '':'' @ port @ CHR ''/'' # path)"
    using split_once_first [OF scheme, of "''//''" "h @ '':'' @ port @ CHR ''/'' # path"] by simp
  have "hostport_of ?u = h @ '':'' @ port"
    using split_on_first [of "\<lambda>c. c \<in> {CHR ''/'', CHR ''?'', CHR ''#''}" "h @ '':'' @ port" "CHR ''/''" path]
      h port once by (auto simp: hostport_of_def plain_host_def list_all_iff)
  moreover have "host_of (h @ '':'' @ port) = h"
  proof -
    have "\<not> prefix ''['' (h @ '':'' @ port)"
      using h by (cases h) (auto simp: plain_host_def)
    then show ?thesis
      using rsplit_once_last [of "CHR '':''" port h] port by (simp add: host_of_def list_all_iff)
  qed
  moreover have "trim h = h" using h by (simp add: plain_host_def)
  moreover have "trim ?u \<noteq> []" by (subst whole) simp
  ultimately show ?thesis unfolding url_is_local_def Let_def whole by simp
qed

text \<open>
  A production relay never connects with default credentials or to a loopback database. If the
  configuration resolves in production, the password is the trimmed non-blank primary variable (the
  alias only when the primary is blank or missing), user and password are not both the default,
  and the URL is the operator's own, not blank and not local.
\<close>

theorem production_config_explicit:
  assumes "resolve_relay_db_config True env = Inr cfg"
  shows "password_from_env env = Some (password cfg) \<and> password cfg \<noteq> [] \<and>
    (nonempty (env_password env) = Some (password cfg) \<or>
     nonempty (env_password env) = None \<and> nonempty (env_pass_alias env) = Some (password cfg)) \<and>
    \<not> (username cfg = ''root'' \<and> password cfg = ''root'') \<and>
    nonempty (env_url env) = Some (url cfg) \<and> \<not> url_is_local (url cfg)"
  using assms
  by (auto simp: resolve_relay_db_config_def Let_def password_from_env_Some nonempty_Some
      DEV_USER_def DEV_PASS_def split: option.splits if_splits)

definition wit_db_env :: db_env where
  "wit_db_env = \<lparr>env_url = Some ''ws://surrealdb:8000'', env_user = None,
     env_password = Some '' '', env_pass_alias = Some ''s3cret''\<rparr>"

theorem production_config_explicit_witness:
  "\<not> url_is_local ''ws://surrealdb:8000'' \<and> password_from_env wit_db_env = Some ''s3cret''"
proof -
  have "resolve_relay_db_config True wit_db_env =
      Inr \<lparr>url = ''ws://surrealdb:8000'', username = ''root'', password = ''s3cret''\<rparr>"
    by code_simp
  from production_config_explicit [OF this] show ?thesis by simp
qed

text \<open>
  The loopback test on a URL in the usual form (scheme, host, port, path) looks at the host
  alone: the URL is local exactly when the host, in lower case and without trailing dots, is one of
  the loopback names.
\<close>

theorem url_is_local_host:
  assumes "trim (scheme @ ''://'' @ h @ '':'' @ port @ CHR ''/'' # path) =
      scheme @ ''://'' @ h @ '':'' @ port @ CHR ''/'' # path"
    and "list_all (\<lambda>c. c \<noteq> CHR '':'') scheme" and "plain_host h"
    and "list_all (\<lambda>c. c \<notin> {CHR '':'', CHR ''/'', CHR ''?'', CHR ''#''}) port"
  shows "url_is_local (scheme @ ''://'' @ h @ '':'' @ port @ CHR ''/'' # path) \<longleftrightarrow>
    to_ascii_lowercase (trim_end_dots h) \<in> {[], ''localhost'', ''127.0.0.1'', ''::1'', ''0.0.0.0''}"
  using url_is_local_parts [OF assms] by (simp add: LOOPBACK_HOSTS_def)

theorem url_is_local_host_witness:
  "url_is_local (''wss'' @ ''://'' @ ''LocalHost.'' @ '':'' @ ''80'' @ CHR ''/'' # ''db'')"
proof -
  have "to_ascii_lowercase (trim_end_dots ''LocalHost.'') = ''localhost''" by code_simp
  moreover have "trim (''wss'' @ ''://'' @ ''LocalHost.'' @ '':'' @ ''80'' @ CHR ''/'' # ''db'') =
      ''wss'' @ ''://'' @ ''LocalHost.'' @ '':'' @ ''80'' @ CHR ''/'' # ''db''" by code_simp
  moreover have "plain_host ''LocalHost.''" by code_simp
  ultimately show ?thesis
    by (subst url_is_local_host) simp_all
qed

text \<open>A user part in front of the host hides a loopback host from the test.\<close>

lemma userinfo_hides_loopback: "\<not> url_is_local ''ws://relay@localhost:8000''"
  by code_simp

end
