(* ===== verification/Tables.thy ===== *)
theory Tables
  imports Prelude
begin

text \<open>
  Database tables as the query code sees them, and operations that may fail. A SurrealQL statement
  of the source is an operation on a table: \<open>create\<close> adds a record under an rid the database makes up,
  \<open>select\<close> looks one up, \<open>update .. content\<close> replaces one, \<open>delete\<close> removes one or all that satisfy a
  condition, and a \<open>SELECT .. WHERE\<close> lists them in the table's scan order.
\<close>

record 'r table =
  scan :: "string list"
  rows :: "string \<rightharpoonup> 'r"

definition t_empty :: "'r table" where
  "t_empty = \<lparr>scan = [], rows = Map.empty\<rparr>"

definition t_create :: "string \<Rightarrow> 'r \<Rightarrow> 'r table \<Rightarrow> 'r table" where
  "t_create rid r t = \<lparr>scan = scan t @ [rid], rows = (rows t)(rid \<mapsto> r)\<rparr>"

definition t_update :: "string \<Rightarrow> 'r \<Rightarrow> 'r table \<Rightarrow> 'r table" where
  "t_update rid r t = t\<lparr>rows := (rows t)(rid \<mapsto> r)\<rparr>"

definition t_delete :: "string \<Rightarrow> 'r table \<Rightarrow> 'r table" where
  "t_delete rid t = \<lparr>scan = removeAll rid (scan t), rows = (rows t)(rid := None)\<rparr>"

definition t_list :: "('r \<Rightarrow> bool) \<Rightarrow> 'r table \<Rightarrow> (string \<times> 'r) list" where
  "t_list P t =
     filter (\<lambda>(rid, r). P r) (map (\<lambda>rid. (rid, the (rows t rid))) (filter (\<lambda>rid. rows t rid \<noteq> None) (scan t)))"

definition t_delete_where :: "('r \<Rightarrow> bool) \<Rightarrow> 'r table \<Rightarrow> 'r table" where
  "t_delete_where P t =
     (let keep = (\<lambda>rid. case rows t rid of None \<Rightarrow> False | Some r \<Rightarrow> \<not> P r)
      in \<lparr>scan = filter keep (scan t), rows = (\<lambda>rid. if keep rid then rows t rid else None)\<rparr>)"

definition t_update_where :: "('r \<Rightarrow> bool) \<Rightarrow> ('r \<Rightarrow> 'r) \<Rightarrow> 'r table \<Rightarrow> 'r table" where
  "t_update_where P f t = t\<lparr>rows := (\<lambda>rid. map_option (\<lambda>r. if P r then f r else r) (rows t rid))\<rparr>"

definition table_ok :: "'r table \<Rightarrow> bool" where
  "table_ok t \<longleftrightarrow> distinct (scan t) \<and> set (scan t) = dom (rows t)"

lemma table_ok_empty [intro]: "table_ok t_empty"
  by (simp add: table_ok_def t_empty_def)

lemma table_ok_create [intro]: "table_ok t \<Longrightarrow> rows t rid = None \<Longrightarrow> table_ok (t_create rid r t)"
  by (auto simp: table_ok_def t_create_def)

lemma table_ok_update [intro]: "table_ok t \<Longrightarrow> rows t rid \<noteq> None \<Longrightarrow> table_ok (t_update rid r t)"
  by (auto simp: table_ok_def t_update_def)

lemma table_ok_delete [intro]: "table_ok t \<Longrightarrow> table_ok (t_delete rid t)"
  by (auto simp: table_ok_def t_delete_def distinct_removeAll)

lemma table_ok_delete_where [intro]: "table_ok t \<Longrightarrow> table_ok (t_delete_where P t)"
  by (auto simp: table_ok_def t_delete_where_def Let_def dom_def split: option.splits if_splits)

lemma table_ok_update_where [intro]: "table_ok t \<Longrightarrow> table_ok (t_update_where P f t)"
  by (auto simp: table_ok_def t_update_where_def)

lemma rows_update_where:
  "rows (t_update_where P f t) rid = map_option (\<lambda>r. if P r then f r else r) (rows t rid)"
  by (simp add: t_update_where_def)

lemma rows_t_delete_where [simp]:
  "rows (t_delete_where P t) k = (case rows t k of None \<Rightarrow> None | Some r \<Rightarrow> if P r then None else Some r)"
  by (simp add: t_delete_where_def Let_def split: option.splits)

lemma set_t_list: "table_ok t \<Longrightarrow> set (t_list P t) = {(rid, r). rows t rid = Some r \<and> P r}"
  by (auto simp: t_list_def table_ok_def image_iff)

lemma distinct_t_list: "table_ok t \<Longrightarrow> distinct (map fst (t_list P t))"
  by (auto simp: t_list_def table_ok_def distinct_map comp_def split_def
        intro!: inj_onI distinct_filter)

lemma t_list_create:
  assumes "table_ok t" and "rows t rid = None"
  shows "t_list P (t_create rid r t) = t_list P t @ (if P r then [(rid, r)] else [])"
proof -
  have "rid \<notin> set (scan t)" using assms by (auto simp: table_ok_def)
  then have ids: "filter (\<lambda>k. rows (t_create rid r t) k \<noteq> None) (scan t) = filter (\<lambda>k. rows t k \<noteq> None) (scan t)"
    and pairs: "map (\<lambda>k. (k, the (rows (t_create rid r t) k))) (filter (\<lambda>k. rows t k \<noteq> None) (scan t)) =
       map (\<lambda>k. (k, the (rows t k))) (filter (\<lambda>k. rows t k \<noteq> None) (scan t))"
    by (auto simp: t_create_def intro!: filter_cong)
  have "scan (t_create rid r t) = scan t @ [rid]" "rows (t_create rid r t) rid = Some r"
    by (simp_all add: t_create_def)
  then show ?thesis
    unfolding t_list_def by (simp only: filter_append map_append ids pairs) simp
qed

subsection \<open>Reading and replacing one record\<close>

text \<open>\<open>select\<close>, change, \<open>update .. content\<close>; the batch applies one change after the other.\<close>

definition modify :: "('s \<Rightarrow> string \<Rightarrow> 'r option) \<Rightarrow> (string \<Rightarrow> 'r \<Rightarrow> 's \<Rightarrow> 's) \<Rightarrow>
    string \<times> ('r \<Rightarrow> 'r) \<Rightarrow> 's \<Rightarrow> 's" where
  "modify sel put upd s =
     (case upd of (rid, f) \<Rightarrow> case sel s rid of None \<Rightarrow> s | Some r \<Rightarrow> put rid (f r) s)"

definition changes_at :: "string \<Rightarrow> (string \<times> ('r \<Rightarrow> 'r)) list \<Rightarrow> 'r \<Rightarrow> 'r" where
  "changes_at rid upds r = fold snd (filter (\<lambda>u. fst u = rid) upds) r"

lemma changes_at_simps [simp]:
  "changes_at rid [] r = r"
  "changes_at rid (u # upds) r = changes_at rid upds (if fst u = rid then snd u r else r)"
  by (simp_all add: changes_at_def)

lemma changes_at_append: "changes_at rid (us @ vs) r = changes_at rid vs (changes_at rid us r)"
  by (simp add: changes_at_def)

lemma changes_at_none: "rid \<notin> fst ` set upds \<Longrightarrow> changes_at rid upds r = r"
  by (induction upds) auto

lemma changes_at_unique:
  assumes "distinct (map fst upds)" and "(rid, f) \<in> set upds"
  shows "changes_at rid upds r = f r"
  using assms
proof (induction upds)
  case (Cons u upds)
  show ?case
  proof (cases "fst u = rid")
    case True
    then have no: "rid \<notin> fst ` set upds" using Cons.prems(1) by auto
    then have "(rid, f) \<notin> set upds" by force
    then have "u = (rid, f)" using Cons.prems(2) by simp
    then show ?thesis using no by (simp add: changes_at_none)
  next
    case False
    with Cons show ?thesis by auto
  qed
qed simp

locale record_store =
  fixes sel :: "'s \<Rightarrow> string \<Rightarrow> 'r option"
    and put :: "string \<Rightarrow> 'r \<Rightarrow> 's \<Rightarrow> 's"
  assumes sel_put: "sel s rid \<noteq> None \<Longrightarrow> sel (put rid r s) k = (if k = rid then Some r else sel s k)"
begin

lemma sel_modify:
  "sel (modify sel put (rid, f) s) k = (if k = rid then map_option f (sel s k) else sel s k)"
  by (cases "sel s rid") (auto simp: modify_def sel_put)

lemma dom_modify: "(sel (modify sel put u s) k = None) = (sel s k = None)"
  by (cases u) (auto simp: sel_modify)

text \<open>What a batch of changes leaves in one record.\<close>

lemma sel_modify_all:
  "sel (fold (modify sel put) upds s) k = map_option (changes_at k upds) (sel s k)"
proof (induction upds arbitrary: s)
  case Nil
  then show ?case by (simp add: option.map_id0 [unfolded id_def] changes_at_def [abs_def])
next
  case (Cons u upds)
  obtain rid f where u: "u = (rid, f)" by force
  have "sel (fold (modify sel put) (u # upds) s) k =
      map_option (changes_at k upds) (sel (modify sel put (rid, f) s) k)"
    by (simp add: Cons.IH u)
  also have "\<dots> = map_option (changes_at k (u # upds)) (sel s k)"
    by (auto simp: sel_modify u map_option_case split: option.splits)
  finally show ?case .
qed

end

subsection \<open>Operations that may fail\<close>

type_synonym ('s, 'e, 'a) op = "'s \<Rightarrow> ('e + 'a) \<times> 's"

definition ret :: "'a \<Rightarrow> ('s, 'e, 'a) op" where
  "ret x s = (Inr x, s)"

definition fail :: "'e \<Rightarrow> ('s, 'e, 'a) op" where
  "fail e s = (Inl e, s)"

definition and_then :: "('s, 'e, 'a) op \<Rightarrow> ('a \<Rightarrow> ('s, 'e, 'b) op) \<Rightarrow> ('s, 'e, 'b) op" where
  "and_then m f s = (case m s of (Inl e, s') \<Rightarrow> (Inl e, s') | (Inr x, s') \<Rightarrow> f x s')"

fun for_each :: "('x \<Rightarrow> ('s, 'e, unit) op) \<Rightarrow> 'x list \<Rightarrow> ('s, 'e, unit) op" where
  "for_each body [] = ret ()"
| "for_each body (x # xs) = and_then (body x) (\<lambda>_. for_each body xs)"

text \<open>A loop that pushes one result per element.\<close>

fun collect :: "('x \<Rightarrow> ('s, 'e, 'a) op) \<Rightarrow> 'x list \<Rightarrow> ('s, 'e, 'a list) op" where
  "collect body [] = ret []"
| "collect body (x # xs) = and_then (body x) (\<lambda>y. and_then (collect body xs) (\<lambda>ys. ret (y # ys)))"

lemma and_then_simps [simp]:
  "m s = (Inr x, s') \<Longrightarrow> and_then m f s = f x s'"
  "m s = (Inl e, s') \<Longrightarrow> and_then m f s = (Inl e, s')"
  by (simp_all add: and_then_def)

lemma and_then_ret [simp]: "and_then (ret x) f = f x"
  by (rule ext) (simp add: and_then_def ret_def)

lemma and_then_fail [simp]: "and_then (fail e) f = fail e"
  by (rule ext) (simp add: and_then_def fail_def)

lemma and_then_Inr_iff:
  "and_then m f s = (Inr y, s'') \<longleftrightarrow> (\<exists>x s'. m s = (Inr x, s') \<and> f x s' = (Inr y, s''))"
  by (auto simp: and_then_def split: prod.splits sum.splits)

lemma and_then_assoc: "and_then (and_then m f) g = and_then m (\<lambda>x. and_then (f x) g)"
  by (rule ext) (auto simp: and_then_def split: prod.splits sum.splits)

lemma for_each_append: "for_each body (xs @ ys) = and_then (for_each body xs) (\<lambda>_. for_each body ys)"
  by (induction xs) (simp_all add: and_then_assoc)

lemma for_each_concat: "for_each (\<lambda>xs. for_each body xs) xss = for_each body (concat xss)"
  by (induction xss) (simp_all add: for_each_append)

lemma for_each_total:
  assumes "\<And>x s. x \<in> set xs \<Longrightarrow> P s \<Longrightarrow> body x s = (Inr (), f x s) \<and> P (f x s)" and "P s"
  shows "for_each body xs s = (Inr (), fold f xs s) \<and> P (fold f xs s)"
  using assms
proof (induction xs arbitrary: s)
  case (Cons x xs)
  then have "body x s = (Inr (), f x s)" "P (f x s)" by simp_all
  with Cons.IH [of "f x s"] Cons.prems(1) show ?case by simp
qed (simp add: ret_def)

subsection \<open>The effect of an operation\<close>

text \<open>
  \<open>relates R f\<close>: whatever \<open>f\<close> returns, the states before and after are related by \<open>R\<close>. For a preorder,
  a composed operation relates them as soon as its parts do.
\<close>

named_theorems effect_intros \<open>operations whose states are related\<close>

definition relates :: "('s \<Rightarrow> 's \<Rightarrow> bool) \<Rightarrow> ('s, 'e, 'a) op \<Rightarrow> bool" where
  "relates R f \<longleftrightarrow> (\<forall>s. R s (snd (f s)))"

lemma relatesD: "relates R f \<Longrightarrow> f s = (r, s') \<Longrightarrow> R s s'"
  unfolding relates_def by (metis snd_conv)

lemma relates_cases [effect_intros]:
  "relates R f \<Longrightarrow> relates R g \<Longrightarrow> relates R (if b then f else g)"
  "relates R f \<Longrightarrow> (\<And>x. relates R (h x)) \<Longrightarrow> relates R (case y of None \<Rightarrow> f | Some x \<Rightarrow> h x)"
  "(\<And>x y. relates R (k x y)) \<Longrightarrow> relates R (case p of (x, y) \<Rightarrow> k x y)"
  by (cases b; simp) (simp_all split: option.splits prod.splits)

text \<open>A relation that absorbs what happens before, or after, the part that it speaks about.\<close>

lemma relates_absorb:
  assumes "relates R m" and "\<And>x. relates Q (f x)"
    and "\<And>s s'. R s s' \<Longrightarrow> Q s s'" and "\<And>s s' s''. R s s' \<Longrightarrow> Q s' s'' \<Longrightarrow> Q s s''"
  shows "relates Q (and_then m f)"
  unfolding relates_def
proof
  fix s
  obtain r s1 where m: "m s = (r, s1)" by force
  then have R: "R s s1" using relatesD [OF assms(1)] by blast
  show "Q s (snd (and_then m f s))"
  proof (cases r)
    case (Inl e)
    with m R assms(3) show ?thesis by simp
  next
    case (Inr x)
    have "Q s1 (snd (f x s1))" using assms(2) [of x] by (simp add: relates_def)
    with m Inr R assms(4) show ?thesis by simp
  qed
qed

locale effect =
  fixes R :: "'s \<Rightarrow> 's \<Rightarrow> bool"
  assumes R_refl: "R s s"
    and R_trans: "R s s' \<Longrightarrow> R s' s'' \<Longrightarrow> R s s''"
begin

lemma unit_ops [effect_intros]: "relates R (ret x)" "relates R (fail e)"
  by (simp_all add: relates_def ret_def fail_def R_refl)

lemma after [effect_intros]:
  "relates R m \<Longrightarrow> (\<And>x. relates R (f x)) \<Longrightarrow> relates R (and_then m f)"
  unfolding relates_def and_then_def
  by (auto split: prod.splits sum.splits) (metis snd_conv, metis R_trans snd_conv)

lemma loop [effect_intros]: "(\<And>x. relates R (body x)) \<Longrightarrow> relates R (for_each body xs)"
  by (induction xs) (auto intro: unit_ops after)

lemma collecting [effect_intros]: "(\<And>x. relates R (body x)) \<Longrightarrow> relates R (collect body xs)"
  by (induction xs) (auto intro!: unit_ops after)

text \<open>The same for an operation whose parts depend on the state it starts from.\<close>

lemma at_state:
  "relates R m \<Longrightarrow> (\<And>x. relates R (f x)) \<Longrightarrow> R s (snd (and_then m f s))"
  "R s (snd (fail e s))"
  using after [of m f] by (simp_all add: relates_def fail_def R_refl)

end

end
