(* ===== verification/TournamentTypes.thy ===== *)
theory TournamentTypes
  imports Tables "HOL-Library.Word"
begin

text \<open>
  The data of tournaments: the enums of \<open>crates/types/src/org/tournament.rs\<close> with their
  \<open>Display\<close> texts, and the row structs and parsers of \<open>crates/db/src/queries/tournaments.rs\<close>. A
  row keeps its status as the text the database stores; the parsers map unknown texts to a default.
\<close>

datatype tournament_format = SingleElim | DoubleElim | RoundRobin | Swiss
datatype tournament_status = Draft | Registration | InProgress | Completed | Archived
datatype participant_status =
  Registered | CheckedIn | Active | Eliminated | Withdrawn | Disqualified
datatype bracket_stage = StageMain | StageWinners | StageLosers | StageGrandFinal | StageGroup
datatype match_status = MatchPending | MatchScheduled | MatchInProgress | MatchCompleted | MatchBye
datatype round_status = RoundPending | RoundInProgress | RoundCompleted

fun format_to_string :: "tournament_format \<Rightarrow> string" where
  "format_to_string SingleElim = ''single_elim''"
| "format_to_string DoubleElim = ''double_elim''"
| "format_to_string RoundRobin = ''round_robin''"
| "format_to_string Swiss = ''swiss''"

fun status_to_string :: "tournament_status \<Rightarrow> string" where
  "status_to_string Draft = ''draft''"
| "status_to_string Registration = ''registration''"
| "status_to_string InProgress = ''in_progress''"
| "status_to_string Completed = ''completed''"
| "status_to_string Archived = ''archived''"

fun participant_status_to_string :: "participant_status \<Rightarrow> string" where
  "participant_status_to_string Registered = ''registered''"
| "participant_status_to_string CheckedIn = ''checked_in''"
| "participant_status_to_string Active = ''active''"
| "participant_status_to_string Eliminated = ''eliminated''"
| "participant_status_to_string Withdrawn = ''withdrawn''"
| "participant_status_to_string Disqualified = ''disqualified''"

fun stage_to_string :: "bracket_stage \<Rightarrow> string" where
  "stage_to_string StageMain = ''main''"
| "stage_to_string StageWinners = ''winners''"
| "stage_to_string StageLosers = ''losers''"
| "stage_to_string StageGrandFinal = ''grand_final''"
| "stage_to_string StageGroup = ''group''"

fun match_status_to_string :: "match_status \<Rightarrow> string" where
  "match_status_to_string MatchPending = ''pending''"
| "match_status_to_string MatchScheduled = ''scheduled''"
| "match_status_to_string MatchInProgress = ''in_progress''"
| "match_status_to_string MatchCompleted = ''completed''"
| "match_status_to_string MatchBye = ''bye''"

fun round_status_to_string :: "round_status \<Rightarrow> string" where
  "round_status_to_string RoundPending = ''pending''"
| "round_status_to_string RoundInProgress = ''in_progress''"
| "round_status_to_string RoundCompleted = ''completed''"

definition parse_format :: "string \<Rightarrow> tournament_format" where
  "parse_format s =
     (if s = ''double_elim'' then DoubleElim
      else if s = ''round_robin'' then RoundRobin
      else if s = ''swiss'' then Swiss
      else SingleElim)"

definition parse_status :: "string \<Rightarrow> tournament_status" where
  "parse_status s =
     (if s = ''registration'' then Registration
      else if s = ''in_progress'' then InProgress
      else if s = ''completed'' then Completed
      else if s = ''archived'' then Archived
      else Draft)"

definition parse_participant_status :: "string \<Rightarrow> participant_status" where
  "parse_participant_status s =
     (if s = ''checked_in'' then CheckedIn
      else if s = ''active'' then Active
      else if s = ''eliminated'' then Eliminated
      else if s = ''withdrawn'' then Withdrawn
      else if s = ''disqualified'' then Disqualified
      else Registered)"

definition parse_stage :: "string \<Rightarrow> bracket_stage" where
  "parse_stage s =
     (if s = ''winners'' then StageWinners
      else if s = ''losers'' then StageLosers
      else if s = ''grand_final'' then StageGrandFinal
      else if s = ''group'' then StageGroup
      else StageMain)"

definition parse_round_status :: "string \<Rightarrow> round_status" where
  "parse_round_status s =
     (if s = ''in_progress'' then RoundInProgress
      else if s = ''completed'' then RoundCompleted
      else RoundPending)"

definition parse_match_status :: "string \<Rightarrow> match_status" where
  "parse_match_status s =
     (if s = ''scheduled'' then MatchScheduled
      else if s = ''in_progress'' then MatchInProgress
      else if s = ''completed'' then MatchCompleted
      else if s = ''bye'' then MatchBye
      else MatchPending)"

lemma parse_to_string [simp]:
  "parse_format (format_to_string f) = f"
  "parse_status (status_to_string st) = st"
  "parse_participant_status (participant_status_to_string p) = p"
  "parse_stage (stage_to_string g) = g"
  "parse_round_status (round_status_to_string r) = r"
  "parse_match_status (match_status_to_string m) = m"
  subgoal by (cases f) (simp_all add: parse_format_def)
  subgoal by (cases st) (simp_all add: parse_status_def)
  subgoal by (cases p) (simp_all add: parse_participant_status_def)
  subgoal by (cases g) (simp_all add: parse_stage_def)
  subgoal by (cases r) (simp_all add: parse_round_status_def)
  subgoal by (cases m) (simp_all add: parse_match_status_def)
  done

text \<open>
  Stored enums survive the database. For each of the six enums, parsing the stored text
  gives the value that was written, so distinct values have distinct texts; a text that is no value
  reads as the default (single elimination, draft, registered, main, pending).
\<close>

theorem stored_enums_round_trip:
  "parse_format (format_to_string f) = f \<and> parse_status (status_to_string st) = st \<and>
   parse_participant_status (participant_status_to_string p) = p \<and>
   parse_stage (stage_to_string g) = g \<and> parse_round_status (round_status_to_string r) = r \<and>
   parse_match_status (match_status_to_string m) = m \<and>
   (text \<notin> range format_to_string \<longrightarrow> parse_format text = SingleElim) \<and>
   (text \<notin> range status_to_string \<longrightarrow> parse_status text = Draft) \<and>
   (text \<notin> range match_status_to_string \<longrightarrow> parse_match_status text = MatchPending)"
proof -
  have "parse_format text = SingleElim \<or> text \<in> range format_to_string"
    unfolding parse_format_def by (smt (verit) format_to_string.simps rangeI)
  moreover have "parse_status text = Draft \<or> text \<in> range status_to_string"
    unfolding parse_status_def by (smt (verit) status_to_string.simps rangeI)
  moreover have "parse_match_status text = MatchPending \<or> text \<in> range match_status_to_string"
    unfolding parse_match_status_def by (smt (verit) match_status_to_string.simps rangeI)
  ultimately show ?thesis by auto
qed

theorem stored_enums_round_trip_witness:
  "parse_match_status ''cancelled'' = MatchPending \<and> parse_status (status_to_string InProgress) = InProgress"
proof -
  have "''cancelled'' \<notin> range match_status_to_string"
  proof
    assume "''cancelled'' \<in> range match_status_to_string"
    then obtain m where "''cancelled'' = match_status_to_string m" by blast
    then show False by (cases m) simp_all
  qed
  then show ?thesis
    using stored_enums_round_trip [of _ InProgress _ _ _ _ "''cancelled''"] by blast
qed

subsection \<open>Rows\<close>

record db_tournament =
  tn_name :: string
  tn_game_id :: "string option"
  tn_format :: string
  tn_status :: string
  tn_max_teams :: "nat option"
  tn_best_of :: nat
  tn_swiss_rounds :: "nat option"
  tn_is_external :: bool
  tn_is_open :: bool
  tn_external_url :: "string option"
  tn_rules :: "string option"
  tn_description :: "string option"
  tn_starts_at :: "instant option"
  tn_ends_at :: "instant option"
  tn_created_by :: string
  tn_created_at :: instant
  tn_updated_at :: instant

record db_participant =
  pt_tournament_id :: string
  pt_team_id :: "string option"
  pt_external_name :: "string option"
  pt_seed :: "nat option"
  pt_group_label :: "string option"
  pt_status :: string
  pt_created_at :: instant

record db_round =
  rd_tournament_id :: string
  rd_round_number :: nat
  rd_stage :: string
  rd_status :: string
  rd_created_at :: instant

record db_match =
  ma_tournament_id :: string
  ma_round_id :: string
  ma_bracket_position :: nat
  ma_participant_a_id :: "string option"
  ma_participant_b_id :: "string option"
  ma_score_a :: "32 word option"
  ma_score_b :: "32 word option"
  ma_winner_id :: "string option"
  ma_status :: string
  ma_scheduled_at :: "instant option"
  ma_completed_at :: "instant option"
  ma_match_result_id :: "string option"
  ma_next_match_id :: "string option"
  ma_next_match_slot :: "string option"
  ma_loser_next_match_id :: "string option"
  ma_loser_next_match_slot :: "string option"
  ma_notes :: "string option"
  ma_replay_codes :: "string list"

text \<open>
  The API structs are the rows with their id and parsed enums. \<open>db_to_tournament\<close> and its siblings
  are read off a pair of id and row through these views.
\<close>

definition tn_format_of :: "db_tournament \<Rightarrow> tournament_format" where
  "tn_format_of r = parse_format (tn_format r)"

definition tn_status_of :: "db_tournament \<Rightarrow> tournament_status" where
  "tn_status_of r = parse_status (tn_status r)"

definition ma_status_of :: "db_match \<Rightarrow> match_status" where
  "ma_status_of r = parse_match_status (ma_status r)"

end
