(* ===== verification/TournamentDb.thy ===== *)
theory TournamentDb
  imports TournamentTypes "HOL-Library.Multiset" "HOL-Library.Char_ord" "HOL-Library.List_Lexorder"
begin

text \<open>
  The tournament queries of \<open>crates/db/src/queries/tournaments.rs\<close> on a database state: four
  tables and the ids the database will hand out (\<open>mk_id 0, mk_id 1, ..\<close>, distinct). Every
  operation returns a result or an error and the new state. Connection failures and the query timeout
  are not modelled. An error value says which message the code builds.
\<close>

record tdb =
  mk_id :: "nat \<Rightarrow> string"
  id_count :: nat
  tournaments :: "db_tournament table"
  participants :: "db_participant table"
  rounds :: "db_round table"
  matches :: "db_match table"

datatype db_error =
    TournamentNotFound string
  | ParticipantNotFound string
  | RoundNotFound string
  | MatchNotFound string
  | InvalidSlot string
  | NeedTwoParticipants
  | WinnerNotParticipant string string
  | ScoreNotGreater "32 word" "32 word"
  | MatchNotPending string
  | Panicked

text \<open>\<open>DbError::Conflict\<close>; every other value is \<open>DbError::NotFound\<close>, except \<open>Panicked\<close>, an \<open>unwrap\<close> of \<open>None\<close>.\<close>

definition is_conflict :: "db_error \<Rightarrow> bool" where
  "is_conflict e \<longleftrightarrow>
     (case e of WinnerNotParticipant _ _ \<Rightarrow> True | ScoreNotGreater _ _ \<Rightarrow> True
      | MatchNotPending _ \<Rightarrow> True | _ \<Rightarrow> False)"

type_synonym 'a db_op = "(tdb, db_error, 'a) op"

definition fresh_id :: "tdb \<Rightarrow> string" where
  "fresh_id db = mk_id db (id_count db)"

subsection \<open>Tournaments\<close>

definition create_tournament ::
  "string \<Rightarrow> string option \<Rightarrow> tournament_format \<Rightarrow> nat option \<Rightarrow> nat \<Rightarrow> nat option \<Rightarrow> bool \<Rightarrow> bool \<Rightarrow>
   string option \<Rightarrow> string option \<Rightarrow> string option \<Rightarrow> instant option \<Rightarrow> instant option \<Rightarrow> string \<Rightarrow>
   instant \<Rightarrow> (string \<times> db_tournament) db_op" where
  "create_tournament name game_id fmt max_teams best_of swiss_rounds is_external is_open
     external_url rules description starts_at ends_at created_by now db =
     (let row = \<lparr>tn_name = name, tn_game_id = game_id, tn_format = format_to_string fmt,
            tn_status = ''draft'', tn_max_teams = max_teams, tn_best_of = best_of,
            tn_swiss_rounds = swiss_rounds, tn_is_external = is_external, tn_is_open = is_open,
            tn_external_url = external_url, tn_rules = rules, tn_description = description,
            tn_starts_at = starts_at, tn_ends_at = ends_at, tn_created_by = created_by,
            tn_created_at = now, tn_updated_at = now\<rparr>
      in (Inr (fresh_id db, row),
          db\<lparr>id_count := id_count db + 1, tournaments := t_create (fresh_id db) row (tournaments db)\<rparr>))"

definition get_tournament :: "string \<Rightarrow> tdb \<Rightarrow> db_tournament option" where
  "get_tournament rid db = rows (tournaments db) rid"

definition list_tournaments ::
  "tournament_status option \<Rightarrow> string option \<Rightarrow> tdb \<Rightarrow> (string \<times> db_tournament) list" where
  "list_tournaments status game_id db =
     sort_key (\<lambda>(_, r). - tn_created_at r)
       (t_list (\<lambda>r. (case status of None \<Rightarrow> True | Some s \<Rightarrow> tn_status r = status_to_string s) \<and>
                    (case game_id of None \<Rightarrow> True | Some g \<Rightarrow> tn_game_id r = Some g)) (tournaments db))"

definition list_tournaments_paginated ::
  "tournament_status option \<Rightarrow> string option \<Rightarrow> 32 word \<Rightarrow> 32 word \<Rightarrow> bool \<Rightarrow> tdb
     \<Rightarrow> (string \<times> db_tournament) list" where
  "list_tournaments_paginated status game_id limit offset include_drafts db =
     take (unat (limit + 1)) (drop (unat offset)
       (sort_key (\<lambda>(_, r). - tn_created_at r)
         (t_list (\<lambda>r. (case status of None \<Rightarrow> True | Some s \<Rightarrow> tn_status r = status_to_string s) \<and>
                      (case game_id of None \<Rightarrow> True | Some g \<Rightarrow> tn_game_id r = Some g) \<and>
                      (include_drafts \<or> tn_status r \<noteq> ''draft'')) (tournaments db))))"

record tournament_patch =
  up_name :: "string option"
  up_game_id :: "string option option"
  up_format :: "tournament_format option"
  up_max_teams :: "nat option option"
  up_best_of :: "nat option"
  up_swiss_rounds :: "nat option option"
  up_is_external :: "bool option"
  up_is_open :: "bool option"
  up_external_url :: "string option option"
  up_rules :: "string option option"
  up_description :: "string option option"
  up_starts_at :: "instant option option"
  up_ends_at :: "instant option option"

definition overwrite :: "'a option \<Rightarrow> 'a \<Rightarrow> 'a" where
  "overwrite new old = (case new of None \<Rightarrow> old | Some x \<Rightarrow> x)"

definition update_tournament :: "string \<Rightarrow> tournament_patch \<Rightarrow> instant \<Rightarrow> (string \<times> db_tournament) db_op" where
  "update_tournament rid p now db =
     (case rows (tournaments db) rid of
        None \<Rightarrow> (Inl (TournamentNotFound rid), db)
      | Some r \<Rightarrow>
          let r' = r\<lparr>tn_name := overwrite (up_name p) (tn_name r),
                tn_game_id := overwrite (up_game_id p) (tn_game_id r),
                tn_format := overwrite (map_option format_to_string (up_format p)) (tn_format r),
                tn_max_teams := overwrite (up_max_teams p) (tn_max_teams r),
                tn_best_of := overwrite (up_best_of p) (tn_best_of r),
                tn_swiss_rounds := overwrite (up_swiss_rounds p) (tn_swiss_rounds r),
                tn_is_external := overwrite (up_is_external p) (tn_is_external r),
                tn_is_open := overwrite (up_is_open p) (tn_is_open r),
                tn_external_url := overwrite (up_external_url p) (tn_external_url r),
                tn_rules := overwrite (up_rules p) (tn_rules r),
                tn_description := overwrite (up_description p) (tn_description r),
                tn_starts_at := overwrite (up_starts_at p) (tn_starts_at r),
                tn_ends_at := overwrite (up_ends_at p) (tn_ends_at r),
                tn_updated_at := now\<rparr>
          in (Inr (rid, r'), db\<lparr>tournaments := t_update rid r' (tournaments db)\<rparr>))"

definition update_tournament_status ::
  "string \<Rightarrow> tournament_status \<Rightarrow> instant \<Rightarrow> (string \<times> db_tournament) db_op" where
  "update_tournament_status rid status now db =
     (case rows (tournaments db) rid of
        None \<Rightarrow> (Inl (TournamentNotFound rid), db)
      | Some r \<Rightarrow>
          let r' = r\<lparr>tn_status := status_to_string status, tn_updated_at := now\<rparr>
          in (Inr (rid, r'), db\<lparr>tournaments := t_update rid r' (tournaments db)\<rparr>))"

subsection \<open>Participants\<close>

definition add_tournament_participant ::
  "string \<Rightarrow> string option \<Rightarrow> string option \<Rightarrow> nat option \<Rightarrow> instant \<Rightarrow> (string \<times> db_participant) db_op"
where
  "add_tournament_participant tid team_id external_name seed now db =
     (let row = \<lparr>pt_tournament_id = tid, pt_team_id = team_id, pt_external_name = external_name,
            pt_seed = seed, pt_group_label = None, pt_status = ''registered'', pt_created_at = now\<rparr>
      in (Inr (fresh_id db, row),
          db\<lparr>id_count := id_count db + 1, participants := t_create (fresh_id db) row (participants db)\<rparr>))"

text \<open>\<open>ORDER BY seed ASC, created_at ASC\<close>: a missing seed sorts before every number.\<close>

definition seed_rank :: "nat option \<Rightarrow> nat" where
  "seed_rank s = (case s of None \<Rightarrow> 0 | Some n \<Rightarrow> n + 1)"

definition list_tournament_participants :: "string \<Rightarrow> tdb \<Rightarrow> (string \<times> db_participant) list" where
  "list_tournament_participants tid db =
     sort_key (\<lambda>(_, p). seed_rank (pt_seed p)) (sort_key (\<lambda>(_, p). pt_created_at p)
       (t_list (\<lambda>p. pt_tournament_id p = tid) (participants db)))"

definition update_tournament_participant ::
  "string \<Rightarrow> nat option option \<Rightarrow> participant_status option \<Rightarrow> string option option
     \<Rightarrow> (string \<times> db_participant) db_op" where
  "update_tournament_participant rid seed status group_label db =
     (case rows (participants db) rid of
        None \<Rightarrow> (Inl (ParticipantNotFound rid), db)
      | Some p \<Rightarrow>
          let p' = p\<lparr>pt_seed := overwrite seed (pt_seed p),
                pt_status := overwrite (map_option participant_status_to_string status) (pt_status p),
                pt_group_label := overwrite group_label (pt_group_label p)\<rparr>
          in (Inr (rid, p'), db\<lparr>participants := t_update rid p' (participants db)\<rparr>))"

definition remove_tournament_participant :: "string \<Rightarrow> unit db_op" where
  "remove_tournament_participant rid db =
     (Inr (), db\<lparr>participants := t_delete rid (participants db)\<rparr>)"

definition count_tournament_participants :: "string \<Rightarrow> tdb \<Rightarrow> nat" where
  "count_tournament_participants tid db =
     length (t_list (\<lambda>p. pt_tournament_id p = tid) (participants db))"

subsection \<open>Rounds\<close>

definition create_tournament_round ::
  "string \<Rightarrow> nat \<Rightarrow> bracket_stage \<Rightarrow> instant \<Rightarrow> (string \<times> db_round) db_op" where
  "create_tournament_round tid n stage now db =
     (let row = \<lparr>rd_tournament_id = tid, rd_round_number = n, rd_stage = stage_to_string stage,
            rd_status = ''pending'', rd_created_at = now\<rparr>
      in (Inr (fresh_id db, row),
          db\<lparr>id_count := id_count db + 1, rounds := t_create (fresh_id db) row (rounds db)\<rparr>))"

definition list_tournament_rounds :: "string \<Rightarrow> tdb \<Rightarrow> (string \<times> db_round) list" where
  "list_tournament_rounds tid db =
     sort_key (\<lambda>(_, r). rd_stage r) (sort_key (\<lambda>(_, r). rd_round_number r)
       (t_list (\<lambda>r. rd_tournament_id r = tid) (rounds db)))"

definition update_round_status :: "string \<Rightarrow> round_status \<Rightarrow> (string \<times> db_round) db_op" where
  "update_round_status rid status db =
     (case rows (rounds db) rid of
        None \<Rightarrow> (Inl (RoundNotFound rid), db)
      | Some r \<Rightarrow>
          let r' = r\<lparr>rd_status := round_status_to_string status\<rparr>
          in (Inr (rid, r'), db\<lparr>rounds := t_update rid r' (rounds db)\<rparr>))"

subsection \<open>Matches\<close>

definition new_match ::
  "string \<Rightarrow> string \<Rightarrow> nat \<Rightarrow> string option \<Rightarrow> string option \<Rightarrow> match_status \<Rightarrow> db_match" where
  "new_match tid round_id pos a b status =
     \<lparr>ma_tournament_id = tid, ma_round_id = round_id, ma_bracket_position = pos,
      ma_participant_a_id = a, ma_participant_b_id = b, ma_score_a = None, ma_score_b = None,
      ma_winner_id = None, ma_status = match_status_to_string status, ma_scheduled_at = None,
      ma_completed_at = None, ma_match_result_id = None, ma_next_match_id = None,
      ma_next_match_slot = None, ma_loser_next_match_id = None, ma_loser_next_match_slot = None,
      ma_notes = None, ma_replay_codes = []\<rparr>"

text \<open>\<open>create_tournament_match\<close>; every caller passes \<open>None\<close> for the four pointers.\<close>

definition create_tournament_match ::
  "string \<Rightarrow> string \<Rightarrow> nat \<Rightarrow> string option \<Rightarrow> string option \<Rightarrow> match_status \<Rightarrow>
   string option \<Rightarrow> string option \<Rightarrow> string option \<Rightarrow> string option \<Rightarrow> (string \<times> db_match) db_op" where
  "create_tournament_match tid round_id pos a b status nxt nxt_slot loser_nxt loser_slot db =
     (let row = (new_match tid round_id pos a b status)
            \<lparr>ma_next_match_id := nxt, ma_next_match_slot := nxt_slot,
             ma_loser_next_match_id := loser_nxt, ma_loser_next_match_slot := loser_slot\<rparr>
      in (Inr (fresh_id db, row),
          db\<lparr>id_count := id_count db + 1, matches := t_create (fresh_id db) row (matches db)\<rparr>))"

definition list_tournament_matches :: "string \<Rightarrow> tdb \<Rightarrow> (string \<times> db_match) list" where
  "list_tournament_matches tid db =
     sort_key (\<lambda>(_, m). ma_bracket_position m)
       (t_list (\<lambda>m. ma_tournament_id m = tid) (matches db))"

definition get_tournament_match :: "string \<Rightarrow> tdb \<Rightarrow> db_match option" where
  "get_tournament_match rid db = rows (matches db) rid"

definition put_match :: "string \<Rightarrow> db_match \<Rightarrow> tdb \<Rightarrow> tdb" where
  "put_match rid m db = db\<lparr>matches := t_update rid m (matches db)\<rparr>"

text \<open>The participant test of \<open>report_tournament_match\<close>: the winner's score first.\<close>

definition winner_scores :: "db_match \<Rightarrow> string \<Rightarrow> 32 word \<Rightarrow> 32 word \<Rightarrow> 32 word \<times> 32 word" where
  "winner_scores m winner score_a score_b =
     (if Some winner = map_option trim (ma_participant_a_id m) then (score_a, score_b)
      else (score_b, score_a))"

text \<open>
  The report is two database statements: the row is read and checked, then an \<open>UPDATE\<close> with
  \<open>WHERE status = 'pending'\<close> either writes the result or matches no row.
\<close>

definition check_report ::
  "string \<Rightarrow> 32 word \<Rightarrow> 32 word \<Rightarrow> string \<Rightarrow> tdb \<Rightarrow> db_error + string" where
  "check_report rid score_a score_b winner_id db =
     (case rows (matches db) rid of
        None \<Rightarrow> Inl (MatchNotFound rid)
      | Some m \<Rightarrow>
          let winner = trim winner_id;
              participant_a = map_option trim (ma_participant_a_id m);
              participant_b = map_option trim (ma_participant_b_id m);
              (winner_score, loser_score) = winner_scores m winner score_a score_b
          in if winner = [] \<or> (Some winner \<noteq> participant_a \<and> Some winner \<noteq> participant_b)
             then Inl (WinnerNotParticipant winner rid)
             else if winner_score \<le> loser_score
             then Inl (ScoreNotGreater winner_score loser_score)
             else Inr winner)"

definition commit_report ::
  "string \<Rightarrow> 32 word \<Rightarrow> 32 word \<Rightarrow> string \<Rightarrow> string option \<Rightarrow> string list \<Rightarrow> instant
     \<Rightarrow> (string \<times> db_match) db_op" where
  "commit_report rid score_a score_b winner notes replay_codes now db =
     (case rows (matches db) rid of
        None \<Rightarrow> (Inl (MatchNotPending rid), db)
      | Some m \<Rightarrow>
          if ma_status m \<noteq> ''pending'' then (Inl (MatchNotPending rid), db)
          else
            let m' = m\<lparr>ma_score_a := Some score_a, ma_score_b := Some score_b,
                  ma_winner_id := Some winner, ma_status := ''completed'',
                  ma_completed_at := Some now, ma_replay_codes := replay_codes,
                  ma_notes := (case notes of None \<Rightarrow> ma_notes m | Some n \<Rightarrow> Some n)\<rparr>
            in (Inr (rid, m'), put_match rid m' db))"

definition report_tournament_match ::
  "string \<Rightarrow> 32 word \<Rightarrow> 32 word \<Rightarrow> string \<Rightarrow> string option \<Rightarrow> string list \<Rightarrow> instant
     \<Rightarrow> (string \<times> db_match) db_op" where
  "report_tournament_match rid score_a score_b winner_id notes replay_codes now db =
     (case check_report rid score_a score_b winner_id db of
        Inl e \<Rightarrow> (Inl e, db)
      | Inr winner \<Rightarrow> commit_report rid score_a score_b winner notes replay_codes now db)"

definition set_match_participant :: "string \<Rightarrow> string \<Rightarrow> string \<Rightarrow> unit db_op" where
  "set_match_participant rid slot participant_id db =
     (case rows (matches db) rid of
        None \<Rightarrow> (Inl (MatchNotFound rid), db)
      | Some m \<Rightarrow>
          if slot = ''a'' then (Inr (), put_match rid (m\<lparr>ma_participant_a_id := Some participant_id\<rparr>) db)
          else if slot = ''b'' then (Inr (), put_match rid (m\<lparr>ma_participant_b_id := Some participant_id\<rparr>) db)
          else (Inl (InvalidSlot slot), db))"

definition update_match_next :: "string \<Rightarrow> string \<Rightarrow> string \<Rightarrow> unit db_op" where
  "update_match_next rid next_id slot db =
     (case rows (matches db) rid of
        None \<Rightarrow> (Inl (MatchNotFound rid), db)
      | Some m \<Rightarrow>
          (Inr (), put_match rid
             (m\<lparr>ma_next_match_id := Some next_id, ma_next_match_slot := Some slot\<rparr>) db))"

definition update_match_loser_next :: "string \<Rightarrow> string \<Rightarrow> string \<Rightarrow> unit db_op" where
  "update_match_loser_next rid next_id slot db =
     (case rows (matches db) rid of
        None \<Rightarrow> (Inl (MatchNotFound rid), db)
      | Some m \<Rightarrow>
          (Inr (), put_match rid
             (m\<lparr>ma_loser_next_match_id := Some next_id, ma_loser_next_match_slot := Some slot\<rparr>) db))"

definition delete_tournament_bracket :: "string \<Rightarrow> unit db_op" where
  "delete_tournament_bracket tid db =
     (Inr (),
      db\<lparr>matches := t_delete_where (\<lambda>m. ma_tournament_id m = tid) (matches db),
         rounds := t_delete_where (\<lambda>r. rd_tournament_id r = tid) (rounds db)\<rparr>)"

subsection \<open>The invariant of the database\<close>

text \<open>
  Ids are never handed out twice: every record of every table has one of the ids the
  database has handed out so far.
\<close>

definition ids_used :: "tdb \<Rightarrow> string set" where
  "ids_used db = mk_id db ` {..<id_count db}"

definition db_ok :: "tdb \<Rightarrow> bool" where
  "db_ok db \<longleftrightarrow>
     inj (mk_id db) \<and> table_ok (tournaments db) \<and> table_ok (participants db) \<and>
     table_ok (rounds db) \<and> table_ok (matches db) \<and>
     dom (rows (tournaments db)) \<union> dom (rows (participants db)) \<union>
     dom (rows (rounds db)) \<union> dom (rows (matches db)) \<subseteq> ids_used db"

lemma rows_t_simps [simp]:
  "rows (t_create rid r t) = (rows t)(rid \<mapsto> r)"
  "rows (t_update rid r t) = (rows t)(rid \<mapsto> r)"
  "rows (t_delete rid t) = (rows t)(rid := None)"
  by (simp_all add: t_create_def t_update_def t_delete_def)

interpretation match_rows: record_store "\<lambda>db. rows (matches db)" put_match
  by unfold_locales (simp add: put_match_def)

lemma fresh_not_used: "db_ok db \<Longrightarrow> fresh_id db \<notin> ids_used db"
  by (auto simp: db_ok_def ids_used_def fresh_id_def inj_def)

lemma fresh_rows:
  assumes "db_ok db"
  shows "rows (tournaments db) (fresh_id db) = None" "rows (participants db) (fresh_id db) = None"
    "rows (rounds db) (fresh_id db) = None" "rows (matches db) (fresh_id db) = None"
  using fresh_not_used [OF assms] assms unfolding db_ok_def by blast+

lemma ids_used_Suc: "ids_used (db\<lparr>id_count := Suc (id_count db)\<rparr>) = insert (fresh_id db) (ids_used db)"
  by (simp add: ids_used_def fresh_id_def lessThan_Suc)

lemma ids_used_tables [simp]:
  "ids_used (db\<lparr>tournaments := t\<rparr>) = ids_used db" "ids_used (db\<lparr>participants := p\<rparr>) = ids_used db"
  "ids_used (db\<lparr>rounds := r\<rparr>) = ids_used db" "ids_used (db\<lparr>matches := m\<rparr>) = ids_used db"
  by (simp_all add: ids_used_def)

lemma db_ok_create:
  assumes "db_ok db"
  shows "db_ok (db\<lparr>id_count := Suc (id_count db), tournaments := t_create (fresh_id db) t (tournaments db)\<rparr>)"
    "db_ok (db\<lparr>id_count := Suc (id_count db), participants := t_create (fresh_id db) p (participants db)\<rparr>)"
    "db_ok (db\<lparr>id_count := Suc (id_count db), rounds := t_create (fresh_id db) r (rounds db)\<rparr>)"
    "db_ok (db\<lparr>id_count := Suc (id_count db), matches := t_create (fresh_id db) m (matches db)\<rparr>)"
  using assms fresh_rows [OF assms]
  by (auto simp: db_ok_def ids_used_Suc table_ok_create)

lemma db_ok_put_match: "db_ok db \<Longrightarrow> rows (matches db) rid \<noteq> None \<Longrightarrow> db_ok (put_match rid m db)"
  by (auto simp: db_ok_def put_match_def intro!: table_ok_update)

lemma db_ok_delete_bracket: "db_ok db \<Longrightarrow> db_ok (snd (delete_tournament_bracket tid db))"
  by (auto simp: db_ok_def delete_tournament_bracket_def dom_def split: option.splits if_splits)

subsection \<open>A concrete database\<close>

definition empty_db :: tdb where
  "empty_db =
     \<lparr>mk_id = (\<lambda>n. replicate n CHR ''x''), id_count = 0, tournaments = t_empty, participants = t_empty,
      rounds = t_empty, matches = t_empty\<rparr>"

text \<open>Tournament \<open>t\<close> with \<open>n\<close> seeded entrants.\<close>

primrec entrants :: "nat \<Rightarrow> tdb" where
  "entrants 0 = empty_db"
| "entrants (Suc n) =
     snd (add_tournament_participant ''t'' None (Some (replicate n CHR ''p'')) (Some n) 0 (entrants n))"

lemma db_ok_entrants: "db_ok (entrants n)"
proof (induction n)
  case 0
  have "inj (\<lambda>n. replicate n CHR ''x'')" by (rule injI) (metis length_replicate)
  then show ?case by (simp add: empty_db_def db_ok_def table_ok_empty) (simp add: t_empty_def)
next
  case (Suc n)
  then show ?case using db_ok_create(2) [OF Suc] by (simp add: add_tournament_participant_def Let_def)
qed

lemma length_entrants: "length (list_tournament_participants ''t'' (entrants n)) = n"
proof (induction n)
  case 0
  then show ?case by (simp add: list_tournament_participants_def empty_db_def t_list_def t_empty_def)
next
  case (Suc n)
  have ok: "table_ok (participants (entrants n))" using db_ok_entrants [of n] by (simp add: db_ok_def)
  show ?case
    using Suc t_list_create [OF ok fresh_rows(2) [OF db_ok_entrants]]
    by (simp add: list_tournament_participants_def add_tournament_participant_def Let_def)
qed

lemma set_participants:
  "db_ok db \<Longrightarrow> set (list_tournament_participants tid db) =
     {(pid, p). rows (participants db) pid = Some p \<and> pt_tournament_id p = tid}"
  by (simp add: list_tournament_participants_def set_t_list db_ok_def)

lemma distinct_participants: "db_ok db \<Longrightarrow> distinct (map fst (list_tournament_participants tid db))"
proof -
  assume "db_ok db"
  then have "distinct (map fst (t_list (\<lambda>p. pt_tournament_id p = tid) (participants db)))"
    by (simp add: distinct_t_list db_ok_def)
  moreover have "mset (list_tournament_participants tid db) =
      mset (t_list (\<lambda>p. pt_tournament_id p = tid) (participants db))"
    by (simp add: list_tournament_participants_def)
  then have "mset (map fst (list_tournament_participants tid db)) =
      mset (map fst (t_list (\<lambda>p. pt_tournament_id p = tid) (participants db)))" by simp
  ultimately show ?thesis by (metis mset_eq_imp_distinct_iff)
qed

end
