(* ===== verification/Seeding.thy ===== *)
theory Seeding
  imports Prelude "HOL-Library.Multiset"
begin

text \<open>
  The pure helpers of bracket generation in \<open>crates/db/src/queries/tournaments.rs\<close>:
  \<open>standard_seed_order\<close>, \<open>double_elim_seeded_slots\<close> (the same placement is inlined in
  \<open>generate_single_elim_bracket\<close>) and \<open>double_elim_shape\<close>.
\<close>

text \<open>\<open>usize::next_power_of_two\<close>.\<close>

function power_from :: "nat \<Rightarrow> nat \<Rightarrow> nat" where
  "power_from p n = (if p = 0 \<or> n \<le> p then p else power_from (2 * p) n)"
  by pat_completeness auto
termination by (relation "measure (\<lambda>(p, n). n - p)") auto

declare power_from.simps [simp del]

definition next_power_of_two :: "nat \<Rightarrow> nat" where
  "next_power_of_two n = power_from 1 n"

text \<open>\<open>(size as f64).log2() as u32\<close> on a power of two.\<close>

fun log2 :: "nat \<Rightarrow> nat" where
  "log2 n = (if n < 2 then 0 else Suc (log2 (n div 2)))"

declare log2.simps [simp del]

lemma log2_power [simp]: "log2 (2 ^ k) = k"
proof (induction k)
  case (Suc k)
  have "log2 (2 ^ Suc k) = Suc (log2 (2 ^ Suc k div 2))"
    by (subst log2.simps) simp
  with Suc show ?case by simp
qed (simp add: log2.simps)

lemma power_from_spec:
  assumes "p = 2 ^ j" and "p = 1 \<or> p < 2 * n"
  shows "\<exists>k. power_from p n = 2 ^ k \<and> n \<le> 2 ^ k \<and> (2 ^ k = (1::nat) \<or> 2 ^ k < 2 * n)"
  using assms
proof (induction p n arbitrary: j rule: power_from.induct)
  case (1 p n)
  show ?case
  proof (cases "n \<le> p")
    case True
    with 1 show ?thesis by (subst power_from.simps) auto
  next
    case False
    then have "power_from p n = power_from (2 * p) n" using 1 by (subst power_from.simps) simp
    moreover have "p \<noteq> 0" using 1 by simp
    moreover have "2 * p = 2 ^ Suc j" "2 * p < 2 * n" using 1(2) False by simp_all
    ultimately show ?thesis using 1(1) [of "Suc j"] False by simp
  qed
qed

lemma next_power_of_two_spec:
  obtains k where "next_power_of_two n = 2 ^ k" "n \<le> 2 ^ k" "2 ^ k = (1::nat) \<or> 2 ^ k < 2 * n"
  using power_from_spec [of 1 0 n] by (auto simp: next_power_of_two_def)

subsection \<open>The seed order\<close>

text \<open>One round of the \<open>while\<close> loop: \<open>new_order[i * 2]\<close> and \<open>new_order[i * 2 + 1]\<close>.\<close>

definition expand_order :: "nat \<Rightarrow> nat list \<Rightarrow> nat list" where
  "expand_order chunk ps = concat (map (\<lambda>p. [p, chunk * 2 - 1 - p]) (take chunk ps))"

function seed_loop :: "nat \<Rightarrow> nat \<Rightarrow> nat list \<Rightarrow> nat list" where
  "seed_loop sz chunk ps =
     (if chunk = 0 \<or> sz \<le> chunk then ps else seed_loop sz (chunk * 2) (expand_order chunk ps))"
  by pat_completeness auto
termination by (relation "measure (\<lambda>(sz, chunk, ps). sz - chunk)") auto

declare seed_loop.simps [simp del]

text \<open>The array of length \<open>size\<close> starts as \<open>0, 1, 0, .., 0\<close>.\<close>

definition standard_seed_order :: "nat \<Rightarrow> nat list" where
  "standard_seed_order sz =
     (if sz \<le> 1 then [0] else seed_loop sz 2 ((replicate sz 0)[1 := 1]))"

lemma standard_seed_order_8: "standard_seed_order 8 = [0, 7, 3, 4, 1, 6, 2, 5]"
  by code_simp

subsection \<open>Placement\<close>

text \<open>The placement loop: entry \<open>i\<close> of the padded list goes to slot \<open>order ! i\<close>.\<close>

definition place_seeds :: "nat \<Rightarrow> nat list \<Rightarrow> 'a option list \<Rightarrow> 'a option list" where
  "place_seeds sz ord seeded =
     fold (\<lambda>(i, pos) ordered. if i < length seeded then ordered[pos := seeded ! i] else ordered)
       (List.enumerate 0 ord) (replicate sz None)"

definition double_elim_seeded_slots :: "string list \<Rightarrow> nat \<Rightarrow> string option list" where
  "double_elim_seeded_slots ids sz =
     place_seeds sz (standard_seed_order sz)
       (map Some ids @ replicate (sz - length ids) None)"

record double_elim_shape =
  bracket_size :: nat
  w_rounds :: nat
  l_round_count :: nat
  first_round_matches :: nat

definition double_elim_shape :: "nat \<Rightarrow> double_elim_shape" where
  "double_elim_shape n =
     (let sz = next_power_of_two n; w = log2 sz
      in \<lparr>bracket_size = sz, w_rounds = w, l_round_count = (if w \<le> 1 then 0 else 2 * (w - 1)),
          first_round_matches = sz div 2\<rparr>)"

subsection \<open>The seed order is a permutation that pairs the halves\<close>

text \<open>The order of a bracket of \<open>2 ^ k\<close> slots, without the array.\<close>

fun seeds :: "nat \<Rightarrow> nat list" where
  "seeds 0 = [0]"
| "seeds (Suc k) = concat (map (\<lambda>p. [p, 2 ^ Suc k - 1 - p]) (seeds k))"

lemma length_seeds [simp]: "length (seeds k) = 2 ^ k"
  by (induction k) (simp_all add: length_concat comp_def sum_list_triv)

lemma seed_loop_seeds:
  "j \<le> k \<Longrightarrow> 0 < j \<Longrightarrow> seed_loop (2 ^ k) (2 ^ j) (seeds j) = seeds k"
proof (induction "k - j" arbitrary: j)
  case 0
  then show ?case by (subst seed_loop.simps) simp
next
  case (Suc n)
  then have "j < k" by simp
  then have "\<not> 2 ^ k \<le> (2 ^ j :: nat)" by simp
  then have "seed_loop (2 ^ k) (2 ^ j) (seeds j) = seed_loop (2 ^ k) (2 ^ Suc j) (expand_order (2 ^ j) (seeds j))"
    by (subst seed_loop.simps) (simp add: mult.commute)
  also have "expand_order (2 ^ j) (seeds j) = seeds (Suc j)"
    by (simp add: expand_order_def mult.commute)
  finally show ?case using Suc.hyps(1) [of "Suc j"] Suc.hyps(2) \<open>j < k\<close> by simp
qed

text \<open>The first pass of the loop reads only the two entries the array starts with.\<close>

lemma standard_seed_order_seeds: "standard_seed_order (2 ^ k) = seeds k"
proof -
  consider "k = 0" | "k = 1" | m where "k = Suc (Suc m)" by (metis One_nat_def not0_implies_Suc)
  then show ?thesis
  proof cases
    case 3
    let ?a = "(replicate (2 ^ k) 0)[1 := 1::nat]"
    have big: "\<not> 2 ^ k \<le> (2::nat)"
      using 3 power_strict_increasing [of 1 k "2::nat"] by simp
    have "(2::nat) ^ k = Suc (Suc (2 ^ k - 2))" using big by simp
    then obtain r where "(2::nat) ^ k = Suc (Suc r)" by blast
    then have "take 2 ?a = [0, 1]" by (simp add: numeral_2_eq_2)
    then have "expand_order 2 ?a = seeds 2" by (simp add: expand_order_def numeral_2_eq_2)
    then have "seed_loop (2 ^ k) 2 ?a = seed_loop (2 ^ k) (2 ^ 2) (seeds 2)"
      using big by (subst seed_loop.simps) simp
    also have "\<dots> = seeds k" using 3 by (intro seed_loop_seeds) simp_all
    finally show ?thesis using big by (simp add: standard_seed_order_def)
  qed (simp_all add: standard_seed_order_def seed_loop.simps numeral_2_eq_2)
qed

lemma seeds_less: "p \<in> set (seeds k) \<Longrightarrow> p < 2 ^ k"
  by (induction k arbitrary: p) fastforce+

lemma distinct_pairs:
  fixes n :: nat
  assumes "distinct ps" and "\<forall>p \<in> set ps. p < n"
  shows "distinct (concat (map (\<lambda>p. [p, 2 * n - 1 - p]) ps))"
  using assms
proof (induction ps)
  case (Cons p ps)
  moreover have "2 * n - 1 - p \<noteq> 2 * n - 1 - q" if "q \<in> set ps" for q
  proof -
    have "p < n" "q < n" "p \<noteq> q" using that Cons.prems by auto
    then show ?thesis by arith
  qed
  ultimately show ?case by auto
qed simp

lemma distinct_seeds: "distinct (seeds k)"
proof (induction k)
  case (Suc k)
  then show ?case using distinct_pairs [of "seeds k" "2 ^ k"] seeds_less by simp
qed simp

lemma set_seeds: "set (seeds k) = {..<2 ^ k}"
  by (intro card_subset_eq) (auto simp: seeds_less distinct_card distinct_seeds)

lemma nth_pairs:
  "i < length ps \<Longrightarrow> concat (map (\<lambda>p. [p, f p]) ps) ! (2 * i) = ps ! i \<and>
     concat (map (\<lambda>p. [p, f p]) ps) ! (2 * i + 1) = f (ps ! i)"
proof (induction ps arbitrary: i)
  case (Cons p ps)
  then show ?case by (cases i) simp_all
qed simp

lemma half_of_flip: "p < n \<Longrightarrow> (2 * n - 1 - p) div 2 = n - 1 - p div 2" for n p :: nat
  by arith

text \<open>Seeds half a bracket apart get neighbouring slots.\<close>

lemma seeds_halves:
  "j < 2 ^ k \<Longrightarrow> seeds (Suc k) ! j div 2 = seeds (Suc k) ! (j + 2 ^ k) div 2"
proof (induction k arbitrary: j)
  case (Suc k)
  let ?ps = "seeds (Suc k)" and ?n = "2 ^ Suc k :: nat"
  define i where "i = j div 2"
  have i: "i < 2 ^ k" using Suc.prems by (simp add: i_def)
  have IH: "?ps ! i div 2 = ?ps ! (i + 2 ^ k) div 2" using Suc.IH [OF i] .
  have bnd: "?ps ! i < ?n" "?ps ! (i + 2 ^ k) < ?n"
    using i seeds_less [OF nth_mem, of _ "Suc k"] by (simp_all del: seeds.simps)
  have all: "seeds (Suc (Suc k)) = concat (map (\<lambda>p. [p, 2 * ?n - 1 - p]) ?ps)" by simp
  have lower: "i < length ?ps" and upper: "i + 2 ^ k < length ?ps"
    using i by (simp_all del: seeds.simps)
  note low = nth_pairs [OF lower, of "\<lambda>p. 2 * ?n - 1 - p"]
  note up = nth_pairs [OF upper, of "\<lambda>p. 2 * ?n - 1 - p"]
  consider "j = 2 * i" "j + 2 ^ Suc k = 2 * (i + 2 ^ k)"
    | "j = 2 * i + 1" "j + 2 ^ Suc k = 2 * (i + 2 ^ k) + 1"
    by (cases "even j") (simp_all add: i_def)
  then show ?case
  proof cases
    case 1
    show ?thesis unfolding all 1(2) unfolding 1(1) conjunct1 [OF low] conjunct1 [OF up] by (rule IH)
  next
    case 2
    show ?thesis
      unfolding all 2(2) unfolding 2(1) conjunct2 [OF low] conjunct2 [OF up] half_of_flip [OF bnd(1)] half_of_flip [OF bnd(2)]
      by (simp only: IH)
  qed
qed simp

subsection \<open>Placement fills every slot once\<close>

lemma place_fold_other:
  "p \<notin> set ord \<Longrightarrow>
     fold (\<lambda>(i, pos) ys. if i < n then ys[pos := v i] else ys) (List.enumerate k ord) xs ! p = xs ! p"
proof (induction ord arbitrary: k xs)
  case (Cons q ord)
  then show ?case using Cons.IH [of "Suc k" "if k < n then xs[q := v k] else xs"] by simp
qed simp

lemma place_fold_nth:
  assumes "distinct ord" and "\<forall>p \<in> set ord. p < length xs" and "i < length ord" and "k + i < n"
  shows "fold (\<lambda>(i, pos) ys. if i < n then ys[pos := v i] else ys) (List.enumerate k ord) xs ! (ord ! i)
    = v (k + i)"
  using assms
proof (induction ord arbitrary: i k xs)
  case (Cons q ord)
  show ?case
  proof (cases i)
    case 0
    then show ?thesis using Cons.prems by (simp add: place_fold_other)
  next
    case (Suc j)
    then show ?thesis
      using Cons.prems Cons.IH [of "if k < n then xs[q := v k] else xs" j "Suc k"] by simp
  qed
qed simp

lemma length_place_fold:
  "length (fold (\<lambda>(i, pos) ys. if i < n then ys[pos := v i] else ys) es xs) = length xs"
  by (induction es arbitrary: xs) auto

lemma length_place_seeds [simp]: "length (place_seeds sz ord seeded) = sz"
  unfolding place_seeds_def length_place_fold by simp

lemma nth_place_seeds:
  assumes "distinct ord" and "\<forall>p \<in> set ord. p < sz" and "i < length ord" and "i < length seeded"
  shows "place_seeds sz ord seeded ! (ord ! i) = seeded ! i"
  using assms place_fold_nth [of ord "replicate sz None" i 0 "length seeded" "(!) seeded"]
  by (simp add: place_seeds_def)

lemma mset_map_perm: "mset ps = mset qs \<Longrightarrow> mset (map f ps) = mset (map f qs)"
  by simp

lemma place_seeds_perm:
  assumes "mset ord = mset [0..<sz]" and "length seeded = sz"
  shows "mset (place_seeds sz ord seeded) = mset seeded"
proof -
  let ?s = "place_seeds sz ord seeded"
  have ord: "distinct ord" "set ord = {..<sz}" "length ord = sz"
    using assms(1) by (metis mset_eq_imp_distinct_iff distinct_upt)
      (metis assms(1) atLeast_upt set_mset_mset, metis assms(1) length_upt minus_nat.diff_0 size_mset)
  have "mset ?s = mset (map ((!) ?s) [0..<sz])" by (metis length_place_seeds map_nth)
  also have "\<dots> = mset (map ((!) ?s) ord)" using assms(1) by (simp add: mset_map_perm)
  also have "map ((!) ?s) ord = map ((!) seeded) [0..<sz]"
    using ord assms(2) by (intro nth_equalityI) (simp_all add: nth_place_seeds)
  also have "\<dots> = seeded" using assms(2) by (metis map_nth)
  finally show ?thesis .
qed

lemma mset_seed_order: "mset (standard_seed_order (2 ^ k)) = mset [0..<2 ^ k]"
  by (simp add: standard_seed_order_seeds set_eq_iff_mset_eq_distinct [symmetric] distinct_seeds set_seeds
      atLeast0LessThan del: mset_upt)

lemma first_round_seeds:
  assumes "i < 2 ^ k"
  obtains j where "j < 2 ^ k" "{seeds (Suc k) ! j, seeds (Suc k) ! (j + 2 ^ k)} = {2 * i, 2 * i + 1}"
proof -
  let ?o = "seeds (Suc k)"
  have "2 * i \<in> set ?o" using assms by (simp add: set_seeds del: seeds.simps)
  then obtain m where m: "m < 2 ^ Suc k" "?o ! m = 2 * i"
    by (metis in_set_conv_nth length_seeds)
  define j where "j = (if m < 2 ^ k then m else m - 2 ^ k)"
  have j: "j < 2 ^ k" and mj: "m = j \<or> m = j + 2 ^ k" using m by (auto simp: j_def)
  have half: "?o ! j div 2 = i" "?o ! (j + 2 ^ k) div 2 = i"
    using seeds_halves [OF j] m(2) mj by (auto simp del: seeds.simps)
  moreover have "?o ! j \<noteq> ?o ! (j + 2 ^ k)"
    using distinct_seeds [of "Suc k"] j by (simp add: nth_eq_iff_index_eq del: seeds.simps)
  moreover have "n = 2 * i \<or> n = 2 * i + 1" if "n div 2 = i" for n :: nat using that by presburger
  ultimately have "{?o ! j, ?o ! (j + 2 ^ k)} = {2 * i, 2 * i + 1}" by (auto simp del: seeds.simps)
  with j that show thesis by blast
qed

subsection \<open>The first round\<close>

lemma next_power_of_two_cases:
  assumes "2 \<le> n"
  obtains k where "next_power_of_two n = 2 ^ Suc k" "n \<le> 2 ^ Suc k" "2 ^ k < n"
proof -
  obtain m where m: "next_power_of_two n = 2 ^ m" "n \<le> 2 ^ m" "2 ^ m = (1::nat) \<or> 2 ^ m < 2 * n"
    by (rule next_power_of_two_spec)
  from m(2) assms have "m \<noteq> 0" by (cases m) simp_all
  then obtain k where "m = Suc k" by (cases m) auto
  with m that show thesis by simp
qed

lemma slots_first_round:
  assumes "ord = seeds (Suc k)" and "length seeded = 2 ^ Suc k" and "\<forall>j < 2 ^ k. seeded ! j \<noteq> None" and "i < 2 ^ k"
  shows "place_seeds (2 ^ Suc k) ord seeded ! (2 * i) \<noteq> None \<or>
    place_seeds (2 ^ Suc k) ord seeded ! (2 * i + 1) \<noteq> None"
proof -
  obtain j where j: "j < 2 ^ k" "{seeds (Suc k) ! j, seeds (Suc k) ! (j + 2 ^ k)} = {2 * i, 2 * i + 1}"
    by (rule first_round_seeds [OF assms(4)])
  have "place_seeds (2 ^ Suc k) ord seeded ! (ord ! j) = seeded ! j"
    using assms(1,2) j(1) distinct_seeds [of "Suc k"] seeds_less [of _ "Suc k"]
    by (intro nth_place_seeds) (simp_all del: seeds.simps)
  moreover have "ord ! j = 2 * i \<or> ord ! j = 2 * i + 1" using j(2) assms(1) by (auto simp del: seeds.simps)
  ultimately show ?thesis using assms(3) j(1) by metis
qed

text \<open>
  The seed order of a bracket is a permutation of its slots, so every slot is filled from
  exactly one seed, and the seeds that meet in the first round are half a bracket apart.
\<close>

theorem seed_order_permutation:
  "mset (standard_seed_order (2 ^ k)) = mset [0..<2 ^ k] \<and>
   (\<forall>j < 2 ^ k. standard_seed_order (2 ^ Suc k) ! j div 2 = standard_seed_order (2 ^ Suc k) ! (j + 2 ^ k) div 2)"
  using mset_seed_order [of k] seeds_halves [of _ k] by (simp only: standard_seed_order_seeds) blast

theorem seed_order_permutation_witness:
  "mset (standard_seed_order 4) = mset [0, 1, 2, 3] \<and>
   standard_seed_order 8 ! 1 div 2 = standard_seed_order 8 ! 5 div 2"
proof -
  from seed_order_permutation [of 2] have a: "mset (standard_seed_order (2 ^ 2)) = mset [0..<2 ^ 2]"
    and b: "\<forall>j < 2 ^ 2. standard_seed_order (2 ^ Suc 2) ! j div 2 = standard_seed_order (2 ^ Suc 2) ! (j + 2 ^ 2) div 2"
    by blast+
  from b have "standard_seed_order (2 ^ Suc 2) ! 1 div 2 = standard_seed_order (2 ^ Suc 2) ! (1 + 2 ^ 2) div 2"
    by simp
  moreover have "[0..<2 ^ 2] = [0, 1, 2, 3]" by code_simp
  ultimately show ?thesis using a by simp
qed

text \<open>
  Seeding loses nobody. For two or more participants the slots of the first round hold every
  participant exactly once and nothing else but byes, and no match has two byes: the padding is
  less than half the bracket and the seed order spreads it.
\<close>

theorem seeded_slots_complete:
  assumes "2 \<le> length ids"
  defines "sz \<equiv> next_power_of_two (length ids)"
  shows "mset (double_elim_seeded_slots ids sz) = mset (map Some ids) + replicate_mset (sz - length ids) None \<and>
    (\<forall>i < sz div 2. double_elim_seeded_slots ids sz ! (2 * i) \<noteq> None \<or>
                    double_elim_seeded_slots ids sz ! (2 * i + 1) \<noteq> None)"
proof -
  obtain k where k: "sz = 2 ^ Suc k" "length ids \<le> sz" "2 ^ k < length ids"
    using next_power_of_two_cases [OF assms(1)] unfolding sz_def by metis
  let ?seeded = "map Some ids @ replicate (sz - length ids) None"
  have "mset (double_elim_seeded_slots ids sz) = mset ?seeded"
    unfolding double_elim_seeded_slots_def using k mset_seed_order [of "Suc k"]
    by (intro place_seeds_perm) simp_all
  moreover have "\<forall>j < 2 ^ k. ?seeded ! j \<noteq> None" using k(3) by (simp add: nth_append)
  then have "double_elim_seeded_slots ids sz ! (2 * i) \<noteq> None \<or>
      double_elim_seeded_slots ids sz ! (2 * i + 1) \<noteq> None" if "i < 2 ^ k" for i
    unfolding double_elim_seeded_slots_def k(1) standard_seed_order_seeds using that k
    by (intro slots_first_round refl) (simp_all del: seeds.simps)
  ultimately show ?thesis using k(1) by simp
qed

theorem seeded_slots_complete_witness:
  "mset (double_elim_seeded_slots [''a'', ''b'', ''c''] 4) =
     mset [Some ''a'', Some ''b'', Some ''c''] + replicate_mset 1 None"
proof -
  have "next_power_of_two (Suc (Suc (Suc 0))) = 4" by code_simp
  then show ?thesis using seeded_slots_complete [of "[''a'', ''b'', ''c'']"] by simp
qed

end
