(* ===== verification/BracketBuild.thy ===== *)
theory BracketBuild
  imports TournamentDb Seeding
begin

text \<open>
  The loops that \<open>generate_single_elim_bracket\<close> and \<open>generate_double_elim_bracket\<close>
  (\<open>crates/db/src/queries/tournaments.rs\<close>) share: creating the rounds, creating the matches round by
  round, and moving the participants of first-round byes on. \<open>created\<close> states what the match loops
  leave in the database.
\<close>

subsection \<open>The loops\<close>

definition create_round_ids :: "string \<Rightarrow> bracket_stage \<Rightarrow> instant \<Rightarrow> nat list \<Rightarrow> string list db_op" where
  "create_round_ids tid stage now =
     collect (\<lambda>r. and_then (create_tournament_round tid r stage now) (\<lambda>(rid, _). ret rid))"

type_synonym match_spec = "string option \<times> string option \<times> match_status"

definition open_match :: match_spec where
  "open_match = (None, None, MatchPending)"

definition create_round_matches :: "string \<Rightarrow> string \<Rightarrow> match_spec list \<Rightarrow> string list db_op" where
  "create_round_matches tid rid specs =
     collect (\<lambda>(i, a, b, status).
         and_then (create_tournament_match tid rid i a b status None None None None)
           (\<lambda>(mid, _). ret mid))
       (List.enumerate 0 specs)"

definition create_rounds :: "string \<Rightarrow> (string \<times> match_spec list) list \<Rightarrow> string list list db_op" where
  "create_rounds tid = collect (\<lambda>(rid, specs). create_round_matches tid rid specs)"

text \<open>First-round match \<open>i\<close>: slots \<open>2 * i\<close> and \<open>2 * i + 1\<close>, a bye when one of them is empty.\<close>

definition first_round_spec :: "string option list \<Rightarrow> nat \<Rightarrow> match_spec" where
  "first_round_spec ordered i =
     (let a = ordered ! (i * 2); b = ordered ! (i * 2 + 1)
      in (a, b, if a = None \<or> b = None then MatchBye else MatchPending))"

definition slot_of :: "nat \<Rightarrow> string" where
  "slot_of i = (if i mod 2 = 0 then ''a'' else ''b'')"

text \<open>\<open>participant_a_id.or(participant_b_id)\<close>.\<close>

definition bye_winner :: "db_match \<Rightarrow> string option" where
  "bye_winner m =
     (case ma_participant_a_id m of Some a \<Rightarrow> Some a | None \<Rightarrow> ma_participant_b_id m)"

definition advance_bye :: "string \<Rightarrow> unit db_op" where
  "advance_bye mid db =
     (case get_tournament_match mid db of
        None \<Rightarrow> fail Panicked db
      | Some m \<Rightarrow>
          if ma_status_of m = MatchBye then
            (case (bye_winner m, ma_next_match_id m, ma_next_match_slot m) of
               (Some winner, Some next_id, Some next_slot) \<Rightarrow>
                 set_match_participant next_id next_slot winner db
             | _ \<Rightarrow> ret () db)
          else ret () db)"

subsection \<open>The effect of the creating loops\<close>

text \<open>Nothing but the match table and the id counter changes.\<close>

definition same_frame :: "tdb \<Rightarrow> tdb \<Rightarrow> bool" where
  "same_frame db db' \<longleftrightarrow>
     tournaments db' = tournaments db \<and> participants db' = participants db \<and>
     rounds db' = rounds db \<and> mk_id db' = mk_id db"

lemma same_frame_refl [simp]: "same_frame db db"
  by (simp add: same_frame_def)

lemma same_frame_trans: "same_frame a b \<Longrightarrow> same_frame b c \<Longrightarrow> same_frame a c"
  by (simp add: same_frame_def)

lemma same_frame_put [simp]: "same_frame db (put_match rid m db') = same_frame db db'"
  by (simp add: same_frame_def put_match_def)

text \<open>
  From \<open>db\<close> to \<open>db'\<close>, new records with the ids \<open>ids\<close> and the rows \<open>ms\<close> were added to the match table,
  in this order, and nothing else.
\<close>

definition added :: "string list \<Rightarrow> db_match list \<Rightarrow> tdb \<Rightarrow> tdb \<Rightarrow> bool" where
  "added ids ms db db' \<longleftrightarrow>
     length ids = length ms \<and> distinct ids \<and> set ids \<inter> ids_used db = {} \<and>
     ids_used db' = ids_used db \<union> set ids \<and> db_ok db' \<and> same_frame db db' \<and>
     rows (matches db') = rows (matches db) ++ map_of (zip ids ms)"

lemma added_Nil: "db_ok db \<Longrightarrow> added [] [] db db"
  by (simp add: added_def)

lemma added_append:
  assumes "added ids ms db db'" and "added ids' ms' db' db''"
  shows "added (ids @ ids') (ms @ ms') db db''"
proof -
  from assms have len: "length ids = length ms" and dis: "set ids \<inter> set ids' = {}"
    by (auto simp: added_def)
  have "map_of (zip (ids @ ids') (ms @ ms')) = map_of (zip ids ms) ++ map_of (zip ids' ms')"
  proof -
    have "dom (map_of (zip ids ms)) \<inter> dom (map_of (zip ids' ms')) = {}"
      using dis by (auto dest!: map_of_SomeD set_zip_leftD)
    from map_add_comm [OF this] show ?thesis using len by simp
  qed
  then show ?thesis using assms by (auto simp: added_def intro: same_frame_trans)
qed

lemma added_row:
  assumes "added ids ms db db'" and "p < length ids"
  shows "rows (matches db') (ids ! p) = Some (ms ! p)"
proof -
  have "map_of (zip ids ms) (ids ! p) = Some (ms ! p)"
    using assms by (intro map_of_zip_nth) (simp_all add: added_def)
  then show ?thesis using assms(1) by (simp add: added_def map_add_def)
qed

lemma added_create:
  assumes "db_ok db"
  obtains db' where
    "create_tournament_match tid rid pos a b status None None None None db =
       (Inr (fresh_id db, new_match tid rid pos a b status), db')"
    "added [fresh_id db] [new_match tid rid pos a b status] db db'"
proof -
  let ?m = "new_match tid rid pos a b status"
  let ?db = "db\<lparr>id_count := Suc (id_count db), matches := t_create (fresh_id db) ?m (matches db)\<rparr>"
  have "create_tournament_match tid rid pos a b status None None None None db = (Inr (fresh_id db, ?m), ?db)"
    by (simp add: create_tournament_match_def Let_def new_match_def)
  moreover have "added [fresh_id db] [?m] db ?db"
    using db_ok_create(4) [OF assms] fresh_not_used [OF assms]
    by (auto simp: added_def same_frame_def ids_used_Suc)
  ultimately show thesis by (rule that)
qed

definition round_rows :: "string \<Rightarrow> string \<Rightarrow> (nat \<times> match_spec) list \<Rightarrow> db_match list" where
  "round_rows tid rid ims = map (\<lambda>(i, a, b, status). new_match tid rid i a b status) ims"

lemma collect_matches:
  assumes "db_ok db"
  shows "\<exists>ids db'. collect (\<lambda>(i, a, b, status).
         and_then (create_tournament_match tid rid i a b status None None None None)
           (\<lambda>(mid, _). ret mid)) ims db = (Inr ids, db') \<and>
     length ids = length ims \<and> added ids (round_rows tid rid ims) db db'"
  using assms
proof (induction ims arbitrary: db)
  case Nil
  then show ?case by (auto simp: ret_def round_rows_def intro: added_Nil)
next
  case (Cons im ims)
  obtain i a b status where im: "im = (i, a, b, status)" by (metis prod_cases4)
  obtain db1 where first: "create_tournament_match tid rid i a b status None None None None db =
       (Inr (fresh_id db, new_match tid rid i a b status), db1)"
    and add: "added [fresh_id db] [new_match tid rid i a b status] db db1"
    by (rule added_create [OF Cons.prems])
  from add have "db_ok db1" by (simp add: added_def)
  from Cons.IH [OF this] obtain ids db2 where rest: "collect (\<lambda>(i, a, b, status).
         and_then (create_tournament_match tid rid i a b status None None None None)
           (\<lambda>(mid, _). ret mid)) ims db1 = (Inr ids, db2)"
    "length ids = length ims" "added ids (round_rows tid rid ims) db1 db2" by blast
  show ?case
    using first rest added_append [OF add rest(3)] im
    by (intro exI [of _ "fresh_id db # ids"] exI [of _ db2])
       (simp add: round_rows_def, simp add: ret_def)
qed

lemma create_round_matches_added:
  assumes "db_ok db"
  shows "\<exists>ids db'. create_round_matches tid rid specs db = (Inr ids, db') \<and>
     length ids = length specs \<and> added ids (round_rows tid rid (List.enumerate 0 specs)) db db'"
  using collect_matches [OF assms, of tid rid "List.enumerate 0 specs"]
  by (simp add: create_round_matches_def)

text \<open>
  The grid: \<open>idss ! r ! i\<close> is the id of match \<open>i\<close> of round \<open>r\<close>.
\<close>

definition created ::
  "string \<Rightarrow> (string \<times> match_spec list) list \<Rightarrow> string list list \<Rightarrow> tdb \<Rightarrow> tdb \<Rightarrow> bool" where
  "created tid specs idss db db' \<longleftrightarrow>
     map length idss = map (length \<circ> snd) specs \<and>
     added (concat idss)
       (concat (map (\<lambda>(rid, ms). round_rows tid rid (List.enumerate 0 ms)) specs)) db db'"

lemma create_rounds_created:
  assumes "db_ok db"
  shows "\<exists>idss db'. create_rounds tid specs db = (Inr idss, db') \<and> created tid specs idss db db'"
  using assms
proof (induction specs arbitrary: db)
  case Nil
  then show ?case by (auto simp: create_rounds_def created_def ret_def intro: added_Nil)
next
  case (Cons rs specs)
  obtain rid ms where rs: "rs = (rid, ms)" by force
  from create_round_matches_added [OF Cons.prems] obtain ids db1 where
    first: "create_round_matches tid rid ms db = (Inr ids, db1)" "length ids = length ms"
      "added ids (round_rows tid rid (List.enumerate 0 ms)) db db1" by blast
  then have "db_ok db1" by (simp add: added_def)
  from Cons.IH [OF this] obtain idss db2 where
    rest: "create_rounds tid specs db1 = (Inr idss, db2)" "created tid specs idss db1 db2" by blast
  have "create_rounds tid (rs # specs) db = (Inr (ids # idss), db2)"
    using first(1) rest(1) by (simp add: create_rounds_def rs ret_def and_then_def)
  moreover have "created tid (rs # specs) (ids # idss) db db2"
    using first(2) rest(2) added_append [OF first(3)] by (simp add: created_def rs)
  ultimately show ?case by blast
qed

lemma created_shape:
  assumes "created tid specs idss db db'"
  shows "length idss = length specs"
    and "r < length specs \<Longrightarrow> length (idss ! r) = length (snd (specs ! r))"
  using assms by (auto simp: created_def dest: map_eq_imp_length_eq)
    (metis comp_apply length_map nth_map map_eq_imp_length_eq)

text \<open>Position of an entry of a list of lists in their concatenation.\<close>

lemma concat_nth_pos:
  assumes "map length xss = map length yss" and "r < length xss" and "i < length (xss ! r)"
  shows "\<exists>p. p < length (concat xss) \<and> concat xss ! p = xss ! r ! i \<and> concat yss ! p = yss ! r ! i"
  using assms
proof (induction xss arbitrary: yss r)
  case (Cons xs xss)
  then obtain ys yss' where yss: "yss = ys # yss'" "length xs = length ys" "map length xss = map length yss'"
    by (cases yss) auto
  show ?case
  proof (cases r)
    case 0
    with Cons.prems yss show ?thesis by (intro exI [of _ i]) (simp add: nth_append)
  next
    case (Suc q)
    with Cons.prems Cons.IH [OF yss(3), of q] obtain p where
      "p < length (concat xss)" "concat xss ! p = xss ! q ! i" "concat yss' ! p = yss' ! q ! i" by auto
    with Suc yss show ?thesis by (intro exI [of _ "length xs + p"]) (simp add: nth_append)
  qed
qed simp

lemma created_row:
  assumes "created tid specs idss db db'" and "r < length specs" and "i < length (snd (specs ! r))"
  shows "rows (matches db') (idss ! r ! i) =
    (case snd (specs ! r) ! i of (a, b, status) \<Rightarrow> Some (new_match tid (fst (specs ! r)) i a b status))"
proof -
  let ?rows = "map (\<lambda>(rid, ms). round_rows tid rid (List.enumerate 0 ms)) specs"
  from assms(1) have len: "map length idss = map (length \<circ> snd) specs"
    and add: "added (concat idss) (concat ?rows) db db'" by (simp_all add: created_def)
  have "map length idss = map length ?rows"
    using len by (simp add: round_rows_def split_def comp_def)
  from concat_nth_pos [OF this, of r i] created_shape [OF assms(1)] assms(2,3) obtain p where
    p: "p < length (concat idss)" "concat idss ! p = idss ! r ! i" "concat ?rows ! p = ?rows ! r ! i" by auto
  from add have "rows (matches db') (concat idss ! p) = Some (concat ?rows ! p)"
    using p(1) by (rule added_row)
  then show ?thesis
    using p assms(2,3)
    by (simp add: round_rows_def split_def nth_enumerate_eq split: prod.splits)
qed

lemma created_grid:
  assumes "created tid specs idss db db'"
  shows "distinct (concat idss)" and "db_ok db'" and "same_frame db db'"
    and "dom (rows (matches db')) = dom (rows (matches db)) \<union> set (concat idss)"
    and "rid \<in> ids_used db \<Longrightarrow> rows (matches db') rid = rows (matches db) rid"
proof -
  from assms have add: "added (concat idss)
      (concat (map (\<lambda>(rid, ms). round_rows tid rid (List.enumerate 0 ms)) specs)) db db'"
    by (simp add: created_def)
  then show "distinct (concat idss)" "db_ok db'" "same_frame db db'"
    "dom (rows (matches db')) = dom (rows (matches db)) \<union> set (concat idss)"
    by (auto simp: added_def)
  show "rows (matches db') rid = rows (matches db) rid" if "rid \<in> ids_used db"
  proof -
    have "rid \<notin> set (concat idss)" using add that by (auto simp only: added_def)
    then show ?thesis using add by (simp add: added_def map_add_dom_app_simps)
  qed
qed

lemma grid_inject:
  assumes "distinct (concat xss)" and "r < length xss" "i < length (xss ! r)"
    and "q < length xss" "j < length (xss ! q)" and "xss ! r ! i = xss ! q ! j"
  shows "r = q \<and> i = j"
  using assms
proof (induction xss arbitrary: r q)
  case (Cons xs xss)
  have no: "xs ! i \<noteq> xss ! q' ! j'" if "i < length xs" "q' < length xss" "j' < length (xss ! q')" for i q' j'
  proof
    assume "xs ! i = xss ! q' ! j'"
    then have "xs ! i \<in> set (xss ! q')" "xss ! q' \<in> set xss" using that by simp_all
    then have "xs ! i \<in> set (concat xss)" by auto
    moreover have "xs ! i \<in> set xs" using that by simp
    moreover have "set xs \<inter> set (concat xss) = {}" using Cons.prems(1) by simp
    ultimately show False by blast
  qed
  show ?case
  proof (cases r; cases q)
    assume "r = 0" "q = 0"
    then show ?thesis using Cons.prems by (auto simp: nth_eq_iff_index_eq)
  next
    fix r' q' assume "r = Suc r'" "q = Suc q'"
    then show ?thesis using Cons by auto
  qed (use Cons.prems no in force)+
qed simp

subsection \<open>Changing existing matches\<close>

text \<open>The same match records, with other contents.\<close>

definition same_records :: "tdb \<Rightarrow> tdb \<Rightarrow> bool" where
  "same_records db db' \<longleftrightarrow>
     same_frame db db' \<and> id_count db' = id_count db \<and>
     dom (rows (matches db')) = dom (rows (matches db)) \<and> (db_ok db \<longrightarrow> db_ok db')"

lemma same_records_refl [simp]: "same_records db db"
  by (simp add: same_records_def)

lemma same_records_trans: "same_records a b \<Longrightarrow> same_records b c \<Longrightarrow> same_records a c"
  by (auto simp: same_records_def intro: same_frame_trans)

abbreviation modify_match :: "string \<times> (db_match \<Rightarrow> db_match) \<Rightarrow> tdb \<Rightarrow> tdb" where
  "modify_match \<equiv> modify (\<lambda>db. rows (matches db)) put_match"

lemma same_records_modify: "same_records db (modify_match u db)"
  by (cases u)
     (auto simp: modify_def same_records_def put_match_def same_frame_def db_ok_def table_ok_update
        ids_used_def split: option.splits)

lemma same_records_fold: "same_records db (fold modify_match us db)"
  by (induction us arbitrary: db) (auto intro: same_records_trans same_records_modify)

lemma rows_put_match: "rows (matches (put_match rid m db)) = (rows (matches db))(rid \<mapsto> m)"
  by (simp add: put_match_def)

definition set_next :: "string \<Rightarrow> string \<Rightarrow> db_match \<Rightarrow> db_match" where
  "set_next nxt slot m = m\<lparr>ma_next_match_id := Some nxt, ma_next_match_slot := Some slot\<rparr>"

definition set_loser_next :: "string \<Rightarrow> string \<Rightarrow> db_match \<Rightarrow> db_match" where
  "set_loser_next nxt slot m =
     m\<lparr>ma_loser_next_match_id := Some nxt, ma_loser_next_match_slot := Some slot\<rparr>"

definition set_slot :: "string \<Rightarrow> string \<Rightarrow> db_match \<Rightarrow> db_match" where
  "set_slot slot p m =
     (if slot = ''a'' then m\<lparr>ma_participant_a_id := Some p\<rparr> else m\<lparr>ma_participant_b_id := Some p\<rparr>)"

lemma update_match_next_modify:
  "rows (matches db) rid \<noteq> None \<Longrightarrow>
     update_match_next rid nxt slot db = (Inr (), modify_match (rid, set_next nxt slot) db)"
  by (auto simp: update_match_next_def modify_def set_next_def)

lemma update_match_loser_next_modify:
  "rows (matches db) rid \<noteq> None \<Longrightarrow>
     update_match_loser_next rid nxt slot db = (Inr (), modify_match (rid, set_loser_next nxt slot) db)"
  by (auto simp: update_match_loser_next_def modify_def set_loser_next_def)

lemma set_match_participant_modify:
  "rows (matches db) rid \<noteq> None \<Longrightarrow> slot = ''a'' \<or> slot = ''b'' \<Longrightarrow>
     set_match_participant rid slot p db = (Inr (), modify_match (rid, set_slot slot p) db)"
  by (auto simp: set_match_participant_def modify_def set_slot_def)

text \<open>A loop over the matches of one round.\<close>

lemma for_each_round:
  assumes "distinct xs" and "set xs \<subseteq> dom (rows (matches db))"
    and body: "\<And>i db'. i < length xs \<Longrightarrow> same_records db db' \<Longrightarrow>
      body (i, xs ! i) db' = (Inr (), modify_match (xs ! i, f i) db')"
  obtains db' where "for_each body (List.enumerate 0 xs) db = (Inr (), db')"
    "same_records db db'"
    "\<And>i. i < length xs \<Longrightarrow> rows (matches db') (xs ! i) = map_option (f i) (rows (matches db) (xs ! i))"
    "\<And>k. k \<notin> set xs \<Longrightarrow> rows (matches db') k = rows (matches db) k"
proof -
  let ?us = "map (\<lambda>(i, mid). (mid, f i)) (List.enumerate 0 xs)"
  have "body e s = (Inr (), modify_match (snd e, f (fst e)) s) \<and>
      same_records db (modify_match (snd e, f (fst e)) s)"
    if "e \<in> set (List.enumerate 0 xs)" "same_records db s" for e s
  proof -
    have "e = (fst e, xs ! fst e)" "fst e < length xs"
      using that(1) by (auto simp: in_set_enumerate_eq prod_eq_iff)
    then obtain i where "e = (i, xs ! i)" "i < length xs" by blast
    with body [of i s] that(2) show ?thesis by (auto intro: same_records_trans same_records_modify)
  qed
  from for_each_total [of "List.enumerate 0 xs" "same_records db" body, OF this]
  have "for_each body (List.enumerate 0 xs) db =
      (Inr (), fold (\<lambda>e. modify_match (snd e, f (fst e))) (List.enumerate 0 xs) db)" by simp
  also have "fold (\<lambda>e. modify_match (snd e, f (fst e))) (List.enumerate 0 xs) db = fold modify_match ?us db"
    by (simp add: fold_map comp_def split_def)
  finally have run: "for_each body (List.enumerate 0 xs) db = (Inr (), fold modify_match ?us db)" .
  have keys: "map fst ?us = xs"
    by (simp add: comp_def split_def)
  have new: "rows (matches (fold modify_match ?us db)) (xs ! i) = map_option (f i) (rows (matches db) (xs ! i))"
    if "i < length xs" for i
  proof -
    have "(xs ! i, f i) \<in> set ?us"
      using that by (auto simp: in_set_enumerate_eq image_iff intro!: bexI [of _ "(i, xs ! i)"])
    then have "changes_at (xs ! i) ?us r = f i r" for r
      using keys assms(1) by (intro changes_at_unique) simp_all
    then show ?thesis by (simp add: match_rows.sel_modify_all cong: map_option_cong)
  qed
  have old: "rows (matches (fold modify_match ?us db)) k = rows (matches db) k" if "k \<notin> set xs" for k
  proof -
    have "k \<notin> fst ` set ?us" using that keys by (metis list.set_map)
    then have "changes_at k ?us r = r" for r by (rule changes_at_none)
    then show ?thesis by (cases "rows (matches db) k") (simp_all add: match_rows.sel_modify_all)
  qed
  show thesis by (rule that [OF run same_records_fold new old])
qed

subsection \<open>Pointers to the next round\<close>

definition wire_next :: "string list list \<Rightarrow> nat \<Rightarrow> unit db_op" where
  "wire_next match_ids r =
     for_each (\<lambda>(i, mid).
         if i div 2 < length (match_ids ! (r + 1))
         then update_match_next mid (match_ids ! (r + 1) ! (i div 2)) (slot_of i) else ret ())
       (List.enumerate 0 (match_ids ! r))"

text \<open>The pointer of match \<open>i\<close> of round \<open>r\<close>, when \<open>n\<close> rounds are wired.\<close>

definition wired :: "string list list \<Rightarrow> nat \<Rightarrow> nat \<Rightarrow> nat \<Rightarrow> db_match \<Rightarrow> db_match" where
  "wired match_ids n r i m =
     (if r < n then set_next (match_ids ! (r + 1) ! (i div 2)) (slot_of i) m else m)"

lemma wire_rounds:
  assumes grid: "distinct (concat idss)" "set (concat idss) \<subseteq> dom (rows (matches db))"
    and halves: "\<And>r i. Suc r < length idss \<Longrightarrow> i < length (idss ! r) \<Longrightarrow> i div 2 < length (idss ! Suc r)"
    and "n < length idss"
  shows "\<exists>db'. for_each (wire_next idss) [0..<n] db = (Inr (), db') \<and> same_records db db' \<and>
    (\<forall>r < length idss. \<forall>i < length (idss ! r).
       rows (matches db') (idss ! r ! i) = map_option (wired idss n r i) (rows (matches db) (idss ! r ! i))) \<and>
    (\<forall>k. k \<notin> set (concat idss) \<longrightarrow> rows (matches db') k = rows (matches db) k)"
  using assms(4)
proof (induction n)
  case 0
  then show ?case by (simp add: ret_def wired_def option.map_ident)
next
  case (Suc n)
  then obtain db1 where run: "for_each (wire_next idss) [0..<n] db = (Inr (), db1)"
    and same: "same_records db db1"
    and old: "\<forall>r < length idss. \<forall>i < length (idss ! r).
       rows (matches db1) (idss ! r ! i) = map_option (wired idss n r i) (rows (matches db) (idss ! r ! i))"
    and out: "\<forall>k. k \<notin> set (concat idss) \<longrightarrow> rows (matches db1) k = rows (matches db) k" by auto
  have mem: "idss ! n \<in> set idss" using Suc.prems by simp
  have dist: "distinct (idss ! n)" using grid(1) mem by (auto simp: distinct_concat_iff)
  have there: "set (idss ! n) \<subseteq> dom (rows (matches db1))"
    using grid(2) mem same by (auto simp: same_records_def)
  let ?f = "\<lambda>i. set_next (idss ! Suc n ! (i div 2)) (slot_of i)"
  have "(\<lambda>(i, mid). if i div 2 < length (idss ! (n + 1))
         then update_match_next mid (idss ! (n + 1) ! (i div 2)) (slot_of i) else ret ()) (i, idss ! n ! i) s
      = (Inr (), modify_match (idss ! n ! i, ?f i) s)"
    if "i < length (idss ! n)" "same_records db1 s" for i s
  proof -
    have "rows (matches s) (idss ! n ! i) \<noteq> None"
      using there that by (metis (no_types) domIff nth_mem same_records_def subsetD)
    with halves [OF Suc.prems that(1)] show ?thesis by (simp add: update_match_next_modify)
  qed
  from for_each_round [OF dist there this] obtain db2 where
    step: "wire_next idss n db1 = (Inr (), db2)" and same2: "same_records db1 db2"
    and new: "\<And>i. i < length (idss ! n) \<Longrightarrow>
       rows (matches db2) (idss ! n ! i) = map_option (?f i) (rows (matches db1) (idss ! n ! i))"
    and out2: "\<And>k. k \<notin> set (idss ! n) \<Longrightarrow> rows (matches db2) k = rows (matches db1) k"
    unfolding wire_next_def by blast
  have "rows (matches db2) (idss ! r ! i) = map_option (wired idss (Suc n) r i) (rows (matches db) (idss ! r ! i))"
    if "r < length idss" "i < length (idss ! r)" for r i
  proof (cases "r = n")
    case True
    then show ?thesis using new [of i] old that
      by (auto simp: wired_def [abs_def] option.map_comp comp_def map_option_case split: option.splits)
  next
    case False
    then have "idss ! r ! i \<notin> set (idss ! n)"
      using grid_inject [OF grid(1) that, of n] Suc.prems by (metis Suc_lessD in_set_conv_nth)
    moreover have "wired idss (Suc n) r i m = wired idss n r i m" for m
      using False by (simp add: wired_def less_Suc_eq)
    ultimately show ?thesis using out2 old that by (cases "rows (matches db) (idss ! r ! i)") simp_all
  qed
  moreover have "rows (matches db2) k = rows (matches db) k" if "k \<notin> set (concat idss)" for k
    using that out out2 mem by auto
  moreover have "for_each (wire_next idss) [0..<Suc n] db = (Inr (), db2)"
    using run step by (simp add: for_each_append ret_def)
  ultimately show ?case using same_records_trans [OF same same2] by blast
qed

subsection \<open>Creating rounds\<close>

definition round_row :: "string \<Rightarrow> nat \<Rightarrow> bracket_stage \<Rightarrow> instant \<Rightarrow> db_round" where
  "round_row tid n stage now =
     \<lparr>rd_tournament_id = tid, rd_round_number = n, rd_stage = stage_to_string stage,
      rd_status = ''pending'', rd_created_at = now\<rparr>"

text \<open>Only the round table and the id counter change, and old rounds stay.\<close>

definition rounds_added :: "string list \<Rightarrow> db_round list \<Rightarrow> tdb \<Rightarrow> tdb \<Rightarrow> bool" where
  "rounds_added rids rs db db' \<longleftrightarrow>
     length rids = length rs \<and> distinct rids \<and> set rids \<inter> ids_used db = {} \<and>
     ids_used db \<union> set rids \<subseteq> ids_used db' \<and> db_ok db' \<and> mk_id db' = mk_id db \<and>
     tournaments db' = tournaments db \<and> participants db' = participants db \<and>
     matches db' = matches db \<and>
     (\<forall>r < length rids. rows (rounds db') (rids ! r) = Some (rs ! r)) \<and>
     (\<forall>k \<in> ids_used db. rows (rounds db') k = rows (rounds db) k)"

lemma create_round_ids_added:
  assumes "db_ok db"
  shows "\<exists>rids db'. create_round_ids tid stage now ns db = (Inr rids, db') \<and>
    rounds_added rids (map (\<lambda>n. round_row tid n stage now) ns) db db'"
  using assms
proof (induction ns arbitrary: db)
  case Nil
  then show ?case by (auto simp: create_round_ids_def rounds_added_def ret_def)
next
  case (Cons n ns)
  let ?r = "round_row tid n stage now"
  let ?db = "db\<lparr>id_count := Suc (id_count db), rounds := t_create (fresh_id db) ?r (rounds db)\<rparr>"
  have step: "create_tournament_round tid n stage now db = (Inr (fresh_id db, ?r), ?db)"
    by (simp add: create_tournament_round_def Let_def round_row_def)
  have ok: "db_ok ?db" by (rule db_ok_create(3) [OF Cons.prems])
  have used: "ids_used ?db = insert (fresh_id db) (ids_used db)" by (simp add: ids_used_Suc)
  from Cons.IH [OF ok] obtain rids db' where
    rest: "create_round_ids tid stage now ns ?db = (Inr rids, db')"
    and add: "rounds_added rids (map (\<lambda>n. round_row tid n stage now) ns) ?db db'" by blast
  have "create_round_ids tid stage now (n # ns) db = (Inr (fresh_id db # rids), db')"
    using step rest by (simp add: create_round_ids_def) (simp add: ret_def)
  moreover have "rounds_added (fresh_id db # rids) (map (\<lambda>n. round_row tid n stage now) (n # ns)) db db'"
    using add used fresh_not_used [OF Cons.prems]
    by (auto simp: rounds_added_def nth_Cons split: nat.splits)
  ultimately show ?case by blast
qed

subsection \<open>Moving byes on\<close>

lemma for_each_enumerate: "for_each body xs = for_each (\<lambda>(i, x). body x) (List.enumerate n xs)"
  by (induction xs arbitrary: n) simp_all

lemma modify_same: "rows (matches db) rid = Some m \<Longrightarrow> f m = m \<Longrightarrow> modify_match (rid, f) db = db"
  by (simp add: modify_def put_match_def t_update_def fun_upd_idem)

definition is_bye :: "db_match \<Rightarrow> bool" where
  "is_bye m \<longleftrightarrow> ma_status_of m = MatchBye"

text \<open>What first-round match \<open>i\<close> does to the match its winner goes to.\<close>

definition bye_change :: "nat \<Rightarrow> db_match \<Rightarrow> db_match \<Rightarrow> db_match" where
  "bye_change i src m =
     (if is_bye src then (case bye_winner src of None \<Rightarrow> m | Some w \<Rightarrow> set_slot (slot_of i) w m) else m)"

lemma filter_halves: "j < n \<Longrightarrow> filter (\<lambda>i. i div 2 = j) [0..<2 * n] = [2 * j, 2 * j + 1]"
proof (induction n)
  case (Suc n)
  have upt: "[0..<2 * Suc n] = [0..<2 * n] @ [2 * n, 2 * n + 1]" by simp
  show ?case
  proof (cases "j = n")
    case True
    have "filter (\<lambda>i. i div 2 = n) [0..<2 * n] = []" by (auto simp: filter_empty_conv)
    then show ?thesis unfolding upt filter_append True by simp
  next
    case False
    then show ?thesis unfolding upt filter_append using Suc by simp
  qed
qed simp

lemma changes_at_halves:
  assumes "distinct ys" and "j < length ys" and "n = 2 * length ys"
  shows "changes_at (ys ! j) (map (\<lambda>i. (ys ! (i div 2), g i)) [0..<n]) r = g (2 * j + 1) (g (2 * j) r)"
proof -
  have "filter (\<lambda>i. ys ! (i div 2) = ys ! j) [0..<n] = filter (\<lambda>i. i div 2 = j) [0..<n]"
    using assms by (intro filter_cong) (auto simp: nth_eq_iff_index_eq)
  with filter_halves [OF assms(2)] assms(3)
  have "filter (\<lambda>i. ys ! (i div 2) = ys ! j) [0..<n] = [2 * j, 2 * j + 1]" by simp
  then show ?thesis by (simp add: changes_at_def filter_map comp_def)
qed

lemma slot_of_ab: "slot_of i = ''a'' \<or> slot_of i = ''b''"
  by (simp add: slot_of_def)

lemma advance_byes:
  assumes dist: "distinct (xs @ ys)" and half: "length xs = 2 * length ys"
    and xs: "\<And>i. i < length xs \<Longrightarrow> rows (matches db) (xs ! i) = Some (src i) \<and>
      ma_next_match_id (src i) = Some (ys ! (i div 2)) \<and> ma_next_match_slot (src i) = Some (slot_of i)"
    and ys: "set ys \<subseteq> dom (rows (matches db))"
  obtains db' where "for_each advance_bye xs db = (Inr (), db')" "same_records db db'"
    "\<And>j. j < length ys \<Longrightarrow> rows (matches db') (ys ! j) =
       map_option (\<lambda>m. bye_change (2 * j + 1) (src (2 * j + 1)) (bye_change (2 * j) (src (2 * j)) m))
         (rows (matches db) (ys ! j))"
    "\<And>k. k \<notin> set ys \<Longrightarrow> rows (matches db') k = rows (matches db) k"
proof -
  let ?P = "\<lambda>s. same_records db s \<and> (\<forall>mid \<in> set xs. rows (matches s) mid = rows (matches db) mid)"
  let ?g = "\<lambda>i. bye_change i (src i)"
  let ?us = "map (\<lambda>i. (ys ! (i div 2), ?g i)) [0..<length xs]"
  let ?f = "\<lambda>e. modify_match (ys ! (fst e div 2), ?g (fst e))"
  have step: "(\<lambda>(i, x). advance_bye x) e s = (Inr (), ?f e s) \<and> ?P (?f e s)"
    if e: "e \<in> set (List.enumerate 0 xs)" and P: "?P s" for e s
  proof -
    have "e = (fst e, xs ! fst e)" "fst e < length xs"
      using e by (auto simp: in_set_enumerate_eq prod_eq_iff)
    then obtain i where i: "e = (i, xs ! i)" "i < length xs" by blast
    let ?y = "ys ! (i div 2)"
    have y: "?y \<in> set ys" using i(2) half by (intro nth_mem) linarith
    then have "?y \<notin> set xs" using dist by auto
    from y ys P obtain m where m: "rows (matches s) ?y = Some m" by (force simp: same_records_def)
    have at: "rows (matches s) (xs ! i) = Some (src i)" using P i(2) xs [OF i(2)] by simp
    have "advance_bye (xs ! i) s = (Inr (), modify_match (?y, ?g i) s)"
      using xs [OF i(2)] m at modify_same [OF m]
      by (auto simp: advance_bye_def get_tournament_match_def bye_change_def [abs_def] is_bye_def ret_def
            set_match_participant_modify [OF _ slot_of_ab] split: option.splits)
    moreover have "?P (modify_match (?y, ?g i) s)"
      using P \<open>?y \<notin> set xs\<close>
      by (auto simp: match_rows.sel_modify intro: same_records_trans same_records_modify)
    ultimately show ?thesis using i by simp
  qed
  have "for_each advance_bye xs db = (Inr (), fold ?f (List.enumerate 0 xs) db)"
    unfolding for_each_enumerate [of advance_bye xs 0]
    using for_each_total [of "List.enumerate 0 xs" ?P, OF step] by simp
  also have "fold ?f (List.enumerate 0 xs) db = fold modify_match ?us db"
  proof -
    let ?h = "\<lambda>i. modify_match (ys ! (i div 2), ?g i)"
    have "fold ?f (List.enumerate 0 xs) db = fold ?h (map fst (List.enumerate 0 xs)) db"
      by (simp only: fold_map comp_def)
    also have "\<dots> = fold modify_match ?us db"
      by (simp add: fold_map comp_def)
    finally show ?thesis .
  qed
  finally have run: "for_each advance_bye xs db = (Inr (), fold modify_match ?us db)" .
  have new: "rows (matches (fold modify_match ?us db)) (ys ! j) =
       map_option (\<lambda>m. ?g (2 * j + 1) (?g (2 * j) m)) (rows (matches db) (ys ! j))" if "j < length ys" for j
    using dist that half
    by (cases "rows (matches db) (ys ! j)") (simp_all add: match_rows.sel_modify_all changes_at_halves)
  have old: "rows (matches (fold modify_match ?us db)) k = rows (matches db) k" if "k \<notin> set ys" for k
  proof -
    have "k \<notin> fst ` set ?us"
    proof
      assume "k \<in> fst ` set ?us"
      then obtain i where "i < length xs" "k = ys ! (i div 2)" by auto
      moreover from this have "i div 2 < length ys" using half by linarith
      ultimately show False using \<open>k \<notin> set ys\<close> by simp
    qed
    then have "changes_at k ?us r = r" for r by (rule changes_at_none)
    then show ?thesis by (cases "rows (matches db) k") (simp_all add: match_rows.sel_modify_all)
  qed
  show thesis by (rule that [OF run same_records_fold new old])
qed

lemma advance_no_byes:
  assumes "\<And>mid. mid \<in> set xs \<Longrightarrow> \<exists>m. rows (matches db) mid = Some m \<and> \<not> is_bye m"
  shows "for_each advance_bye xs db = (Inr (), db)"
  using assms
proof (induction xs)
  case (Cons mid xs)
  from Cons.prems [of mid] obtain m where "rows (matches db) mid = Some m" "\<not> is_bye m" by auto
  then have "advance_bye mid db = (Inr (), db)"
    by (simp add: advance_bye_def get_tournament_match_def is_bye_def ret_def)
  with Cons show ?case by simp
qed (simp add: ret_def)

lemma delete_bracket_rows:
  "db_ok db \<Longrightarrow> delete_tournament_bracket tid db = (Inr (), db') \<Longrightarrow>
     db_ok db' \<and> ids_used db' = ids_used db \<and> mk_id db' = mk_id db \<and>
     tournaments db' = tournaments db \<and> participants db' = participants db \<and>
     (\<forall>k. rows (matches db') k =
        (case rows (matches db) k of None \<Rightarrow> None | Some m \<Rightarrow> if ma_tournament_id m = tid then None else Some m))"
  using db_ok_delete_bracket [of db tid]
  by (auto simp: delete_tournament_bracket_def split: option.splits)

lemma new_match_fields [simp]:
  "ma_participant_a_id (new_match tid rid i a b st) = a"
  "ma_participant_b_id (new_match tid rid i a b st) = b"
  "ma_status_of (new_match tid rid i a b st) = st"
  "ma_tournament_id (new_match tid rid i a b st) = tid"
  "ma_round_id (new_match tid rid i a b st) = rid"
  by (simp_all add: new_match_def ma_status_of_def)

end
