(* ===== verification/RoundRobin.thy ===== *)
theory RoundRobin
  imports BracketBuild
begin

text \<open>
  \<open>generate_round_robin_pairings\<close> of \<open>crates/db/src/queries/tournaments.rs\<close>: the circle method. The
  slots are the participants, with a bye slot behind an odd number of them; after each round
  the last slot moves behind the first.
\<close>

definition round_robin_slots :: "string list \<Rightarrow> string option list" where
  "round_robin_slots ids = map Some ids @ (if length ids mod 2 \<noteq> 0 then [None] else [])"

text \<open>\<open>slots.pop()\<close>, then \<open>slots.insert(1, last)\<close>.\<close>

definition rotate_slots :: "'a list \<Rightarrow> 'a list" where
  "rotate_slots slots =
     (let rest = butlast slots in take 1 rest @ [last slots] @ drop 1 rest)"

definition circle_pair :: "'a list \<Rightarrow> nat \<Rightarrow> 'a \<times> 'a" where
  "circle_pair slots i = (slots ! i, slots ! (length slots - 1 - i))"

definition round_robin_spec :: "string option list \<Rightarrow> nat \<Rightarrow> match_spec" where
  "round_robin_spec slots i =
     (case circle_pair slots i of (a, b) \<Rightarrow>
        (a, b, if a = None \<or> b = None then MatchBye else MatchPending))"

fun round_robin_rounds :: "string \<Rightarrow> instant \<Rightarrow> nat \<Rightarrow> nat \<Rightarrow> string option list \<Rightarrow> unit db_op" where
  "round_robin_rounds tid now r 0 slots = ret ()"
| "round_robin_rounds tid now r (Suc n) slots =
     and_then (create_tournament_round tid (r + 1) StageMain now) (\<lambda>(rid, _).
     and_then (create_round_matches tid rid (map (round_robin_spec slots) [0..<length slots div 2])) (\<lambda>_.
       round_robin_rounds tid now (r + 1) n (rotate_slots slots)))"

definition generate_round_robin_pairings :: "string \<Rightarrow> instant \<Rightarrow> unit db_op" where
  "generate_round_robin_pairings tid now db =
     (let ids = map fst (list_tournament_participants tid db); slots = round_robin_slots ids in
      if length ids < 2 then fail NeedTwoParticipants db
      else and_then (delete_tournament_bracket tid)
             (\<lambda>_. round_robin_rounds tid now 0 (length slots - 1) slots) db)"

subsection \<open>The circle method\<close>

lemma rotate_slots_Cons:
  assumes "xs \<noteq> []"
  shows "rotate_slots (x # xs) = x # rotate (length xs - 1) xs"
proof -
  have "rotate (length xs - 1) xs = last xs # butlast xs"
  proof -
    have "rotate1 (last xs # butlast xs) = xs" using assms by simp
    then have "rotate (length xs) (last xs # butlast xs) = rotate (length xs - 1) xs"
      using assms by (metis One_nat_def Suc_pred length_greater_0_conv rotate1_rotate_swap rotate_Suc
          funpow_swap1 rotate_def)
    moreover have "rotate (length xs) (last xs # butlast xs) = last xs # butlast xs"
      using assms rotate_id [of "length xs" "last xs # butlast xs"] by simp
    ultimately show ?thesis by simp
  qed
  then show ?thesis using assms by (simp add: rotate_slots_def Let_def)
qed

lemma rotate_slots_pow:
  "xs \<noteq> [] \<Longrightarrow> (rotate_slots ^^ r) (x # xs) = x # rotate (r * (length xs - 1)) xs"
proof (induction r)
  case (Suc r)
  then show ?case
    by (simp add: rotate_slots_Cons rotate_rotate)
qed simp

lemma length_rotate_slots: "slots \<noteq> [] \<Longrightarrow> length (rotate_slots slots) = length slots"
  by (cases slots) (auto simp: rotate_slots_def Let_def min_def Suc_le_eq le_less)

lemma length_rotate_slots_pow: "slots \<noteq> [] \<Longrightarrow> length ((rotate_slots ^^ r) slots) = length slots"
proof (induction r)
  case (Suc r)
  then have "(rotate_slots ^^ r) slots \<noteq> []" by auto
  with Suc show ?case by (simp add: length_rotate_slots)
qed simp

text \<open>Position \<open>Suc j\<close> in round \<open>r\<close>, for \<open>m\<close> rotating slots.\<close>

lemma nth_rotated:
  assumes "length xs = m" and "j < m"
  shows "(rotate_slots ^^ r) (x # xs) ! Suc j = xs ! ((r * (m - 1) + j) mod m)"
  using assms by (simp add: rotate_slots_pow nth_rotate length_greater_0_conv [symmetric] del: length_greater_0_conv)

lemma nth_rotated_0: "xs \<noteq> [] \<Longrightarrow> (rotate_slots ^^ r) (x # xs) ! 0 = x"
  by (simp add: rotate_slots_pow)

lemma circle_front:
  fixes j m r :: nat
  assumes "0 < j" "0 < m"
  shows "int (r * (m - 1) + (j - 1)) = (int j - 1 - int r) + int r * int m"
proof -
  obtain j' where j: "j = Suc j'" using assms(1) gr0_implies_Suc by blast
  obtain m' where m: "m = Suc m'" using assms(2) gr0_implies_Suc by blast
  show ?thesis unfolding j m by (simp add: distrib_left)
qed
lemma circle_back:
  fixes j m r :: nat
  assumes "j < m"
  shows "int (r * (m - 1) + (m - 1 - j)) = (- int j - 1 - int r) + (int r + 1) * int m"
proof -
  obtain d where m: "m = Suc (j + d)" using assms less_imp_Suc_add by blast
  show ?thesis unfolding m by (simp add: distrib_left distrib_right)
qed

text \<open>With an odd number of rotating slots, the round in which two of them meet.\<close>

lemma meeting_round:
  fixes a b m :: nat
  assumes "odd m" and "a < m" "b < m" "a \<noteq> b"
  obtains r i where "r < m" "0 < i" "i < (m + 1) div 2"
    "{(r * (m - 1) + (i - 1)) mod m, (r * (m - 1) + (m - 1 - i)) mod m} = {a, b}"
proof -
  let ?m = "int m"
  define h where "h = (?m + 1) div 2"
  obtain q where "m = 2 * q + 1" using assms(1) by (rule oddE)
  then have h: "2 * h = ?m + 1" by (simp add: h_def)
  define r where "r = nat ((- (int a + int b + 2) * h) mod ?m)"
  have m: "0 < ?m" using assms(2) by simp
  have r: "r < m" "int r = (- (int a + int b + 2) * h) mod ?m"
    using m by (simp_all add: r_def nat_less_iff)
  have two_r: "(2 * int r) mod ?m = (- (int a + int b + 2)) mod ?m"
  proof -
    have "(2 * int r) mod ?m = (- (int a + int b + 2) * (2 * h)) mod ?m"
      unfolding r(2) by (simp add: mod_mult_right_eq algebra_simps)
    also have "\<dots> = (- (int a + int b + 2) + - (int a + int b + 2) * ?m) mod ?m"
      unfolding h by (simp add: algebra_simps)
    also have "\<dots> = (- (int a + int b + 2)) mod ?m" by (rule mod_mult_self1)
    finally show ?thesis .
  qed
  define i where "i = nat ((int a + 1 + int r) mod ?m)"
  have i: "i < m" "int i = (int a + 1 + int r) mod ?m"
    using m by (simp_all add: i_def nat_less_iff)
  have pos: "int ((r * (m - 1) + (j - 1)) mod m) = (int j - 1 - int r) mod ?m" if "0 < j" for j :: nat
  proof -
    have "int (r * (m - 1) + (j - 1)) = (int j - 1 - int r) + int r * ?m"
      using that assms(2) by (intro circle_front) simp_all
    then show ?thesis by (simp add: zmod_int)
  qed
  have neg: "int ((r * (m - 1) + (m - 1 - j)) mod m) = (- int j - 1 - int r) mod ?m" if "j < m" for j :: nat
  proof -
    have "int (r * (m - 1) + (m - 1 - j)) = (- int j - 1 - int r) + (int r + 1) * ?m"
      using that by (rule circle_back)
    then show ?thesis by (simp add: zmod_int)
  qed
  have at_a: "(int i - 1 - int r) mod ?m = int a"
  proof -
    have "(int i - 1 - int r) mod ?m = ((int a + 1 + int r) - 1 - int r) mod ?m"
      unfolding i(2) by (simp add: mod_diff_left_eq diff_diff_eq)
    then show ?thesis using assms(2) by simp
  qed
  have at_b: "(- int i - 1 - int r) mod ?m = int b"
  proof -
    have "(- int i - 1 - int r) mod ?m = (- (int a + 1 + int r) - 1 - int r) mod ?m"
      unfolding i(2) by (metis (no_types, opaque_lifting) diff_diff_eq mod_diff_left_eq mod_minus_eq)
    also have "\<dots> = (- int a - 2 - 2 * int r) mod ?m" by (simp add: algebra_simps)
    also have "\<dots> = (- int a - 2 - (- (int a + int b + 2))) mod ?m"
      using two_r by (metis mod_diff_right_eq)
    finally show ?thesis using assms(3) by simp
  qed
  have "i \<noteq> 0"
  proof
    assume "i = 0"
    then have "int a = int b" using at_a at_b by simp
    with assms(4) show False by simp
  qed
  show thesis
  proof (cases "i < (m + 1) div 2")
    case True
    have "{(r * (m - 1) + (i - 1)) mod m, (r * (m - 1) + (m - 1 - i)) mod m} = {a, b}"
      using pos [of i] neg [of i] at_a at_b \<open>i \<noteq> 0\<close> i(1) by (simp del: of_nat_mod)
    with that r(1) True \<open>i \<noteq> 0\<close> show thesis by blast
  next
    case False
    let ?j = "m - i"
    have j: "0 < ?j" "?j < (m + 1) div 2" "?j < m" using False i(1) \<open>i \<noteq> 0\<close> assms(1) by presburger+
    have jm: "int ?j = ?m - int i" using i(1) by simp
    have "(int ?j - 1 - int r) mod ?m = int b"
      using at_b mod_add_self1 [of ?m "- int i - 1 - int r"] by (simp add: jm algebra_simps)
    moreover have "(- int ?j - 1 - int r) mod ?m = int a"
      using at_a mod_add_self1 [of ?m "int i - 1 - int r - ?m"] by (simp add: jm algebra_simps)
    ultimately have "{(r * (m - 1) + (?j - 1)) mod m, (r * (m - 1) + (m - 1 - ?j)) mod m} = {a, b}"
      using pos [OF j(1)] neg [OF j(3)] by (auto simp del: of_nat_mod)
    with that r(1) j show thesis by blast
  qed
qed

lemma fixed_meets:
  fixes b m :: nat
  assumes "b < m"
  shows "((m - 1 - b) * (m - 1) + (m - 1)) mod m = b"
proof -
  let ?r = "m - 1 - b"
  have r: "int ?r = int m - 1 - int b" using assms by simp
  have "int (?r * (m - 1) + (m - 1)) = (- 1 - int ?r) + (int ?r + 1) * int m"
    using circle_back [of 0 m ?r] assms by simp
  also have "\<dots> = int b + int ?r * int m" unfolding r by (simp add: algebra_simps)
  finally have "int ((?r * (m - 1) + (m - 1)) mod m) = int b mod int m" by (simp add: zmod_int)
  also have "\<dots> = int b" using assms by simp
  finally show ?thesis by simp
qed

text \<open>The pairs of one run over the circle.\<close>

definition met :: "'a list \<Rightarrow> nat \<times> nat \<Rightarrow> 'a set" where
  "met slots ri =
     (case circle_pair ((rotate_slots ^^ fst ri) slots) (snd ri) of (a, b) \<Rightarrow> {a, b})"

definition games :: "'a list \<Rightarrow> (nat \<times> nat) set" where
  "games slots = {..<length slots - 1} \<times> {..<length slots div 2}"

lemma met_Cons:
  assumes "length xs = m" and "0 < m" and "i < (m + 1) div 2"
  shows "met (x # xs) (r, i) =
    (if i = 0 then {x, xs ! ((r * (m - 1) + (m - 1)) mod m)}
     else {xs ! ((r * (m - 1) + (i - 1)) mod m), xs ! ((r * (m - 1) + (m - 1 - i)) mod m)})"
proof -
  have xs: "xs \<noteq> []" using assms by auto
  have len: "length ((rotate_slots ^^ r) (x # xs)) = m + 1" using assms by (simp add: length_rotate_slots_pow)
  show ?thesis
  proof (cases i)
    case 0
    have "m = Suc (m - 1)" using assms(2) by simp
    then have "(rotate_slots ^^ r) (x # xs) ! m = xs ! ((r * (m - 1) + (m - 1)) mod m)"
      using nth_rotated [OF assms(1), of "m - 1"] assms(2) by simp
    with 0 show ?thesis by (simp add: met_def circle_pair_def len nth_rotated_0 [OF xs])
  next
    case (Suc j)
    then have "m - i = Suc (m - 1 - i)" "m - 1 - i < m" "j < m" using assms(3) by linarith+
    with Suc show ?thesis
      using nth_rotated [OF assms(1), of "m - 1 - i"] nth_rotated [OF assms(1), of j]
      by (simp add: met_def circle_pair_def len)
  qed
qed

lemma circle_complete:
  assumes "even (length slots)" and "u \<in> set slots" "v \<in> set slots" "u \<noteq> v"
  shows "\<exists>ri \<in> games slots. met slots ri = {u, v}"
proof -
  obtain x xs where slots: "slots = x # xs" using assms(2) by (cases slots) auto
  define m where "m = length xs"
  have m: "length xs = m" "odd m" "0 < m" using assms(1) slots by (auto simp: m_def odd_pos)
  have games: "(r, i) \<in> games slots \<longleftrightarrow> r < m \<and> i < (m + 1) div 2" for r i
    by (simp add: games_def slots m(1))
  have fixed: ?thesis if "b < m" "{u, v} = {x, xs ! b}" for b
    using met_Cons [OF m(1,3), of 0 x "m - 1 - b"] fixed_meets [OF that(1)] that games [of "m - 1 - b" 0] m
    by (intro bexI [of _ "(m - 1 - b, 0)"]) (auto simp: slots)
  consider "u = x" | "v = x" | "u \<in> set xs" "v \<in> set xs" using assms(2,3) slots by auto
  then show ?thesis
  proof cases
    case 1
    then obtain b where "b < m" "v = xs ! b" using assms(3,4) slots m(1) by (auto simp: in_set_conv_nth)
    with 1 show ?thesis by (intro fixed [of b]) simp_all
  next
    case 2
    then obtain b where "b < m" "u = xs ! b" using assms(2,4) slots m(1) by (auto simp: in_set_conv_nth)
    with 2 show ?thesis by (intro fixed [of b]) auto
  next
    case 3
    then obtain a b where ab: "a < m" "b < m" "u = xs ! a" "v = xs ! b" "a \<noteq> b"
      using assms(4) m(1) by (auto simp: in_set_conv_nth)
    obtain r i where ri: "r < m" "0 < i" "i < (m + 1) div 2"
      "{(r * (m - 1) + (i - 1)) mod m, (r * (m - 1) + (m - 1 - i)) mod m} = {a, b}"
      by (rule meeting_round [OF m(2) ab(1,2,5)])
    have "met slots (r, i) = (!) xs ` {(r * (m - 1) + (i - 1)) mod m, (r * (m - 1) + (m - 1 - i)) mod m}"
      using met_Cons [OF m(1,3) ri(3), of x r] ri(2) by (simp add: slots)
    also have "\<dots> = {u, v}" unfolding ri(4) using ab by simp
    finally show ?thesis using ri games by blast
  qed
qed

lemma mset_rotate_slots: "slots \<noteq> [] \<Longrightarrow> mset (rotate_slots slots) = mset slots"
proof -
  assume "slots \<noteq> []"
  then have "mset slots = mset (butlast slots) + {#last slots#}"
    by (metis append_butlast_last_id mset_append mset.simps mset_single_iff_right)
  then show ?thesis
    by (simp add: rotate_slots_def Let_def)
      (metis append_take_drop_id mset_append union_mset_add_mset_right)
qed

lemma mset_rotate_slots_pow: "slots \<noteq> [] \<Longrightarrow> mset ((rotate_slots ^^ r) slots) = mset slots"
proof (induction r)
  case (Suc r)
  then have "(rotate_slots ^^ r) slots \<noteq> []" by auto
  with Suc show ?case by (simp add: mset_rotate_slots)
qed simp

lemma met_pair:
  assumes "distinct slots" and "even (length slots)" and "ri \<in> games slots"
  shows "met slots ri \<subseteq> set slots" and "card (met slots ri) = 2"
proof -
  obtain r i where ri: "ri = (r, i)" by force
  let ?s = "(rotate_slots ^^ r) slots" and ?n = "length slots"
  have i: "i < ?n div 2" using assms(3) ri by (simp add: games_def)
  then have ne: "slots \<noteq> []" by auto
  have len: "length ?s = ?n" by (rule length_rotate_slots_pow [OF ne])
  have ms: "mset ?s = mset slots" by (rule mset_rotate_slots_pow [OF ne])
  then have set: "set ?s = set slots" and dis: "distinct ?s"
    using assms(1) mset_eq_setD mset_eq_imp_distinct_iff by blast+
  have idx: "i < ?n" "?n - 1 - i < ?n" "i \<noteq> ?n - 1 - i" using i by linarith+
  then have "?s ! i \<noteq> ?s ! (?n - 1 - i)" using dis len by (simp add: nth_eq_iff_index_eq)
  moreover have "met slots ri = {?s ! i, ?s ! (?n - 1 - i)}"
    by (simp add: met_def circle_pair_def ri len)
  ultimately show "met slots ri \<subseteq> set slots" "card (met slots ri) = 2"
    using idx len set nth_mem [of _ ?s] by auto
qed

text \<open>As many games as pairs, and every pair has one: so every pair has exactly one.\<close>

lemma circle_once:
  assumes "distinct slots" and "even (length slots)" and "slots \<noteq> []"
  shows "inj_on (met slots) (games slots)"
proof -
  let ?pairs = "{B. B \<subseteq> set slots \<and> card B = 2}" and ?n = "length slots"
  have fin: "finite (games slots)" by (simp add: games_def)
  have "met slots ` games slots = ?pairs"
  proof
    show "met slots ` games slots \<subseteq> ?pairs" using met_pair [OF assms(1,2)] by auto
    show "?pairs \<subseteq> met slots ` games slots"
    proof
      fix B assume "B \<in> ?pairs"
      then obtain u v where "B = {u, v}" "u \<noteq> v" "u \<in> set slots" "v \<in> set slots"
        by (auto simp: card_2_iff)
      with circle_complete [OF assms(2), of u v] show "B \<in> met slots ` games slots" by auto
    qed
  qed
  then have "card (met slots ` games slots) = ?n choose 2"
    using n_subsets [of "set slots" 2] assms(1) by (simp add: distinct_card)
  also have "\<dots> = card (games slots)"
  proof -
    obtain h where h: "?n = 2 * h" using assms(2) by (rule evenE)
    then show ?thesis by (simp add: games_def choose_two card_cartesian_product)
  qed
  finally show ?thesis using fin by (rule eq_card_imp_inj_on [rotated])
qed

subsection \<open>The matches in the database\<close>

definition rr_built ::
  "string \<Rightarrow> string option list \<Rightarrow> nat \<Rightarrow> string list list \<Rightarrow> string list \<Rightarrow> tdb \<Rightarrow> tdb \<Rightarrow> bool" where
  "rr_built tid slots n idss rids db db' \<longleftrightarrow>
     db_ok db' \<and> tournaments db' = tournaments db \<and> participants db' = participants db \<and>
     mk_id db' = mk_id db \<and> ids_used db \<subseteq> ids_used db' \<and>
     length rids = n \<and> length idss = n \<and> (\<forall>q < n. length (idss ! q) = length slots div 2) \<and>
     distinct (concat idss) \<and> ids_used db \<inter> set (concat idss) = {} \<and>
     set (concat idss) \<subseteq> ids_used db' \<and>
     (\<forall>q < n. \<forall>i < length slots div 2. rows (matches db') (idss ! q ! i) =
        (case round_robin_spec ((rotate_slots ^^ q) slots) i of
           (a, b, st) \<Rightarrow> Some (new_match tid (rids ! q) i a b st))) \<and>
     (\<forall>k. k \<notin> set (concat idss) \<longrightarrow> rows (matches db') k = rows (matches db) k)"

lemma round_robin_rounds_built:
  assumes "db_ok db" and "slots \<noteq> []"
  shows "\<exists>idss rids db'. round_robin_rounds tid now r n slots db = (Inr (), db') \<and>
    rr_built tid slots n idss rids db db'"
  using assms
proof (induction n arbitrary: r slots db)
  case 0
  then show ?case by (auto simp: rr_built_def ret_def)
next
  case (Suc n)
  let ?rid = "fresh_id db" and ?row = "round_row tid (r + 1) StageMain now"
  let ?h = "length slots div 2"
  let ?db1 = "db\<lparr>id_count := Suc (id_count db), rounds := t_create ?rid ?row (rounds db)\<rparr>"
  have step: "create_tournament_round tid (r + 1) StageMain now db = (Inr (?rid, ?row), ?db1)"
    by (simp add: create_tournament_round_def Let_def round_row_def)
  have ok1: "db_ok ?db1" by (rule db_ok_create(3) [OF Suc.prems(1)])
  have used1: "ids_used ?db1 = insert ?rid (ids_used db)" by (simp add: ids_used_Suc)
  from create_round_matches_added [OF ok1] obtain ids db2 where
    mts: "create_round_matches tid ?rid (map (round_robin_spec slots) [0..<?h]) ?db1 = (Inr ids, db2)"
    and len: "length ids = ?h"
    and add: "added ids (round_rows tid ?rid (List.enumerate 0 (map (round_robin_spec slots) [0..<?h]))) ?db1 db2"
    by fastforce
  then have ok2: "db_ok db2" by (simp add: added_def)
  have rot: "rotate_slots slots \<noteq> []" "length (rotate_slots slots) = length slots"
    using Suc.prems(2) length_rotate_slots by fastforce+
  from Suc.IH [OF ok2 rot(1)] obtain idss rids db' where
    rest: "round_robin_rounds tid now (r + 1) n (rotate_slots slots) db2 = (Inr (), db')"
    and built: "rr_built tid (rotate_slots slots) n idss rids db2 db'" by blast
  have run: "round_robin_rounds tid now r (Suc n) slots db = (Inr (), db')"
    using step mts rest by simp
  have used2: "ids_used db2 = insert ?rid (ids_used db) \<union> set ids" and dis: "distinct ids"
    and new: "set ids \<inter> insert ?rid (ids_used db) = {}"
    using add used1 by (auto simp: added_def)
  have sep: "set ids \<inter> set (concat idss) = {}" using built used2 by (auto simp: rr_built_def)
  have here: "rows (matches db') (ids ! i) =
      (case round_robin_spec slots i of (a, b, st) \<Rightarrow> Some (new_match tid ?rid i a b st))" if i: "i < ?h" for i
  proof -
    have "ids ! i \<notin> set (concat idss)" using sep i len by (metis disjoint_iff nth_mem)
    then have "rows (matches db') (ids ! i) = rows (matches db2) (ids ! i)"
      using built by (simp add: rr_built_def)
    also have "\<dots> = Some (round_rows tid ?rid (List.enumerate 0 (map (round_robin_spec slots) [0..<?h])) ! i)"
      using added_row [OF add, of i] i len by simp
    finally show ?thesis using i by (simp add: round_rows_def nth_enumerate_eq split: prod.splits)
  qed
  have later: "rows (matches db') (idss ! q ! i) =
      (case round_robin_spec ((rotate_slots ^^ Suc q) slots) i of
         (a, b, st) \<Rightarrow> Some (new_match tid (rids ! q) i a b st))" if "q < n" "i < ?h" for q i
    using built that rot(2) by (simp add: rr_built_def funpow_swap1)
  have "rr_built tid slots (Suc n) (ids # idss) (?rid # rids) db db'"
    using built add used2 dis new sep here later len rot(2) fresh_not_used [OF Suc.prems(1)]
    unfolding rr_built_def
    by (intro conjI) (auto simp: nth_Cons added_def same_frame_def less_Suc_eq_0_disj map_add_dom_app_simps
        split: nat.splits)
  with run show ?case by blast
qed

lemma rr_entry_met:
  assumes "round_robin_spec ((rotate_slots ^^ r) slots) i = (a, b, st)"
  shows "{a, b} = met slots (r, i)" and "st = (if a = None \<or> b = None then MatchBye else MatchPending)"
  using assms by (auto simp: round_robin_spec_def met_def split: prod.splits)

lemma rr_slots:
  assumes "2 \<le> length ids" and "distinct ids"
  shows "even (length (round_robin_slots ids))" and "distinct (round_robin_slots ids)"
    and "round_robin_slots ids \<noteq> []" and "a \<in> set ids \<Longrightarrow> Some a \<in> set (round_robin_slots ids)"
  using assms by (auto simp: round_robin_slots_def distinct_map odd_iff_mod_2_eq_one [symmetric])

lemma rr_built_unique:
  assumes built: "rr_built tid slots (length slots - 1) idss rids db db'"
    and clean: "\<forall>k m. rows (matches db) k = Some m \<longrightarrow> ma_tournament_id m \<noteq> tid"
    and slots: "even (length slots)" "distinct slots" and uv: "u \<in> set slots" "v \<in> set slots" "u \<noteq> v"
  shows "\<exists>!mid. \<exists>m. rows (matches db') mid = Some m \<and> ma_tournament_id m = tid \<and>
    {ma_participant_a_id m, ma_participant_b_id m} = {u, v}"
proof -
  have ne: "slots \<noteq> []" using uv(1) by auto
  from circle_complete [OF slots(1) uv] obtain r i where
    ri: "r < length slots - 1" "i < length slots div 2" "met slots (r, i) = {u, v}"
    by (auto simp: games_def)
  have entry: "\<exists>m. rows (matches db') (idss ! q ! j) = Some m \<and> ma_tournament_id m = tid \<and>
      {ma_participant_a_id m, ma_participant_b_id m} = met slots (q, j)"
    if "q < length slots - 1" "j < length slots div 2" for q j
  proof -
    obtain a b st where e: "round_robin_spec ((rotate_slots ^^ q) slots) j = (a, b, st)" by (metis prod_cases3)
    then have "rows (matches db') (idss ! q ! j) = Some (new_match tid (rids ! q) j a b st)"
      using built that by (simp add: rr_built_def)
    with rr_entry_met(1) [OF e] show ?thesis by simp
  qed
  show ?thesis
  proof (rule ex1I [of _ "idss ! r ! i"])
    show "\<exists>m. rows (matches db') (idss ! r ! i) = Some m \<and> ma_tournament_id m = tid \<and>
        {ma_participant_a_id m, ma_participant_b_id m} = {u, v}"
      using entry [OF ri(1,2)] ri(3) by metis
  next
    fix mid assume mid: "\<exists>m. rows (matches db') mid = Some m \<and> ma_tournament_id m = tid \<and>
        {ma_participant_a_id m, ma_participant_b_id m} = {u, v}"
    have "mid \<in> set (concat idss)"
    proof (rule ccontr)
      assume "mid \<notin> set (concat idss)"
      then have "rows (matches db') mid = rows (matches db) mid" using built by (simp add: rr_built_def)
      with mid clean show False by auto
    qed
    then obtain row where "row \<in> set idss" "mid \<in> set row" by auto
    then obtain q j where qj: "q < length idss" "j < length (idss ! q)" "mid = idss ! q ! j"
      by (metis in_set_conv_nth)
    then have bounds: "q < length slots - 1" "j < length slots div 2" using built by (auto simp: rr_built_def)
    then have "met slots (q, j) = met slots (r, i)"
      using entry [OF bounds] mid qj(3) ri(3) by auto
    then have "(q, j) = (r, i)"
      using circle_once [OF slots(2,1) ne] bounds ri(1,2) by (auto simp: inj_on_def games_def)
    then show "mid = idss ! r ! i" using qj(3) by simp
  qed
qed



end
