(* ===== verification/SwissRounds.thy ===== *)
theory SwissRounds
  imports BracketBuild "HOL-Library.Product_Lexorder"
begin

text \<open>
  Swiss tournaments, \<open>get_swiss_standings\<close> and \<open>generate_swiss_round\<close> of
  \<open>crates/db/src/queries/tournaments.rs\<close>. The counters are \<open>u32\<close>; the Buchholz sum, an \<open>f64\<close> sum
  of \<open>u32\<close> values, is a natural number here (exact in \<open>f64\<close> up to \<open>2 ^ 53\<close>).
\<close>

record swiss_standing =
  sw_participant_id :: string
  sw_participant_name :: string
  sw_wins :: "32 word"
  sw_losses :: "32 word"
  sw_draws :: "32 word"
  sw_game_wins :: "32 word"
  sw_game_losses :: "32 word"
  sw_buchholz :: nat
  sw_rank :: "32 word"

definition score_or_zero :: "32 word option \<Rightarrow> 32 word" where
  "score_or_zero s = (case s of None \<Rightarrow> 0 | Some n \<Rightarrow> n)"

definition plays_in :: "string \<Rightarrow> db_match \<Rightarrow> bool" where
  "plays_in pid m \<longleftrightarrow> ma_participant_a_id m = Some pid \<or> ma_participant_b_id m = Some pid"

text \<open>One pass of the inner loop over the completed matches.\<close>

definition tally :: "string \<Rightarrow> db_match \<Rightarrow> swiss_standing \<Rightarrow> swiss_standing" where
  "tally pid m s =
     (let is_a = ma_participant_a_id m = Some pid; is_b = ma_participant_b_id m = Some pid in
      if \<not> is_a \<and> \<not> is_b then s
      else
        let (my_score, their_score) =
              (if is_a then (score_or_zero (ma_score_a m), score_or_zero (ma_score_b m))
               else (score_or_zero (ma_score_b m), score_or_zero (ma_score_a m)));
            s = s\<lparr>sw_game_wins := sw_game_wins s + my_score,
                  sw_game_losses := sw_game_losses s + their_score\<rparr>
        in if ma_winner_id m = Some pid then s\<lparr>sw_wins := sw_wins s + 1\<rparr>
           else if ma_winner_id m \<noteq> None then s\<lparr>sw_losses := sw_losses s + 1\<rparr>
           else s\<lparr>sw_draws := sw_draws s + 1\<rparr>)"

definition first_standing :: "db_match list \<Rightarrow> string \<times> db_participant \<Rightarrow> swiss_standing" where
  "first_standing completed pr =
     (case pr of (pid, p) \<Rightarrow>
        fold (tally pid) completed
          \<lparr>sw_participant_id = pid,
           sw_participant_name = (case pt_external_name p of Some n \<Rightarrow> n
             | None \<Rightarrow> (case pt_team_id p of Some t \<Rightarrow> t | None \<Rightarrow> ''TBD'')),
           sw_wins = 0, sw_losses = 0, sw_draws = 0, sw_game_wins = 0, sw_game_losses = 0,
           sw_buchholz = 0, sw_rank = 0\<rparr>)"

definition opponent :: "string \<Rightarrow> db_match \<Rightarrow> string option" where
  "opponent pid m =
     (if ma_participant_a_id m = Some pid then ma_participant_b_id m
      else if ma_participant_b_id m = Some pid then ma_participant_a_id m
      else None)"

text \<open>The sum of the wins of the opponents.\<close>

definition buchholz :: "db_match list \<Rightarrow> swiss_standing list \<Rightarrow> string \<Rightarrow> nat" where
  "buchholz completed standings pid =
     sum_list (map (\<lambda>m.
         case opponent pid m of None \<Rightarrow> 0
         | Some oid \<Rightarrow>
             (case find (\<lambda>s. sw_participant_id s = oid) standings of
                None \<Rightarrow> 0 | Some opp \<Rightarrow> unat (sw_wins opp))) completed)"

text \<open>The comparison of the sort, largest first: wins, then Buchholz, then game difference.\<close>

definition standing_key :: "swiss_standing \<Rightarrow> int \<times> int \<times> int" where
  "standing_key s =
     (- uint (sw_wins s), - int (sw_buchholz s), uint (sw_game_losses s) - uint (sw_game_wins s))"

definition assign_ranks :: "swiss_standing list \<Rightarrow> swiss_standing list" where
  "assign_ranks ss = map (\<lambda>(i, s). s\<lparr>sw_rank := of_nat (i + 1)\<rparr>) (List.enumerate 0 ss)"

definition get_swiss_standings :: "string \<Rightarrow> tdb \<Rightarrow> swiss_standing list" where
  "get_swiss_standings tid db =
     (let completed = filter (\<lambda>m. ma_status_of m = MatchCompleted) (map snd (list_tournament_matches tid db));
          standings = map (first_standing completed) (list_tournament_participants tid db);
          standings = map (\<lambda>s. s\<lparr>sw_buchholz := buchholz completed standings (sw_participant_id s)\<rparr>) standings
      in assign_ranks (sort_key standing_key standings))"

subsection \<open>Pairing\<close>

text \<open>\<open>pair.sort()\<close> of two strings.\<close>

definition sorted_pair :: "string \<Rightarrow> string \<Rightarrow> string \<times> string" where
  "sorted_pair a b = (if a \<le> b then (a, b) else (b, a))"

definition previous_pairings :: "db_match list \<Rightarrow> (string \<times> string) set" where
  "previous_pairings ms =
     set (concat (map (\<lambda>m.
       case (ma_participant_a_id m, ma_participant_b_id m) of
         (Some a, Some b) \<Rightarrow> [sorted_pair a b] | _ \<Rightarrow> []) ms))"

lemma find_SomeD: "find P xs = Some x \<Longrightarrow> x \<in> set xs \<and> P x"
  by (auto simp: find_Some_iff)

lemma find_NoneD: "find P xs = None \<Longrightarrow> x \<in> set xs \<Longrightarrow> \<not> P x"
  by (simp add: find_None_iff)

text \<open>
  The pairing loop on the list of available participants: the first one meets the next it has not
  met, or the very next when it has met them all; a single one left over has a bye.
\<close>

function swiss_pairs :: "(string \<times> string) set \<Rightarrow> string list \<Rightarrow> (string \<times> string option) list" where
  "swiss_pairs prev [] = []"
| "swiss_pairs prev [a] = [(a, None)]"
| "swiss_pairs prev (a # c # rest) =
     (case find (\<lambda>b. sorted_pair a b \<notin> prev) (c # rest) of
        Some b \<Rightarrow> (a, Some b) # swiss_pairs prev (remove1 b (c # rest))
      | None \<Rightarrow> (a, Some c) # swiss_pairs prev rest)"
  by pat_completeness auto
termination
proof (relation "measure (length \<circ> snd)")
  fix prev :: "(string \<times> string) set" and a c b :: string and rest
  assume "find (\<lambda>b. sorted_pair a b \<notin> prev) (c # rest) = Some b"
  then have "b \<in> set (c # rest)" using find_SomeD by fastforce
  then show "((prev, remove1 b (c # rest)), prev, a # c # rest) \<in> measure (length \<circ> snd)"
    by (auto simp: length_remove1)
qed auto

definition swiss_spec :: "string \<times> string option \<Rightarrow> match_spec" where
  "swiss_spec p =
     (case p of (a, b) \<Rightarrow> (Some a, b, if b = None then MatchBye else MatchPending))"

definition generate_swiss_round :: "string \<Rightarrow> instant \<Rightarrow> (string \<times> db_round) db_op" where
  "generate_swiss_round tid now db =
     (let round_number = length (list_tournament_rounds tid db) + 1;
          standings = get_swiss_standings tid db;
          prev = previous_pairings (map snd (list_tournament_matches tid db))
      in and_then (create_tournament_round tid round_number StageMain now) (\<lambda>(rid, row).
         and_then (create_round_matches tid rid
             (map swiss_spec (swiss_pairs prev (map sw_participant_id standings)))) (\<lambda>_.
           ret (rid, row))) db)"

subsection \<open>What the pairing promises\<close>

definition players :: "(string \<times> string option) list \<Rightarrow> string list" where
  "players ps = concat (map (\<lambda>(a, b). a # (case b of None \<Rightarrow> [] | Some b \<Rightarrow> [b])) ps)"

lemma players_simps [simp]:
  "players [] = []"
  "players ((a, None) # ps) = a # players ps"
  "players ((a, Some b) # ps) = a # b # players ps"
  "players (ps @ qs) = players ps @ players qs"
  by (simp_all add: players_def)

lemma swiss_pairs_perm: "mset (players (swiss_pairs prev xs)) = mset xs"
proof (induction prev xs rule: swiss_pairs.induct)
  case (3 prev a c rest)
  show ?case
  proof (cases "find (\<lambda>b. sorted_pair a b \<notin> prev) (c # rest)")
    case None
    with 3(1) [OF None] show ?thesis by simp
  next
    case (Some b)
    then have "b \<in> set (c # rest)" using find_SomeD by fastforce
    then have "mset (c # rest) = add_mset b (mset (remove1 b (c # rest)))" by auto
    with 3(2) [OF Some] Some show ?thesis by simp
  qed
qed simp_all

lemma swiss_pairs_rematch:
  "swiss_pairs prev xs = ps @ (a, Some b) # qs \<Longrightarrow> sorted_pair a b \<in> prev \<Longrightarrow> c \<in> set (players qs) \<Longrightarrow>
     sorted_pair a c \<in> prev"
proof (induction prev xs arbitrary: ps rule: swiss_pairs.induct)
  case (3 prev x y rest)
  show ?case
  proof (cases "find (\<lambda>b. sorted_pair x b \<notin> prev) (y # rest)")
    case None
    show ?thesis
    proof (cases ps)
      case Nil
      with 3(3) None have eq: "a = x" "qs = swiss_pairs prev rest" by simp_all
      then have "c \<in> set rest" using 3(5) swiss_pairs_perm [of prev rest] by (metis set_mset_mset)
      with find_NoneD [OF None, of c] eq(1) show ?thesis by simp
    next
      case (Cons p ps')
      with 3 None show ?thesis by auto
    qed
  next
    case (Some z)
    show ?thesis
    proof (cases ps)
      case Nil
      with 3(3) Some have "a = x" "b = z" by simp_all
      with find_SomeD [OF Some] 3(4) show ?thesis by simp
    next
      case (Cons p ps')
      with 3 Some show ?thesis by auto
    qed
  qed
qed (auto simp: Cons_eq_append_conv)

lemma swiss_pairs_bye: "(a, None) \<in> set (swiss_pairs prev xs) \<Longrightarrow> odd (length xs)"
proof (induction prev xs rule: swiss_pairs.induct)
  case (3 prev x y rest)
  show ?case
  proof (cases "find (\<lambda>b. sorted_pair x b \<notin> prev) (y # rest)")
    case None
    with 3 show ?thesis by simp
  next
    case (Some z)
    then have "z \<in> set (y # rest)" using find_SomeD by fastforce
    then have "length (remove1 z (y # rest)) = length rest"
      using length_remove1 [of z "y # rest"] by (simp del: remove1.simps)
    with 3(2) [OF Some] 3(3) Some show ?thesis by (simp del: remove1.simps find.simps)
  qed
qed simp_all

subsection \<open>What the standings promise\<close>

definition counted :: "string \<Rightarrow> db_match list \<Rightarrow> nat" where
  "counted pid ms = length (filter (plays_in pid) ms)"

lemma tally_counts:
  "sw_participant_id (fold (tally pid) ms s) = sw_participant_id s \<and>
   sw_wins (fold (tally pid) ms s) + sw_losses (fold (tally pid) ms s) + sw_draws (fold (tally pid) ms s) =
     sw_wins s + sw_losses s + sw_draws s + of_nat (counted pid ms)"
proof (induction ms arbitrary: s)
  case (Cons m ms)
  show ?case
    using Cons.IH [of "tally pid m s"]
    by (auto simp: tally_def Let_def counted_def plays_in_def split: prod.splits)
qed (simp add: counted_def)

lemma wins_count:
  "sw_wins (fold (tally pid) ms s) =
     sw_wins s + of_nat (length (filter (\<lambda>m. plays_in pid m \<and> ma_winner_id m = Some pid) ms))"
proof (induction ms arbitrary: s)
  case (Cons m ms)
  show ?case
    using Cons.IH [of "tally pid m s"]
    by (auto simp: tally_def Let_def plays_in_def split: prod.splits)
qed simp

definition completed_matches :: "string \<Rightarrow> tdb \<Rightarrow> db_match list" where
  "completed_matches tid db =
     filter (\<lambda>m. ma_status_of m = MatchCompleted) (map snd (list_tournament_matches tid db))"

lemma standing_key_rank [simp]: "standing_key (s\<lparr>sw_rank := r\<rparr>) = standing_key s"
  by (simp add: standing_key_def)

lemma map_assign_ranks:
  assumes "\<And>s r. f (s\<lparr>sw_rank := r\<rparr>) = f s"
  shows "map f (assign_ranks ss) = map f ss"
  unfolding assign_ranks_def by (rule nth_equalityI) (simp_all add: nth_enumerate_eq assms)

lemma nth_assign_ranks: "i < length ss \<Longrightarrow> assign_ranks ss ! i = (ss ! i)\<lparr>sw_rank := of_nat (i + 1)\<rparr>"
  by (simp add: assign_ranks_def nth_enumerate_eq)

lemma length_assign_ranks [simp]: "length (assign_ranks ss) = length ss"
  by (simp add: assign_ranks_def)

lemma ranks_assigned: "map sw_rank (assign_ranks ss) = map of_nat [1..<Suc (length ss)]"
  by (rule nth_equalityI) (simp_all add: nth_assign_ranks del: upt_Suc)

text \<open>The standings before sorting.\<close>

definition raw_standings :: "string \<Rightarrow> tdb \<Rightarrow> swiss_standing list" where
  "raw_standings tid db =
     (let ms = completed_matches tid db;
          st = map (first_standing ms) (list_tournament_participants tid db)
      in map (\<lambda>s. s\<lparr>sw_buchholz := buchholz ms st (sw_participant_id s)\<rparr>) st)"

lemma get_swiss_standings_raw:
  "get_swiss_standings tid db = assign_ranks (sort_key standing_key (raw_standings tid db))"
  by (simp add: get_swiss_standings_def raw_standings_def completed_matches_def Let_def)

lemma first_standing_id: "sw_participant_id (first_standing ms pr) = fst pr"
  using tally_counts by (simp add: first_standing_def split: prod.splits)

lemma swiss_standings_ids:
  "mset (map sw_participant_id (get_swiss_standings tid db)) =
     mset (map fst (list_tournament_participants tid db))"
proof -
  have "map sw_participant_id (get_swiss_standings tid db) =
      map sw_participant_id (sort_key standing_key (raw_standings tid db))"
    unfolding get_swiss_standings_raw by (rule map_assign_ranks) simp
  then have "mset (map sw_participant_id (get_swiss_standings tid db)) =
      mset (map sw_participant_id (raw_standings tid db))"
    by (simp only: mset_map mset_sort)
  also have "map sw_participant_id (raw_standings tid db) = map fst (list_tournament_participants tid db)"
    by (simp add: raw_standings_def Let_def first_standing_id)
  finally show ?thesis .
qed

text \<open>
  The standings are a ranking. They hold every participant of the tournament once, sorted
  by wins, then Buchholz, then game difference, largest first, with the ranks 1, 2, .. in that order;
  and each participant's wins, losses and draws add up to the completed matches it played (in \<open>u32\<close>
  arithmetic).
\<close>

theorem swiss_standings_ranked:
  "mset (map sw_participant_id (get_swiss_standings tid db)) =
     mset (map fst (list_tournament_participants tid db)) \<and>
   sorted (map standing_key (get_swiss_standings tid db)) \<and>
   map sw_rank (get_swiss_standings tid db) =
     map of_nat [1..<Suc (length (get_swiss_standings tid db))] \<and>
   list_all (\<lambda>s. sw_wins s + sw_losses s + sw_draws s =
       of_nat (counted (sw_participant_id s) (completed_matches tid db))) (get_swiss_standings tid db)"
proof -
  let ?st = "sort_key standing_key (raw_standings tid db)"
  note st = get_swiss_standings_raw [of tid db]
  have "map standing_key (get_swiss_standings tid db) = map standing_key ?st"
    unfolding st by (rule map_assign_ranks) simp
  then have "sorted (map standing_key (get_swiss_standings tid db))" by simp
  moreover have "map sw_rank (get_swiss_standings tid db) =
      map of_nat [1..<Suc (length (get_swiss_standings tid db))]"
    unfolding st by (simp only: ranks_assigned length_assign_ranks)
  moreover have "sw_wins s + sw_losses s + sw_draws s =
      of_nat (counted (sw_participant_id s) (completed_matches tid db))"
    if s: "s \<in> set (get_swiss_standings tid db)" for s
  proof -
    let ?f = "\<lambda>s. sw_wins s + sw_losses s + sw_draws s =
      of_nat (counted (sw_participant_id s) (completed_matches tid db))"
    have "?f (first_standing (completed_matches tid db) pr)" for pr
      using tally_counts by (cases pr) (simp add: first_standing_def)
    then have raw: "\<forall>x \<in> set (raw_standings tid db). ?f x" by (auto simp: raw_standings_def Let_def)
    obtain i where i: "i < length ?st" "s = (?st ! i)\<lparr>sw_rank := of_nat (i + 1)\<rparr>"
      using s nth_assign_ranks [of _ ?st] unfolding st by (metis in_set_conv_nth length_assign_ranks)
    have "?st ! i \<in> set (raw_standings tid db)" using i(1) by (metis nth_mem set_sort)
    with raw i(2) show ?thesis by auto
  qed
  ultimately show ?thesis using swiss_standings_ids by (simp add: list_all_iff)
qed

subsection \<open>A generated round\<close>

lemma swiss_round_created:
  fixes tid :: string
  assumes "db_ok db"
  defines "prev \<equiv> previous_pairings (map snd (list_tournament_matches tid db))"
  defines "ps \<equiv> swiss_pairs prev (map sw_participant_id (get_swiss_standings tid db))"
  shows "\<exists>rid row ids db'. generate_swiss_round tid now db = (Inr (rid, row), db') \<and> db_ok db' \<and>
    rid \<notin> ids_used db \<and> distinct ids \<and> length ids = length ps \<and> set ids \<inter> ids_used db = {} \<and>
    (\<forall>i < length ps. rows (matches db') (ids ! i) =
       (case swiss_spec (ps ! i) of (a, b, st) \<Rightarrow> Some (new_match tid rid i a b st))) \<and>
    (\<forall>k. k \<notin> set ids \<longrightarrow> rows (matches db') k = rows (matches db) k)"
proof -
  let ?rid = "fresh_id db" and ?n = "length (list_tournament_rounds tid db) + 1"
  let ?row = "round_row tid ?n StageMain now"
  let ?db1 = "db\<lparr>id_count := Suc (id_count db), rounds := t_create ?rid ?row (rounds db)\<rparr>"
  let ?specs = "map swiss_spec ps"
  have step: "create_tournament_round tid ?n StageMain now db = (Inr (?rid, ?row), ?db1)"
    by (simp add: create_tournament_round_def Let_def round_row_def)
  have used1: "ids_used ?db1 = insert ?rid (ids_used db)" by (simp add: ids_used_Suc)
  from create_round_matches_added [OF db_ok_create(3) [OF assms(1)]] obtain ids db2 where
    mts: "create_round_matches tid ?rid ?specs ?db1 = (Inr ids, db2)" "length ids = length ?specs"
    and add: "added ids (round_rows tid ?rid (List.enumerate 0 ?specs)) ?db1 db2" by metis
  have gen: "generate_swiss_round tid now db = (Inr (?rid, ?row), db2)"
    using step mts(1) by (simp add: generate_swiss_round_def Let_def prev_def ps_def) (simp add: ret_def)
  have row: "rows (matches db2) (ids ! i) =
      (case swiss_spec (ps ! i) of (a, b, st) \<Rightarrow> Some (new_match tid ?rid i a b st))" if "i < length ps" for i
    using added_row [OF add, of i] that mts(2)
    by (simp add: round_rows_def nth_enumerate_eq split: prod.splits)
  have other: "rows (matches db2) k = rows (matches db) k" if "k \<notin> set ids" for k
  proof -
    have "k \<notin> dom (map_of (zip ids (round_rows tid ?rid (List.enumerate 0 ?specs))))"
      using that by (auto dest: map_of_SomeD set_zip_leftD)
    then show ?thesis using add by (simp add: added_def map_add_dom_app_simps)
  qed
  show ?thesis
    using gen add used1 mts(2) row other fresh_not_used [OF assms(1)]
    by (intro exI [of _ ?rid] exI [of _ ?row] exI [of _ ids] exI [of _ db2]) (auto simp: added_def)
qed



end
