(* ===== verification/DoubleElim.thy ===== *)
theory DoubleElim
  imports BracketBuild
begin

text \<open>
  \<open>generate_double_elim_bracket\<close> of \<open>crates/db/src/queries/tournaments.rs\<close>: a winners bracket, a losers
  bracket with twice as many rounds less two, and a grand final. The index computations of the
  wiring loops are definitions of their own; \<open>advance_to\<close> is the whole wiring seen from a match.
\<close>

subsection \<open>The generator\<close>

text \<open>Matches per losers round: the count halves, rounded up, after every odd round.\<close>

fun losers_counts :: "nat \<Rightarrow> nat \<Rightarrow> nat \<Rightarrow> nat list" where
  "losers_counts 0 r c = []"
| "losers_counts (Suc n) r c =
     c # losers_counts n (r + 1) (if r mod 2 = 1 then max ((c + 1) div 2) 1 else c)"

text \<open>Where the loser of match \<open>i\<close> of winners round \<open>r\<close> drops to, for \<open>w\<close> winners and \<open>l\<close> losers rounds.\<close>

definition loser_target :: "nat \<Rightarrow> nat \<Rightarrow> nat \<Rightarrow> nat \<Rightarrow> nat \<times> nat \<times> string" where
  "loser_target w l r i =
     (if r = 0 then (0, i div 2, slot_of i)
      else if r + 1 = w then (l - 1, 0, ''a'')
      else (2 * r - 1, i, ''a''))"

text \<open>Where the winner of match \<open>i\<close> of losers round \<open>r\<close> goes within the next losers round.\<close>

definition losers_next :: "nat \<Rightarrow> nat \<Rightarrow> nat \<times> string" where
  "losers_next r i = (if r mod 2 = 0 then (i, ''b'') else (i div 2, slot_of i))"

definition drop_losers :: "nat \<Rightarrow> string list list \<Rightarrow> string list list \<Rightarrow> nat \<Rightarrow> unit db_op" where
  "drop_losers w w_ids l_ids r =
     for_each (\<lambda>(i, mid).
         case loser_target w (length l_ids) r i of (lr, li, slot) \<Rightarrow>
           if lr < length l_ids \<and> li < length (l_ids ! lr)
           then update_match_loser_next mid (l_ids ! lr ! li) slot else ret ())
       (List.enumerate 0 (w_ids ! r))"

definition wire_losers :: "string list list \<Rightarrow> nat \<Rightarrow> unit db_op" where
  "wire_losers l_ids r =
     for_each (\<lambda>(i, mid).
         case losers_next r i of (next_idx, slot) \<Rightarrow>
           if r + 1 < length l_ids \<and> next_idx < length (l_ids ! (r + 1))
           then update_match_next mid (l_ids ! (r + 1) ! next_idx) slot else ret ())
       (List.enumerate 0 (l_ids ! r))"

text \<open>\<open>v.last().and_then(|v| v.first())\<close>.\<close>

definition last_first :: "'a list list \<Rightarrow> 'a option" where
  "last_first xss =
     (if xss = [] then None else case last xss of [] \<Rightarrow> None | x # _ \<Rightarrow> Some x)"

definition wire_double_elim :: "nat \<Rightarrow> string list list \<Rightarrow> string list list \<Rightarrow> string \<Rightarrow> unit db_op" where
  "wire_double_elim w w_ids l_ids gf =
     and_then (if 1 < w then for_each (wire_next w_ids) [0..<w - 1] else ret ()) (\<lambda>_.
     and_then
       (if l_ids = [] then
          (case w_ids of (mid # _) # _ \<Rightarrow> update_match_loser_next mid gf ''b'' | _ \<Rightarrow> ret ())
        else for_each (drop_losers w w_ids l_ids) [0..<w]) (\<lambda>_.
     and_then (for_each (wire_losers l_ids) [0..<length l_ids - 1]) (\<lambda>_.
     and_then (case last_first w_ids of Some m \<Rightarrow> update_match_next m gf ''a'' | None \<Rightarrow> ret ()) (\<lambda>_.
       (case last_first l_ids of Some m \<Rightarrow> update_match_next m gf ''b'' | None \<Rightarrow> ret ())))))"

definition generate_double_elim_bracket :: "string \<Rightarrow> instant \<Rightarrow> unit db_op" where
  "generate_double_elim_bracket tid now db =
     (let ids = map fst (list_tournament_participants tid db); n = length ids in
      if n < 2 then fail NeedTwoParticipants db
      else
        let shape = double_elim_shape n; first = first_round_matches shape; w = w_rounds shape;
            ordered = double_elim_seeded_slots ids (bracket_size shape)
        in and_then (delete_tournament_bracket tid) (\<lambda>_.
        and_then (create_round_ids tid StageWinners now [1..<w + 1]) (\<lambda>w_round_ids.
        and_then (create_round_ids tid StageLosers now [1..<l_round_count shape + 1]) (\<lambda>l_round_ids.
        and_then (create_tournament_round tid 1 StageGrandFinal now) (\<lambda>(gf_round, _).
        and_then (create_rounds tid
            ((w_round_ids ! 0, map (first_round_spec ordered) [0..<first]) #
             map (\<lambda>r. (w_round_ids ! r, replicate (first div 2 ^ r) open_match)) [1..<w])) (\<lambda>w_ids.
        and_then (create_rounds tid
            (map (\<lambda>(r, c). (l_round_ids ! r, replicate c open_match))
              (List.enumerate 0 (losers_counts (l_round_count shape) 0 (max (first div 2) 1))))) (\<lambda>l_ids.
        and_then (create_tournament_match tid gf_round 0 None None MatchPending None None None None) (\<lambda>(gf, _).
        and_then (wire_double_elim w w_ids l_ids gf) (\<lambda>_.
          for_each advance_bye (w_ids ! 0))))))))) db)"

subsection \<open>The wiring as a map on the bracket\<close>

datatype place = InWinners nat nat | InLosers nat nat | InFinal

datatype exit = WinnerOf place | LoserOf place

text \<open>Where a player leaves to, by the index computations above, for \<open>k\<close> winners rounds.\<close>

fun advance_to :: "nat \<Rightarrow> exit \<Rightarrow> place \<times> string" where
  "advance_to k (WinnerOf (InWinners r i)) =
     (if r + 1 < k then (InWinners (r + 1) (i div 2), slot_of i) else (InFinal, ''a''))"
| "advance_to k (WinnerOf (InLosers r i)) =
     (if r + 1 < 2 * (k - 1) then (case losers_next r i of (j, slot) \<Rightarrow> (InLosers (r + 1) j, slot))
      else (InFinal, ''b''))"
| "advance_to k (LoserOf (InWinners r i)) =
     (case loser_target k (2 * (k - 1)) r i of (lr, li, slot) \<Rightarrow> (InLosers lr li, slot))"
| "advance_to k _ = (InFinal, [])"

definition winners_size :: "nat \<Rightarrow> nat \<Rightarrow> nat" where
  "winners_size k r = 2 ^ (k - 1 - r)"

definition losers_size :: "nat \<Rightarrow> nat \<Rightarrow> nat" where
  "losers_size k r = 2 ^ (k - 2 - r div 2)"

text \<open>Everybody who leaves a match: winners and losers of the winners bracket, winners of the losers one.\<close>

definition exits :: "nat \<Rightarrow> exit set" where
  "exits k =
     {e. \<exists>r i. r < k \<and> i < winners_size k r \<and> (e = WinnerOf (InWinners r i) \<or> e = LoserOf (InWinners r i))} \<union>
     {e. \<exists>r i. r < 2 * (k - 1) \<and> i < losers_size k r \<and> e = WinnerOf (InLosers r i)}"

text \<open>The slots that have to be filled: all but those of the first winners round.\<close>

definition open_slots :: "nat \<Rightarrow> (place \<times> string) set" where
  "open_slots k =
     ({p. \<exists>r i. 0 < r \<and> r < k \<and> i < winners_size k r \<and> p = InWinners r i} \<union>
      {p. \<exists>r i. r < 2 * (k - 1) \<and> i < losers_size k r \<and> p = InLosers r i} \<union> {InFinal}) \<times> {''a'', ''b''}"

definition slot_index :: "string \<Rightarrow> nat" where
  "slot_index s = (if s = ''a'' then 0 else 1)"

text \<open>The converse: who comes to a slot.\<close>

fun comes_from :: "nat \<Rightarrow> place \<times> string \<Rightarrow> exit" where
  "comes_from k (InWinners r i, s) = WinnerOf (InWinners (r - 1) (2 * i + slot_index s))"
| "comes_from k (InLosers r i, s) =
     (if r = 0 then LoserOf (InWinners 0 (2 * i + slot_index s))
      else if r mod 2 = 1 then
        (if s = ''a'' then LoserOf (InWinners ((r + 1) div 2) i) else WinnerOf (InLosers (r - 1) i))
      else WinnerOf (InLosers (r - 1) (2 * i + slot_index s)))"
| "comes_from k (InFinal, s) =
     (if s = ''a'' then WinnerOf (InWinners (k - 1) 0) else WinnerOf (InLosers (2 * (k - 1) - 1) 0))"

lemma losers_counts_size:
  assumes "2 \<le> k" and "r + n = 2 * (k - 1)" and "c = losers_size k r"
  shows "length (losers_counts n r c) = n \<and> (\<forall>j < n. losers_counts n r c ! j = losers_size k (r + j))"
  using assms(2,3)
proof (induction n arbitrary: r c)
  case (Suc n)
  have next_c: "(if r mod 2 = 1 then max ((c + 1) div 2) 1 else c) = losers_size k (r + 1)" if "0 < n"
  proof (cases "r mod 2 = 1")
    case True
    then obtain q where r: "r = 2 * q + 1" by (metis oddE odd_iff_mod_2_eq_one)
    then have "k - 2 - r div 2 = Suc (k - 2 - (r + 1) div 2)" using Suc.prems(1) that by simp
    then have "c = 2 * losers_size k (r + 1)" using Suc.prems(2) by (simp add: losers_size_def)
    then show ?thesis using True by (simp add: losers_size_def)
  next
    case False
    then have "r div 2 = (r + 1) div 2" by presburger
    with False Suc.prems(2) show ?thesis by (simp add: losers_size_def)
  qed
  show ?case
  proof (cases n)
    case 0
    then show ?thesis using Suc.prems by simp
  next
    case (Suc m)
    then have pos: "0 < n" by simp
    from Suc.IH [of "r + 1" "losers_size k (r + 1)"] Suc.prems show ?thesis
      using next_c [OF pos] by (auto simp: less_Suc_eq_0_disj)
  qed
qed simp

subsection \<open>Every slot is filled exactly once\<close>

lemma winners_size_Suc: "r + 1 < k \<Longrightarrow> winners_size k r = 2 * winners_size k (r + 1)"
  unfolding winners_size_def by (metis Suc_diff_Suc Suc_eq_plus1 diff_Suc_eq_diff_pred less_diff_conv power_Suc)

lemma winners_size_last: "0 < k \<Longrightarrow> winners_size k (k - 1) = 1"
  by (simp add: winners_size_def)

lemma losers_size_0: "2 \<le> k \<Longrightarrow> winners_size k 0 = 2 * losers_size k 0"
  unfolding winners_size_def losers_size_def
  by (metis Suc_1 Suc_diff_Suc Suc_le_lessD div_0 diff_zero numeral_2_eq_2 One_nat_def power_Suc)

lemma losers_size_odd: "2 * q + 1 < 2 * (k - 1) \<Longrightarrow> losers_size k (2 * q + 1) = winners_size k (q + 1)"
  by (simp add: losers_size_def winners_size_def)

lemma losers_size_even: "losers_size k (2 * q + 1) = losers_size k (2 * q)"
  by (simp add: losers_size_def)

lemma losers_size_step: "2 * q + 2 < 2 * (k - 1) \<Longrightarrow> losers_size k (2 * q + 1) = 2 * losers_size k (2 * q + 2)"
proof -
  assume "2 * q + 2 < 2 * (k - 1)"
  then have "k - 2 - q = Suc (k - 2 - (q + 1))" by linarith
  then show ?thesis by (simp add: losers_size_def)
qed

lemma slot_index_of [simp]: "slot_index (slot_of i) = i mod 2"
  by (auto simp: slot_index_def slot_of_def)

lemma slot_of_double:
  "slot_of (2 * i + slot_index s) = (if s = ''a'' then ''a'' else ''b'')"
  "(2 * i + slot_index s) div 2 = i"
  by (auto simp: slot_index_def slot_of_def)

lemma slot_index_less: "i < n \<Longrightarrow> 2 * i + slot_index s < 2 * n"
  by (simp add: slot_index_def)

lemma slot_of_mem [simp]: "slot_of i \<in> {''a'', ''b''}"
  by (simp add: slot_of_def)

lemma two_le_obtain:
  fixes k :: nat
  assumes "2 \<le> k" obtains m where "k = Suc (Suc m)"
proof
  show "k = Suc (Suc (k - 2))" using assms by simp
qed

lemma leave_winners:
  assumes k: "2 \<le> k" and r: "r < k" and i: "i < winners_size k r"
  shows "advance_to k (WinnerOf (InWinners r i)) \<in> open_slots k \<and>
    comes_from k (advance_to k (WinnerOf (InWinners r i))) = WinnerOf (InWinners r i)"
proof (cases "r + 1 < k")
  case True
  then have "i div 2 < winners_size k (r + 1)" using i winners_size_Suc [OF True] by linarith
  with True show ?thesis using slot_of_mem [of i] by (auto simp: open_slots_def)
next
  case False
  then have "r = k - 1" using r by simp
  moreover from this have "i = 0" using i winners_size_last [of k] k by simp
  ultimately show ?thesis using k by (simp add: open_slots_def)
qed

lemma leave_beaten:
  assumes k: "2 \<le> k" and r: "r < k" and i: "i < winners_size k r"
  shows "advance_to k (LoserOf (InWinners r i)) \<in> open_slots k \<and>
    comes_from k (advance_to k (LoserOf (InWinners r i))) = LoserOf (InWinners r i)"
proof -
  consider "r = 0" | "r \<noteq> 0" "r + 1 = k" | "r \<noteq> 0" "r + 1 < k" using r by linarith
  then show ?thesis
  proof cases
    case 1
    then have "i < 2 * losers_size k 0" using i losers_size_0 [OF k] by simp
    then have "i div 2 < losers_size k 0" by linarith
    with 1 k show ?thesis using slot_of_mem [of i] by (auto simp: open_slots_def loser_target_def)
  next
    case 2
    then have i0: "i = 0" using i winners_size_last [of k] k by auto
    obtain m where m: "k = Suc (Suc m)" by (rule two_le_obtain [OF k])
    have "losers_size k (2 * m + 1) = 1" by (simp add: losers_size_def m)
    with 2 i0 show ?thesis by (auto simp: open_slots_def loser_target_def m)
  next
    case 3
    then obtain q where q: "r = Suc q" by (cases r) auto
    then have "losers_size k (2 * q + 1) = winners_size k r" using 3 losers_size_odd [of q k] by simp
    with 3 i q show ?thesis by (auto simp: open_slots_def loser_target_def)
  qed
qed

lemma leave_losers:
  assumes k: "2 \<le> k" and r: "r < 2 * (k - 1)" and i: "i < losers_size k r"
  shows "advance_to k (WinnerOf (InLosers r i)) \<in> open_slots k \<and>
    comes_from k (advance_to k (WinnerOf (InLosers r i))) = WinnerOf (InLosers r i)"
proof -
  consider q where "r = 2 * q" "r + 1 < 2 * (k - 1)" | q where "r = 2 * q + 1" "r + 1 < 2 * (k - 1)"
    | "r + 1 = 2 * (k - 1)"
    using r by (metis Suc_eq_plus1 Suc_lessI oddE evenE)
  then show ?thesis
  proof cases
    case (1 q)
    with i losers_size_even [of k q] show ?thesis by (auto simp: open_slots_def losers_next_def)
  next
    case (2 q)
    then have "i div 2 < losers_size k (2 * q + 2)" using i losers_size_step [of q k] by simp
    with 2 show ?thesis using slot_of_mem [of i] by (auto simp: open_slots_def losers_next_def)
  next
    case 3
    obtain m where m: "k = Suc (Suc m)" by (rule two_le_obtain [OF k])
    with 3 have "r = 2 * m + 1" by simp
    with i m have "i = 0" by (simp add: losers_size_def)
    with 3 m \<open>r = 2 * m + 1\<close> show ?thesis by (auto simp: open_slots_def)
  qed
qed

lemma enter_winners:
  assumes "0 < r" "r < k" "i < winners_size k r" and s: "s \<in> {''a'', ''b''}"
  shows "comes_from k (InWinners r i, s) \<in> exits k \<and>
    advance_to k (comes_from k (InWinners r i, s)) = (InWinners r i, s)"
proof -
  obtain q where q: "r = Suc q" using assms(1) by (cases r) auto
  then have "2 * i + slot_index s < winners_size k q"
    using assms winners_size_Suc [of q k] slot_index_less by simp
  with q assms(2) s slot_of_double [of i s] show ?thesis by (auto simp: exits_def)
qed

lemma enter_losers:
  assumes k: "2 \<le> k" and r: "r < 2 * (k - 1)" and i: "i < losers_size k r" and s: "s \<in> {''a'', ''b''}"
  shows "comes_from k (InLosers r i, s) \<in> exits k \<and>
    advance_to k (comes_from k (InLosers r i, s)) = (InLosers r i, s)"
proof -
  consider "r = 0" | q where "r = 2 * q + 1" | q where "r = 2 * q + 2"
    by (metis add_2_eq_Suc' evenE mult_Suc_right not0_implies_Suc oddE add.commute mult_0_right)
  then show ?thesis
  proof cases
    case 1
    then have "2 * i + slot_index s < winners_size k 0"
      using i losers_size_0 [OF k] slot_index_less by simp
    with 1 k s slot_of_double [of i s] show ?thesis by (auto simp: exits_def loser_target_def)
  next
    case (2 q)
    then have size: "i < winners_size k (q + 1)" using i r losers_size_odd [of q k] by simp
    show ?thesis
    proof (cases "s = ''a''")
      case True
      have "q + 1 < k" using 2 r by linarith
      moreover have "i = 0" if "q + 2 = k" using size that by (auto simp: winners_size_def)
      ultimately show ?thesis using 2 True size by (auto simp: exits_def loser_target_def)
    next
      case False
      then have "s = ''b''" using s by simp
      with 2 i r losers_size_even [of k q] show ?thesis by (auto simp: exits_def losers_next_def)
    qed
  next
    case (3 q)
    then have "2 * i + slot_index s < losers_size k (2 * q + 1)"
      using i r losers_size_step [of q k] slot_index_less by simp
    with 3 r s slot_of_double [of i s] show ?thesis by (auto simp: exits_def losers_next_def)
  qed
qed

lemma enter_final:
  assumes k: "2 \<le> k" and s: "s \<in> {''a'', ''b''}"
  shows "comes_from k (InFinal, s) \<in> exits k \<and> advance_to k (comes_from k (InFinal, s)) = (InFinal, s)"
proof -
  obtain m where m: "k = Suc (Suc m)" by (rule two_le_obtain [OF k])
  have exit: "WinnerOf (InWinners (Suc m) 0) \<in> exits k" "WinnerOf (InLosers (2 * m + 1) 0) \<in> exits k"
    by (simp_all add: exits_def m winners_size_def losers_size_def)
  show ?thesis
  proof (cases "s = ''a''")
    case True
    with exit show ?thesis by (simp add: m)
  next
    case False
    then have "s = ''b''" using s by simp
    with exit show ?thesis by (simp add: m)
  qed
qed

lemma exitsE:
  assumes "e \<in> exits k"
  obtains r i where "r < k" "i < winners_size k r" "e = WinnerOf (InWinners r i)"
  | r i where "r < k" "i < winners_size k r" "e = LoserOf (InWinners r i)"
  | r i where "r < 2 * (k - 1)" "i < losers_size k r" "e = WinnerOf (InLosers r i)"
  using assms unfolding exits_def by blast

lemma open_slotsE:
  assumes "p \<in> open_slots k"
  obtains r i s where "0 < r" "r < k" "i < winners_size k r" "s \<in> {''a'', ''b''}" "p = (InWinners r i, s)"
  | r i s where "r < 2 * (k - 1)" "i < losers_size k r" "s \<in> {''a'', ''b''}" "p = (InLosers r i, s)"
  | s where "s \<in> {''a'', ''b''}" "p = (InFinal, s)"
proof -
  have slot: "snd p \<in> {''a'', ''b''}"
    using assms by (simp only: open_slots_def mem_Times_iff)
  have "fst p \<in> {p. \<exists>r i. 0 < r \<and> r < k \<and> i < winners_size k r \<and> p = InWinners r i} \<union>
      {p. \<exists>r i. r < 2 * (k - 1) \<and> i < losers_size k r \<and> p = InLosers r i} \<union> {InFinal}"
    using assms by (simp only: open_slots_def mem_Times_iff)
  then show thesis
  proof (elim UnE CollectE exE conjE singletonE)
    fix r i assume "0 < r" "r < k" "i < winners_size k r" "fst p = InWinners r i"
    then show thesis using slot by (intro that(1) [of r i "snd p"]) (auto intro: prod_eqI)
  next
    fix r i assume "r < 2 * (k - 1)" "i < losers_size k r" "fst p = InLosers r i"
    then show thesis using slot by (intro that(2) [of r i "snd p"]) (auto intro: prod_eqI)
  next
    assume "fst p = InFinal"
    then show thesis using slot by (intro that(3) [of "snd p"]) (auto intro: prod_eqI)
  qed
qed

lemma leave_exits:
  assumes "2 \<le> k" "e \<in> exits k"
  shows "advance_to k e \<in> open_slots k \<and> comes_from k (advance_to k e) = e"
  using assms(2)
proof (cases rule: exitsE)
  case 1
  with leave_winners [OF assms(1)] show ?thesis by blast
next
  case 2
  with leave_beaten [OF assms(1)] show ?thesis by blast
next
  case 3
  with leave_losers [OF assms(1)] show ?thesis by blast
qed

lemma enter_open:
  assumes "2 \<le> k" "p \<in> open_slots k"
  shows "comes_from k p \<in> exits k \<and> advance_to k (comes_from k p) = p"
  using assms(2)
proof (cases rule: open_slotsE)
  case 1
  with enter_winners [of _ k] show ?thesis by blast
next
  case 2
  with enter_losers [OF assms(1)] show ?thesis by blast
next
  case 3
  with enter_final [OF assms(1)] show ?thesis by blast
qed



end
