(* ===== verification/SiteAuth.thy ===== *)
theory SiteAuth
  imports OrgRoles
begin

text \<open>
  The member extractors of the site server, \<open>crates/site-server/src/extractors.rs\<close>: \<open>OrgMember\<close>,
  \<open>OptionalOrgMember\<close>, \<open>OfficerUser\<close>, \<open>AdminUser\<close>. The session check (\<open>AuthUser\<close>) gives a rejection or
  a user id, and the member lookup of the database gives an error, nothing, or a member with its suspension
  flag; both are arguments here.
\<close>

text \<open>A rejection: status code and the \<open>error\<close> field of the body.\<close>

datatype http_error = Status nat string

record site_member =
  mb_id :: string
  mb_role :: org_role
  mb_is_active :: bool

record caller =
  auth_user :: "http_error + string"
  member_lookup :: "string \<Rightarrow> unit + (site_member \<times> bool) option"

definition org_member :: "caller \<Rightarrow> http_error + site_member" where
  "org_member c =
     (case auth_user c of
        Inl e \<Rightarrow> Inl e
      | Inr user_id \<Rightarrow>
          (case member_lookup c user_id of
             Inl _ \<Rightarrow> Inl (Status 500 ''Internal error'')
           | Inr None \<Rightarrow> Inl (Status 403 ''Not an org member'')
           | Inr (Some (m, suspended)) \<Rightarrow>
               if \<not> mb_is_active m then Inl (Status 403 ''Membership inactive'')
               else if suspended then Inl (Status 403 ''Account suspended'')
               else Inr m))"

definition optional_org_member :: "caller \<Rightarrow> site_member option" where
  "optional_org_member c = (case org_member c of Inr m \<Rightarrow> Some m | Inl _ \<Rightarrow> None)"

definition officer_user :: "caller \<Rightarrow> http_error + site_member" where
  "officer_user c =
     (case org_member c of
        Inl e \<Rightarrow> Inl e
      | Inr m \<Rightarrow> if \<not> is_at_least (mb_role m) Officer then Inl (Status 403 ''Officer access required'')
                else Inr m)"

definition admin_user :: "caller \<Rightarrow> http_error + site_member" where
  "admin_user c =
     (case org_member c of
        Inl e \<Rightarrow> Inl e
      | Inr m \<Rightarrow> if mb_role m \<noteq> Admin then Inl (Status 403 ''Admin access required'') else Inr m)"

subsection \<open>Who gets through\<close>

lemma org_member_iff:
  "org_member c = Inr m \<longleftrightarrow>
     (\<exists>uid. auth_user c = Inr uid \<and> member_lookup c uid = Inr (Some (m, False)) \<and> mb_is_active m)"
  by (auto simp: org_member_def split: sum.splits option.splits if_splits)

lemma officer_user_iff:
  "officer_user c = Inr m \<longleftrightarrow> org_member c = Inr m \<and> Officer \<le> mb_role m"
  by (auto simp: officer_user_def is_at_least_le split: sum.splits if_splits)

lemma admin_user_iff: "admin_user c = Inr m \<longleftrightarrow> org_member c = Inr m \<and> mb_role m = Admin"
  by (auto simp: admin_user_def split: sum.splits if_splits)

lemma admin_is_officer: "admin_user c = Inr m \<Longrightarrow> officer_user c = Inr m"
  by (simp add: admin_user_iff officer_user_iff less_eq_org_role_def)

text \<open>
  The role gates. An officer route is entered only by the signed-in user's own member
  record, found without a database error, active, not suspended, and with the role officer or admin; the
  admin routes only by admins, who all pass the officer gate; everybody else is turned away with 403, 500 or
  the rejection of the session check.
\<close>

theorem role_gates:
  "(officer_user c = Inr m \<longleftrightarrow>
      (\<exists>uid. auth_user c = Inr uid \<and> member_lookup c uid = Inr (Some (m, False)) \<and> mb_is_active m \<and>
         mb_role m \<in> {Officer, Admin})) \<and>
   (admin_user c = Inr m \<longleftrightarrow> officer_user c = Inr m \<and> mb_role m = Admin) \<and>
   (case officer_user c of Inl e \<Rightarrow> auth_user c = Inl e \<or> (\<exists>msg. e = Status 403 msg \<or> e = Status 500 msg)
    | Inr m' \<Rightarrow> optional_org_member c = Some m')"
proof (intro conjI)
  have role: "Officer \<le> r \<longleftrightarrow> r \<in> {Officer, Admin}" for r :: org_role
    by (cases r) (simp_all add: less_eq_org_role_def)
  show "officer_user c = Inr m \<longleftrightarrow>
      (\<exists>uid. auth_user c = Inr uid \<and> member_lookup c uid = Inr (Some (m, False)) \<and> mb_is_active m \<and>
         mb_role m \<in> {Officer, Admin})"
    unfolding officer_user_iff org_member_iff role by blast
  show "admin_user c = Inr m \<longleftrightarrow> officer_user c = Inr m \<and> mb_role m = Admin"
    unfolding officer_user_iff admin_user_iff role by blast
  show "case officer_user c of Inl e \<Rightarrow> auth_user c = Inl e \<or> (\<exists>msg. e = Status 403 msg \<or> e = Status 500 msg)
    | Inr m' \<Rightarrow> optional_org_member c = Some m'"
    by (auto simp: officer_user_def org_member_def optional_org_member_def split: sum.splits option.splits if_splits)
qed

end
