(* ===== verification/SiteAudit.thy ===== *)
theory SiteAudit
  imports Tables
begin

text \<open>
  The audit log of the site server: \<open>audit\<close> of \<open>crates/site-server/src/routes/audit_log.rs\<close>, with the
  range of actions and targets of \<open>crates/db/src/types.rs\<close> that the modelled routes write from. The write is taken not
  to fail; in the code a failure is only logged.
\<close>

datatype audit_action =
    AcceptedApplication | RejectedApplication | WithdrawnApplication | StartedTrialApplication
  | ChangedRole | UpdatedMember | DeactivatedMember | AddedToRoster | UpdatedRosterRole | RemovedFromRoster
  | RecordedMatch | UpdatedMatch | CreatedAnnouncement | UpdatedAnnouncement | DeletedAnnouncement
  | CreatedPoll | DeletedPoll | CreatedModerationAction | LiftedModerationAction | UpdatedSettings
  | CreatedTournament | UpdatedTournament | ChangedTournamentStatus | GeneratedBracket
  | AddedTournamentParticipant | RemovedTournamentParticipant | ReportedTournamentMatch
  | CreatedDaemonToken | RevokedDaemonToken | DeniedDeviceLink

datatype audit_target =
    TargetGame | TargetTeam | TargetMember | TargetEvent | TargetApplication | TargetRoster | TargetMatch
  | TargetAnnouncement | TargetPoll | TargetModeration | TargetSettings
  | TargetTournament | TargetTournamentParticipant | TargetTournamentMatch | TargetDaemonToken

record audit_entry =
  au_actor :: string
  au_action :: audit_action
  au_target_type :: audit_target
  au_target_id :: string
  au_details :: "string option"

record logged =
  audit_log :: "audit_entry list"

definition audit :: "string \<Rightarrow> audit_action \<Rightarrow> audit_target \<Rightarrow> string \<Rightarrow> string option \<Rightarrow> ('s logged_scheme, 'e, unit) op" where
  "audit actor action target_type target_id details s =
     (Inr (), s\<lparr>audit_log := audit_log s @
        [\<lparr>au_actor = actor, au_action = action, au_target_type = target_type,
          au_target_id = target_id, au_details = details\<rparr>]\<rparr>)"

text \<open>The UTF-8 bytes of an arrow between two blanks.\<close>

definition arrow :: string where
  "arrow = [CHR 0x20, CHR 0xE2, CHR 0x86, CHR 0x92, CHR 0x20]"

end
