(* ===== verification/MatchReport.thy ===== *)
theory MatchReport
  imports TournamentDb
begin

text \<open>
  Reporting a match: the guards and the compare-and-set of \<open>report_tournament_match\<close>
  (\<open>crates/db/src/queries/tournaments.rs\<close>), and the interleavings of the database statements that write the
  match table.
\<close>

definition is_participant :: "db_match \<Rightarrow> string \<Rightarrow> bool" where
  "is_participant m p \<longleftrightarrow>
     Some p = map_option trim (ma_participant_a_id m) \<or> Some p = map_option trim (ma_participant_b_id m)"

text \<open>What a report must satisfy, from the documentation of the function: DB-001, DB-009, DB-004.\<close>

definition reportable :: "db_match \<Rightarrow> 32 word \<Rightarrow> 32 word \<Rightarrow> string \<Rightarrow> bool" where
  "reportable m score_a score_b winner \<longleftrightarrow>
     winner \<noteq> [] \<and> is_participant m winner \<and>
     (if Some winner = map_option trim (ma_participant_a_id m) then score_b < score_a else score_a < score_b) \<and>
     ma_status m = ''pending''"

definition reported_row ::
  "db_match \<Rightarrow> 32 word \<Rightarrow> 32 word \<Rightarrow> string \<Rightarrow> string option \<Rightarrow> string list \<Rightarrow> instant \<Rightarrow> db_match" where
  "reported_row m score_a score_b winner nts codes now =
     m\<lparr>ma_score_a := Some score_a, ma_score_b := Some score_b, ma_winner_id := Some winner,
       ma_status := ''completed'', ma_completed_at := Some now, ma_replay_codes := codes,
       ma_notes := (case nts of None \<Rightarrow> ma_notes m | Some n \<Rightarrow> Some n)\<rparr>"

lemma report_success:
  assumes "rows (matches db) mid = Some m" and "reportable m sa sb (trim w)"
  shows "report_tournament_match mid sa sb w nts codes now db =
    (Inr (mid, reported_row m sa sb (trim w) nts codes now),
     put_match mid (reported_row m sa sb (trim w) nts codes now) db)"
  using assms
  by (cases "Some (trim w) = map_option trim (ma_participant_a_id m)")
     (simp_all add: report_tournament_match_def check_report_def commit_report_def reportable_def is_participant_def reported_row_def
       winner_scores_def Let_def not_le)

lemma report_failure:
  assumes "\<not> (\<exists>m. rows (matches db) mid = Some m \<and> reportable m sa sb (trim w))"
  shows "\<exists>e. report_tournament_match mid sa sb w nts codes now db = (Inl e, db)"
  using assms
  by (auto simp: report_tournament_match_def check_report_def commit_report_def reportable_def is_participant_def winner_scores_def Let_def
      not_le split: option.splits)

text \<open>
  What a report does. It succeeds exactly when the match exists, the trimmed winner is one
  of its two participants, the winner's score is strictly the greater one and the match is still pending;
  then only that match changes, it is completed with that winner and those scores, and its
  participants and pointers stay. A refused report leaves the database as it was.
\<close>

theorem report_decision:
  "((\<exists>r. fst (report_tournament_match mid sa sb w nts codes now db) = Inr r) \<longleftrightarrow>
      (\<exists>m. rows (matches db) mid = Some m \<and> reportable m sa sb (trim w))) \<and>
   snd (report_tournament_match mid sa sb w nts codes now db) =
     (case rows (matches db) mid of
        Some m \<Rightarrow> if reportable m sa sb (trim w)
                  then put_match mid (reported_row m sa sb (trim w) nts codes now) db else db
      | None \<Rightarrow> db)"
proof (cases "\<exists>m. rows (matches db) mid = Some m \<and> reportable m sa sb (trim w)")
  case True
  then obtain m where m: "rows (matches db) mid = Some m" "reportable m sa sb (trim w)" by blast
  then show ?thesis using report_success [OF m, of nts codes now] by simp
next
  case False
  with report_failure [OF False, of nts codes now] show ?thesis by (auto split: option.splits)
qed

lemma report_tournament_match_cases:
  obtains (ok) m where "rows (matches db) mid = Some m" "reportable m sa sb (trim w)"
      "report_tournament_match mid sa sb w nts codes now db =
         (Inr (mid, reported_row m sa sb (trim w) nts codes now),
          put_match mid (reported_row m sa sb (trim w) nts codes now) db)"
  | (refused) e where "report_tournament_match mid sa sb w nts codes now db = (Inl e, db)"
  using report_success report_failure by metis

subsection \<open>Interleavings\<close>

text \<open>
  One database statement that writes the match table, of any request. The checks of a report only
  read, so a report shows up as its \<open>commit_report\<close>, with whatever winner and scores passed the checks at
  some earlier moment.
\<close>

datatype match_op =
    CommitOp string "32 word" "32 word" string "string option" "string list" instant
  | SlotOp string string string
  | NextOp string string string
  | LoserNextOp string string string
  | CreateOp string string nat "string option" "string option" match_status
  | DeleteOp string

text \<open>The id of the match a step reported successfully, if it did.\<close>

fun match_op_step :: "match_op \<Rightarrow> tdb \<Rightarrow> string option \<times> tdb" where
  "match_op_step (CommitOp mid sa sb w nts codes now) db =
     (case commit_report mid sa sb w nts codes now db of
        (Inr _, db') \<Rightarrow> (Some mid, db') | (Inl _, db') \<Rightarrow> (None, db'))"
| "match_op_step (SlotOp mid slot p) db = (None, snd (set_match_participant mid slot p db))"
| "match_op_step (NextOp mid nxt slot) db = (None, snd (update_match_next mid nxt slot db))"
| "match_op_step (LoserNextOp mid nxt slot) db = (None, snd (update_match_loser_next mid nxt slot db))"
| "match_op_step (CreateOp tid rid pos a b st) db =
     (None, snd (create_tournament_match tid rid pos a b st None None None None db))"
| "match_op_step (DeleteOp tid) db = (None, snd (delete_tournament_bracket tid db))"

fun reports :: "match_op list \<Rightarrow> tdb \<Rightarrow> string list" where
  "reports [] db = []"
| "reports (x # xs) db =
     (case match_op_step x db of (r, db') \<Rightarrow> (case r of None \<Rightarrow> [] | Some mid \<Rightarrow> [mid]) @ reports xs db')"

text \<open>The id has been handed out, and no pending match has it.\<close>

definition settled :: "string \<Rightarrow> tdb \<Rightarrow> bool" where
  "settled mid db \<longleftrightarrow>
     db_ok db \<and> mid \<in> ids_used db \<and> (\<forall>m. rows (matches db) mid = Some m \<longrightarrow> ma_status m \<noteq> ''pending'')"

lemma commit_report_cases:
  obtains (ok) m where "rows (matches db) mid = Some m" "ma_status m = ''pending''"
      "commit_report mid sa sb w nts codes now db =
         (Inr (mid, reported_row m sa sb w nts codes now),
          put_match mid (reported_row m sa sb w nts codes now) db)"
  | (refused) e where "commit_report mid sa sb w nts codes now db = (Inl e, db)"
proof (cases "\<exists>m. rows (matches db) mid = Some m \<and> ma_status m = ''pending''")
  case True
  then show thesis by (auto simp: commit_report_def reported_row_def Let_def intro: ok)
next
  case False
  then have "commit_report mid sa sb w nts codes now db = (Inl (MatchNotPending mid), db)"
    by (auto simp: commit_report_def split: option.splits)
  then show thesis by (rule refused)
qed

lemma ids_used_put_match [simp]: "ids_used (put_match rid m db) = ids_used db"
  by (simp add: ids_used_def put_match_def)

lemma row_used: "db_ok db \<Longrightarrow> rows (matches db) mid = Some m \<Longrightarrow> mid \<in> ids_used db"
  by (auto simp: db_ok_def)

lemma db_ok_step: "db_ok db \<Longrightarrow> match_op_step x db = (r, db') \<Longrightarrow> db_ok db'"
proof (cases x)
  case (CommitOp mid sa sb w nts codes now)
  assume ok: "db_ok db" and st: "match_op_step x db = (r, db')"
  show ?thesis
    by (rule commit_report_cases [of db mid sa sb w nts codes now])
       (use CommitOp ok st db_ok_put_match in auto)
next
  case (CreateOp tid rid pos a b st)
  assume ok: "db_ok db" and step: "match_op_step x db = (r, db')"
  with CreateOp show ?thesis
    using db_ok_create(4) [OF ok] by (auto simp: create_tournament_match_def Let_def)
qed (auto simp: set_match_participant_def update_match_next_def update_match_loser_next_def
       split: option.splits if_splits intro!: db_ok_put_match dest: db_ok_delete_bracket)

lemma settled_step:
  assumes "settled mid db" and "match_op_step x db = (r, db')"
  shows "settled mid db' \<and> r \<noteq> Some mid"
proof -
  from assms(1) have ok: "db_ok db" and used: "mid \<in> ids_used db"
    and no: "\<And>m. rows (matches db) mid = Some m \<Longrightarrow> ma_status m \<noteq> ''pending''"
    by (auto simp: settled_def)
  have ok': "db_ok db'" by (rule db_ok_step [OF ok assms(2)])
  show ?thesis
  proof (cases x)
    case (CommitOp mid' sa sb w nts codes now)
    show ?thesis
    proof (rule commit_report_cases [of db mid' sa sb w nts codes now], goal_cases)
      case (1 m')
      then have "mid' \<noteq> mid" using no by auto
      with 1 CommitOp assms(2) no used ok' show ?thesis by (auto simp: settled_def) (auto simp: put_match_def)
    next
      case (2 e)
      with CommitOp assms show ?thesis by auto
    qed
  next
    case (CreateOp tid rid pos a b st)
    have "fresh_id db \<noteq> mid" using fresh_not_used [OF ok] used by auto
    with CreateOp assms(2) no used ok' show ?thesis
      by (auto simp: settled_def create_tournament_match_def Let_def ids_used_Suc)
  next
    case (DeleteOp tid)
    with assms(2) no used ok' show ?thesis
      by (auto simp: settled_def delete_tournament_bracket_def split: option.splits if_splits)
  qed (use assms(2) no used ok' in \<open>auto simp: settled_def set_match_participant_def update_match_next_def
        update_match_loser_next_def put_match_def split: option.splits if_splits\<close>)
qed

lemma settled_reports: "settled mid db \<Longrightarrow> mid \<notin> set (reports xs db)"
proof (induction xs arbitrary: db)
  case (Cons x xs)
  obtain r db' where st: "match_op_step x db = (r, db')" by force
  from settled_step [OF Cons.prems st] Cons.IH [of db'] st show ?case by (auto split: option.splits)
qed simp


definition wit_report :: match_op where
  "wit_report = CommitOp [] 2 1 ''p'' None [] 0"


end
