(* ===== verification/SingleElim.thy ===== *)
theory SingleElim
  imports BracketBuild
begin

text \<open>
  \<open>generate_single_elim_bracket\<close> of \<open>crates/db/src/queries/tournaments.rs\<close> and the bracket it builds.
  \<open>single_elim_row\<close> is the specification: what match \<open>i\<close> of round \<open>r\<close> holds in the end.
\<close>

text \<open>The seeded slots: participants in listed order, byes behind them, placed by the seed order.\<close>

definition seeded_slots :: "string list \<Rightarrow> nat \<Rightarrow> string option list" where
  "seeded_slots ids sz =
     place_seeds sz (standard_seed_order sz) (map Some ids @ replicate (sz - length ids) None)"

definition single_elim_specs :: "string list \<Rightarrow> string list \<Rightarrow> (string \<times> match_spec list) list" where
  "single_elim_specs round_ids ids =
     (let sz = next_power_of_two (length ids); first = sz div 2; num_rounds = log2 sz
      in (round_ids ! 0, map (first_round_spec (seeded_slots ids sz)) [0..<first]) #
         map (\<lambda>r. (round_ids ! r, replicate (first div 2 ^ r) open_match)) [1..<num_rounds])"

definition generate_single_elim_bracket :: "string \<Rightarrow> instant \<Rightarrow> unit db_op" where
  "generate_single_elim_bracket tid now db =
     (let ids = map fst (list_tournament_participants tid db); n = length ids in
      if n < 2 then fail NeedTwoParticipants db
      else
        let num_rounds = log2 (next_power_of_two n) in
        and_then (delete_tournament_bracket tid) (\<lambda>_.
        and_then (create_round_ids tid StageMain now [1..<num_rounds + 1]) (\<lambda>round_ids.
        and_then (create_rounds tid (single_elim_specs round_ids ids)) (\<lambda>match_ids.
        and_then (for_each (wire_next match_ids) [0..<num_rounds - 1]) (\<lambda>_.
          for_each advance_bye (match_ids ! 0))))) db)"

subsection \<open>The bracket\<close>

text \<open>The participant that first-round match \<open>i\<close> sends on at once, if it is a bye.\<close>

definition bye_through :: "string option list \<Rightarrow> nat \<Rightarrow> string option" where
  "bye_through slots i =
     (if slots ! (i * 2) = None \<or> slots ! (i * 2 + 1) = None
      then (case slots ! (i * 2) of Some a \<Rightarrow> Some a | None \<Rightarrow> slots ! (i * 2 + 1)) else None)"

definition single_elim_entry :: "string option list \<Rightarrow> nat \<Rightarrow> nat \<Rightarrow> match_spec" where
  "single_elim_entry slots r i =
     (if r = 0 then first_round_spec slots i
      else if r = 1 then (bye_through slots (2 * i), bye_through slots (2 * i + 1), MatchPending)
      else open_match)"

definition single_elim_row ::
  "string \<Rightarrow> string list \<Rightarrow> string option list \<Rightarrow> string list list \<Rightarrow> nat \<Rightarrow> nat \<Rightarrow> db_match" where
  "single_elim_row tid rids slots idss r i =
     (case single_elim_entry slots r i of (a, b, status) \<Rightarrow>
        let m = new_match tid (rids ! r) i a b status
        in if Suc r < length idss then set_next (idss ! Suc r ! (i div 2)) (slot_of i) m else m)"

lemma single_elim_specs_rows:
  assumes "next_power_of_two (length ids) = 2 ^ Suc k"
  shows "length (single_elim_specs rids ids) = Suc k"
    and "r \<le> k \<Longrightarrow> length (snd (single_elim_specs rids ids ! r)) = 2 ^ (k - r)"
    and "r \<le> k \<Longrightarrow> fst (single_elim_specs rids ids ! r) = rids ! r"
    and "r \<le> k \<Longrightarrow> i < 2 ^ (k - r) \<Longrightarrow> snd (single_elim_specs rids ids ! r) ! i =
      (if r = 0 then first_round_spec (seeded_slots ids (2 ^ Suc k)) i else open_match)"
proof -
  have specs: "single_elim_specs rids ids =
      (rids ! 0, map (first_round_spec (seeded_slots ids (2 ^ Suc k))) [0..<2 ^ k]) #
        map (\<lambda>r. (rids ! r, replicate (2 ^ k div 2 ^ r) open_match)) [1..<Suc k]"
    by (simp only: single_elim_specs_def assms Let_def log2_power) simp
  show "length (single_elim_specs rids ids) = Suc k" by (simp add: specs)
  show "r \<le> k \<Longrightarrow> length (snd (single_elim_specs rids ids ! r)) = 2 ^ (k - r)"
    by (cases r) (simp_all add: specs power_diff del: upt_Suc)
  show "r \<le> k \<Longrightarrow> fst (single_elim_specs rids ids ! r) = rids ! r"
    by (cases r) (simp_all add: specs del: upt_Suc)
  show "r \<le> k \<Longrightarrow> i < 2 ^ (k - r) \<Longrightarrow> snd (single_elim_specs rids ids ! r) ! i =
      (if r = 0 then first_round_spec (seeded_slots ids (2 ^ Suc k)) i else open_match)"
    by (cases r) (simp_all add: specs power_diff del: upt_Suc)
qed

lemma set_next_fields [simp]:
  "ma_participant_a_id (set_next nxt slot m) = ma_participant_a_id m"
  "ma_participant_b_id (set_next nxt slot m) = ma_participant_b_id m"
  "ma_status_of (set_next nxt slot m) = ma_status_of m"
  "ma_tournament_id (set_next nxt slot m) = ma_tournament_id m"
  "ma_next_match_id (set_next nxt slot m) = Some nxt"
  "ma_next_match_slot (set_next nxt slot m) = Some slot"
  by (simp_all add: set_next_def ma_status_of_def)

lemma set_slot_next: "set_slot s p (set_next nxt slot m) = set_next nxt slot (set_slot s p m)"
  by (simp add: set_slot_def set_next_def)

lemma bye_change_next: "bye_change i src (set_next nxt slot m) = set_next nxt slot (bye_change i src m)"
  by (simp add: bye_change_def set_slot_next split: option.splits)

text \<open>Both byes of a pair of first-round matches, seen in the match they lead to.\<close>

lemma bye_changes:
  fixes slots :: "string option list" and tid rid rid' :: string
  defines "src \<equiv> \<lambda>i. case first_round_spec slots i of (a, b, st) \<Rightarrow> new_match tid rid i a b st"
  shows "bye_change (2 * i + 1) (src (2 * i + 1)) (bye_change (2 * i) (src (2 * i))
      (new_match tid rid' i None None MatchPending)) =
    new_match tid rid' i (bye_through slots (2 * i)) (bye_through slots (2 * i + 1)) MatchPending"
proof -
  have bye: "bye_change j (src j) m =
      (case bye_through slots j of None \<Rightarrow> m | Some w \<Rightarrow> set_slot (slot_of j) w m)" for j m
    by (auto simp: bye_change_def src_def first_round_spec_def Let_def is_bye_def bye_winner_def
        bye_through_def split: option.splits)
  show ?thesis
    by (auto simp: bye set_slot_def slot_of_def new_match_def split: option.splits)
qed

lemma bye_change_src [simp]: "bye_change i (set_next nxt slot src) m = bye_change i src m"
  by (simp add: bye_change_def is_bye_def bye_winner_def split: option.splits)

text \<open>The bracket of a tournament, stated on a database.\<close>

definition single_elim_built ::
  "string \<Rightarrow> string list \<Rightarrow> string list \<Rightarrow> string list list \<Rightarrow> tdb \<Rightarrow> tdb \<Rightarrow> bool" where
  "single_elim_built tid ids rids idss db db' \<longleftrightarrow>
     (let sz = next_power_of_two (length ids); R = log2 sz in
        db_ok db' \<and> tournaments db' = tournaments db \<and> participants db' = participants db \<and>
        length rids = R \<and> length idss = R \<and> (\<forall>r < R. length (idss ! r) = sz div 2 ^ (r + 1)) \<and>
        distinct (concat idss) \<and>
        (\<forall>r < R. \<forall>i < length (idss ! r). rows (matches db') (idss ! r ! i) =
           Some (single_elim_row tid rids (seeded_slots ids sz) idss r i)) \<and>
        (\<forall>k. k \<notin> set (concat idss) \<longrightarrow> rows (matches db') k =
           (case rows (matches db) k of None \<Rightarrow> None
            | Some m \<Rightarrow> if ma_tournament_id m = tid then None else Some m)))"

lemma single_elim_byes:
  assumes sz: "next_power_of_two (length ids) = 2 ^ Suc k" and k: "0 < k"
    and len: "length idss = Suc k" "\<And>r. r \<le> k \<Longrightarrow> length (idss ! r) = 2 ^ (k - r)"
    and dist: "distinct (concat idss)"
    and rows: "\<And>r i. r \<le> k \<Longrightarrow> i < 2 ^ (k - r) \<Longrightarrow> rows (matches db) (idss ! r ! i) =
      (case if r = 0 then first_round_spec (seeded_slots ids (2 ^ Suc k)) i else open_match of
         (a, b, st) \<Rightarrow> Some (wired idss k r i (new_match tid (rids ! r) i a b st)))"
  obtains db' where "for_each advance_bye (idss ! 0) db = (Inr (), db')" "same_records db db'"
    "\<And>r i. r \<le> k \<Longrightarrow> i < 2 ^ (k - r) \<Longrightarrow> rows (matches db') (idss ! r ! i) =
       Some (single_elim_row tid rids (seeded_slots ids (2 ^ Suc k)) idss r i)"
    "\<And>x. x \<notin> set (concat idss) \<Longrightarrow> rows (matches db') x = rows (matches db) x"
proof -
  let ?slots = "seeded_slots ids (2 ^ Suc k)"
  let ?raw = "\<lambda>i. case first_round_spec ?slots i of (a, b, st) \<Rightarrow> new_match tid (rids ! 0) i a b st"
  let ?src = "\<lambda>i. set_next (idss ! 1 ! (i div 2)) (slot_of i) (?raw i)"
  obtain xs ys rest where grid: "idss = xs # ys # rest"
    using len(1) k by (cases idss rule: remdups_adj.cases) auto
  have xs: "xs = idss ! 0" and ys: "ys = idss ! 1" using grid by simp_all
  have half: "length xs = 2 * length ys"
    using len(2) [of 0] len(2) [of 1] k xs ys by (cases k) simp_all
  have lenx: "length xs = 2 ^ k" using len(2) [of 0] xs by simp
  have src: "rows (matches db) (xs ! i) = Some (?src i) \<and>
      ma_next_match_id (?src i) = Some (ys ! (i div 2)) \<and> ma_next_match_slot (?src i) = Some (slot_of i)"
    if "i < length xs" for i
    using rows [of 0 i] that k xs ys lenx by (auto simp: wired_def split: prod.splits)
  have there: "set ys \<subseteq> dom (rows (matches db))"
  proof
    fix y assume "y \<in> set ys"
    then obtain i where "i < length ys" "y = ys ! i" by (auto simp: in_set_conv_nth)
    then show "y \<in> dom (rows (matches db))"
      using rows [of 1 i] len(2) [of 1] k ys by (auto split: prod.splits)
  qed
  have "distinct (xs @ ys)" using dist grid by auto
  from advance_byes [OF this half src there] obtain db' where
    run: "for_each advance_bye xs db = (Inr (), db')" and same: "same_records db db'"
    and new: "\<And>j. j < length ys \<Longrightarrow> rows (matches db') (ys ! j) =
       map_option (\<lambda>m. bye_change (2 * j + 1) (?src (2 * j + 1)) (bye_change (2 * j) (?src (2 * j)) m))
         (rows (matches db) (ys ! j))"
    and old: "\<And>x. x \<notin> set ys \<Longrightarrow> rows (matches db') x = rows (matches db) x" by blast
  have "rows (matches db') (idss ! r ! i) = Some (single_elim_row tid rids ?slots idss r i)"
    if "r \<le> k" "i < 2 ^ (k - r)" for r i
  proof (cases "r = 1")
    case True
    with that len(2) [of 1] ys have i: "i < length ys" by simp
    have "rows (matches db) (ys ! i) = Some (wired idss k 1 i (new_match tid (rids ! 1) i None None MatchPending))"
      using rows [of 1 i] that True ys by (simp add: open_match_def)
    with new [OF i] show ?thesis
      using True ys bye_changes [where slots = ?slots and tid = tid and rid = "rids ! 0" and rid' = "rids ! 1"
          and i = i] len(1)
      by (simp add: single_elim_row_def single_elim_entry_def Let_def wired_def bye_change_next)
  next
    case False
    have "idss ! r ! i \<notin> set ys"
    proof
      assume "idss ! r ! i \<in> set ys"
      then obtain j where "j < length (idss ! 1)" "idss ! r ! i = idss ! 1 ! j"
        using ys by (metis in_set_conv_nth)
      with grid_inject [OF dist, of r i 1 j] that len False k show False by simp
    qed
    with old rows [OF that] False len(1) show ?thesis
      by (simp add: single_elim_row_def single_elim_entry_def open_match_def wired_def Let_def
          split: prod.splits)
  qed
  moreover have "rows (matches db') x = rows (matches db) x" if "x \<notin> set (concat idss)" for x
    using old that grid by simp
  ultimately show thesis using that run same xs by blast
qed

lemma seeded_slots_eq: "seeded_slots = double_elim_seeded_slots"
  by (intro ext) (simp add: seeded_slots_def double_elim_seeded_slots_def)

lemma single_elim_two:
  assumes "length ids = 2"
  shows "single_elim_entry (seeded_slots ids 2) 0 0 = (Some (ids ! 0), Some (ids ! 1), MatchPending)"
proof -
  obtain a b where "ids = [a, b]" using assms by (metis (no_types) One_nat_def Suc_1 length_0_conv length_Suc_conv)
  moreover have "standard_seed_order 2 = [0, 1]" by code_simp
  ultimately show ?thesis
    by (simp add: single_elim_entry_def first_round_spec_def seeded_slots_def place_seeds_def Let_def
        numeral_2_eq_2)
qed

lemma single_elim_run:
  assumes ok: "db_ok db" and ids: "ids = map fst (list_tournament_participants tid db)" "2 \<le> length ids"
  shows "\<exists>rids idss db'. generate_single_elim_bracket tid now db = (Inr (), db') \<and>
    single_elim_built tid ids rids idss db db'"
proof -
  obtain k where k: "next_power_of_two (length ids) = 2 ^ Suc k" "length ids \<le> 2 ^ Suc k" "2 ^ k < length ids"
    by (rule next_power_of_two_cases [OF ids(2)])
  have R: "log2 (next_power_of_two (length ids)) = Suc k" unfolding k(1) by (rule log2_power)
  obtain d1 where del: "delete_tournament_bracket tid db = (Inr (), d1)"
    by (simp add: delete_tournament_bracket_def)
  note d1 = delete_bracket_rows [OF ok del]
  obtain rids d2 where rds: "create_round_ids tid StageMain now [1..<Suc k + 1] d1 = (Inr rids, d2)"
    and add: "rounds_added rids (map (\<lambda>n. round_row tid n StageMain now) [1..<Suc k + 1]) d1 d2"
    using create_round_ids_added [of d1] d1 by blast
  have rids: "length rids = Suc k" using add by (simp add: rounds_added_def)
  let ?specs = "single_elim_specs rids ids"
  note specs = single_elim_specs_rows [OF k(1), where rids = rids]
  obtain idss d3 where mts: "create_rounds tid ?specs d2 = (Inr idss, d3)"
    and crt: "created tid ?specs idss d2 d3"
    using create_rounds_created [of d2 tid ?specs] add by (auto simp: rounds_added_def)
  have len: "length idss = Suc k" and lens: "\<And>r. r \<le> k \<Longrightarrow> length (idss ! r) = 2 ^ (k - r)"
    using created_shape [OF crt] specs by simp_all
  have dist: "distinct (concat idss)" by (rule created_grid(1) [OF crt])
  have there: "set (concat idss) \<subseteq> dom (rows (matches d3))" using created_grid(4) [OF crt] by blast
  have "i div 2 < length (idss ! Suc r)" if "Suc r < length idss" "i < length (idss ! r)" for r i
    using that lens [of r] lens [of "Suc r"] len by (simp add: Suc_diff_Suc [symmetric] less_mult_imp_div_less)
  from wire_rounds [OF dist there this, of k] len obtain d4 where
    wire: "for_each (wire_next idss) [0..<k] d3 = (Inr (), d4)" and same4: "same_records d3 d4"
    and wired: "\<forall>r < Suc k. \<forall>i < length (idss ! r). rows (matches d4) (idss ! r ! i) =
      map_option (wired idss k r i) (rows (matches d3) (idss ! r ! i))"
    and out4: "\<forall>x. x \<notin> set (concat idss) \<longrightarrow> rows (matches d4) x = rows (matches d3) x" by auto
  have rows4: "rows (matches d4) (idss ! r ! i) =
      (case if r = 0 then first_round_spec (seeded_slots ids (2 ^ Suc k)) i else open_match of
         (a, b, st) \<Rightarrow> Some (wired idss k r i (new_match tid (rids ! r) i a b st)))"
    if "r \<le> k" "i < 2 ^ (k - r)" for r i
  proof -
    obtain a b st where e: "snd (?specs ! r) ! i = (a, b, st)" by (metis prod_cases3)
    then have "rows (matches d3) (idss ! r ! i) = Some (new_match tid (rids ! r) i a b st)"
      using created_row [OF crt, of r i] specs(1) specs(2,3) [of r] that by simp
    moreover have "rows (matches d4) (idss ! r ! i) =
        map_option (wired idss k r i) (rows (matches d3) (idss ! r ! i))"
      using wired that lens [of r] by simp
    ultimately show ?thesis unfolding specs(4) [OF that, symmetric] e by simp
  qed
  obtain d5 where byes: "for_each advance_bye (idss ! 0) d4 = (Inr (), d5)" and same5: "same_records d4 d5"
    and rows5: "\<And>r i. r \<le> k \<Longrightarrow> i < 2 ^ (k - r) \<Longrightarrow> rows (matches d5) (idss ! r ! i) =
       Some (single_elim_row tid rids (seeded_slots ids (2 ^ Suc k)) idss r i)"
    and out5: "\<And>x. x \<notin> set (concat idss) \<Longrightarrow> rows (matches d5) x = rows (matches d4) x"
  proof (cases "k = 0")
    case False
    then show thesis using single_elim_byes [OF k(1) _ len lens dist rows4] that by blast
  next
    case True
    then have two: "length ids = 2" using k by simp
    have "rows (matches d4) (idss ! 0 ! 0) = Some (single_elim_row tid rids (seeded_slots ids 2) idss 0 0)"
      using rows4 [of 0 0] True len single_elim_two [OF two]
      by (simp add: single_elim_row_def single_elim_entry_def wired_def split: prod.splits)
    moreover have "\<not> is_bye (single_elim_row tid rids (seeded_slots ids 2) idss 0 0)"
      using single_elim_two [OF two] True len by (simp add: single_elim_row_def is_bye_def)
    ultimately show thesis
      using that [of d4] advance_no_byes [of "idss ! 0" d4] lens [of 0] True
      by (auto simp: in_set_conv_nth)
  qed
  have gen: "generate_single_elim_bracket tid now db = (Inr (), d5)"
    using ids(2) del rds mts wire byes R
    by (simp add: generate_single_elim_bracket_def ids(1) Let_def)
  have frame: "db_ok d5" "tournaments d5 = tournaments db" "participants d5 = participants db"
    using same4 same5 created_grid(2,3) [OF crt] add d1
    by (auto simp: same_records_def same_frame_def rounds_added_def)
  have other: "rows (matches d5) x = (case rows (matches db) x of None \<Rightarrow> None
      | Some m \<Rightarrow> if ma_tournament_id m = tid then None else Some m)" if "x \<notin> set (concat idss)" for x
  proof -
    have "rows (matches d3) x = rows (matches d2) x"
    proof (cases "x \<in> dom (rows (matches d3))")
      case True
      then have "x \<in> dom (rows (matches d2))" using created_grid(4) [OF crt] that by blast
      then have "x \<in> ids_used d2" using add by (auto simp: rounds_added_def db_ok_def)
      then show ?thesis by (rule created_grid(5) [OF crt])
    next
      case False
      then have "x \<notin> dom (rows (matches d2))" unfolding created_grid(4) [OF crt] by simp
      with False show ?thesis by (simp add: domIff)
    qed
    then show ?thesis using out4 out5 that add d1 by (simp add: rounds_added_def)
  qed
  have half: "length (idss ! r) = 2 ^ Suc k div 2 ^ (r + 1)" if "r < Suc k" for r
    using lens [of r] that by (simp add: power_diff)
  have row: "rows (matches d5) (idss ! r ! i) =
       Some (single_elim_row tid rids (seeded_slots ids (2 ^ Suc k)) idss r i)"
    if "r < Suc k" "i < length (idss ! r)" for r i
    using rows5 [of r i] lens [of r] that by simp
  have "single_elim_built tid ids rids idss db d5"
    unfolding single_elim_built_def Let_def R unfolding k(1)
    by (intro conjI allI impI frame rids len dist half row other)
  with gen show ?thesis by blast
qed



end
