(* ===== verification/DbEffects.thy ===== *)
theory DbEffects
  imports SingleElim DoubleElim RoundRobin SwissRounds
begin

text \<open>
  What every tournament query and every generator does to the whole database: the invariant
  \<open>db_ok\<close> is kept, and only the queries on tournaments write the tournament table.
\<close>

interpretation db_kept: effect "\<lambda>db db'. db_ok db \<longrightarrow> db_ok db'"
  by unfold_locales auto

interpretation tournaments_kept: effect "\<lambda>db db'. tournaments db' = tournaments db"
  by unfold_locales auto

abbreviation keeps_db_ok :: "'a db_op \<Rightarrow> bool" where
  "keeps_db_ok \<equiv> relates (\<lambda>db db'. db_ok db \<longrightarrow> db_ok db')"

abbreviation keeps_tournaments :: "'a db_op \<Rightarrow> bool" where
  "keeps_tournaments \<equiv> relates (\<lambda>db db'. tournaments db' = tournaments db)"

lemmas query_defs =
  create_tournament_def update_tournament_def update_tournament_status_def
  add_tournament_participant_def update_tournament_participant_def remove_tournament_participant_def
  create_tournament_round_def update_round_status_def create_tournament_match_def
  report_tournament_match_def commit_report_def set_match_participant_def update_match_next_def
  update_match_loser_next_def delete_tournament_bracket_def

lemma db_ok_tables:
  assumes "db_ok db"
  shows "rows (tournaments db) rid \<noteq> None \<Longrightarrow> db_ok (db\<lparr>tournaments := t_update rid t (tournaments db)\<rparr>)"
    "rows (participants db) rid \<noteq> None \<Longrightarrow> db_ok (db\<lparr>participants := t_update rid p (participants db)\<rparr>)"
    "rows (rounds db) rid \<noteq> None \<Longrightarrow> db_ok (db\<lparr>rounds := t_update rid r (rounds db)\<rparr>)"
    "db_ok (db\<lparr>participants := t_delete rid (participants db)\<rparr>)"
  using assms by (auto simp: db_ok_def intro: table_ok_update)

lemma queries_keep_db_ok [effect_intros]:
  "keeps_db_ok (create_tournament name game fmt mt bo sr ext opn url rls dsc sa ea cb now)"
  "keeps_db_ok (update_tournament tid patch now)"
  "keeps_db_ok (update_tournament_status tid st now)"
  "keeps_db_ok (add_tournament_participant tid team pname sd now)"
  "keeps_db_ok (update_tournament_participant pid sd' pst gl)"
  "keeps_db_ok (remove_tournament_participant pid)"
  "keeps_db_ok (create_tournament_round tid n stage now)"
  "keeps_db_ok (update_round_status rid rst)"
  "keeps_db_ok (create_tournament_match tid rid pos a b mst nx ns lx ls)"
  "keeps_db_ok (report_tournament_match mid s1 s2 w nts codes now)"
  "keeps_db_ok (set_match_participant mid slot p)"
  "keeps_db_ok (update_match_next mid nxt slot)"
  "keeps_db_ok (update_match_loser_next mid nxt slot)"
  "keeps_db_ok (delete_tournament_bracket tid)"
  by (auto simp: relates_def query_defs Let_def db_ok_create [simplified] db_ok_tables db_ok_put_match
      intro: db_ok_delete_bracket [of _ tid, unfolded delete_tournament_bracket_def, simplified]
      split: option.splits sum.splits)

lemma queries_keep_tournaments [effect_intros]:
  "keeps_tournaments (add_tournament_participant tid team pname sd now)"
  "keeps_tournaments (update_tournament_participant pid sd' pst gl)"
  "keeps_tournaments (remove_tournament_participant pid)"
  "keeps_tournaments (create_tournament_round tid n stage now)"
  "keeps_tournaments (update_round_status rid rst)"
  "keeps_tournaments (create_tournament_match tid rid pos a b mst nx ns lx ls)"
  "keeps_tournaments (report_tournament_match mid s1 s2 w nts codes now)"
  "keeps_tournaments (set_match_participant mid slot p)"
  "keeps_tournaments (update_match_next mid nxt slot)"
  "keeps_tournaments (update_match_loser_next mid nxt slot)"
  "keeps_tournaments (delete_tournament_bracket tid)"
  by (auto simp: relates_def query_defs put_match_def Let_def split: option.splits sum.splits)

subsection \<open>The generators\<close>

text \<open>A bye only writes a slot.\<close>

lemma advance_bye_effect:
  assumes "\<And>next_id slot p. relates R (set_match_participant next_id slot p)" and "\<And>db. R db db"
  shows "relates R (advance_bye mid)"
  using assms unfolding relates_def advance_bye_def
  by (auto simp: fail_def ret_def split: option.splits)

lemma loops_effect [effect_intros]:
  "keeps_db_ok (create_round_ids tid stage now rs)" "keeps_tournaments (create_round_ids tid stage now rs)"
  "keeps_db_ok (create_round_matches tid rid specs)" "keeps_tournaments (create_round_matches tid rid specs)"
  "keeps_db_ok (wire_next ids r)" "keeps_tournaments (wire_next ids r)"
  "keeps_db_ok (drop_losers w w_ids l_ids r)" "keeps_tournaments (drop_losers w w_ids l_ids r)"
  "keeps_db_ok (wire_losers l_ids r)" "keeps_tournaments (wire_losers l_ids r)"
  "keeps_db_ok (advance_bye mid)" "keeps_tournaments (advance_bye mid)"
  unfolding create_round_ids_def create_round_matches_def wire_next_def drop_losers_def wire_losers_def
  by (auto intro!: effect_intros advance_bye_effect)

lemma wiring_effect [effect_intros]:
  "keeps_db_ok (create_rounds tid rds)" "keeps_tournaments (create_rounds tid rds)"
  "keeps_db_ok (wire_double_elim w w_ids l_ids gf)" "keeps_tournaments (wire_double_elim w w_ids l_ids gf)"
  unfolding create_rounds_def wire_double_elim_def
  by (auto intro!: effect_intros split: list.split)

lemma round_robin_effect [effect_intros]:
  "keeps_db_ok (round_robin_rounds tid now r n slots)"
  "keeps_tournaments (round_robin_rounds tid now r n slots)"
  by (induction n arbitrary: r slots) (auto intro!: effect_intros)

lemmas db_ok_at_state = db_kept.at_state [THEN mp]

lemma generators_keep_db_ok [effect_intros]:
  "keeps_db_ok (generate_single_elim_bracket tid now)"
  "keeps_db_ok (generate_double_elim_bracket tid now)"
  "keeps_db_ok (generate_round_robin_pairings tid now)"
  "keeps_db_ok (generate_swiss_round tid now)"
  unfolding relates_def [of _ "generate_single_elim_bracket tid now"]
    relates_def [of _ "generate_double_elim_bracket tid now"]
    relates_def [of _ "generate_round_robin_pairings tid now"]
    relates_def [of _ "generate_swiss_round tid now"]
    generate_single_elim_bracket_def generate_double_elim_bracket_def
    generate_round_robin_pairings_def generate_swiss_round_def Let_def
  by (auto intro!: db_ok_at_state effect_intros simp del: upt_Suc)

lemma generators_keep_tournaments [effect_intros]:
  "keeps_tournaments (generate_single_elim_bracket tid now)"
  "keeps_tournaments (generate_double_elim_bracket tid now)"
  "keeps_tournaments (generate_round_robin_pairings tid now)"
  "keeps_tournaments (generate_swiss_round tid now)"
  unfolding relates_def [of _ "generate_single_elim_bracket tid now"]
    relates_def [of _ "generate_double_elim_bracket tid now"]
    relates_def [of _ "generate_round_robin_pairings tid now"]
    relates_def [of _ "generate_swiss_round tid now"]
    generate_single_elim_bracket_def generate_double_elim_bracket_def
    generate_round_robin_pairings_def generate_swiss_round_def Let_def
  by (auto intro!: tournaments_kept.at_state effect_intros simp del: upt_Suc)

end
