(* ===== verification/Pagination.thy ===== *)
theory Pagination
  imports Prelude "HOL-Library.Word"
begin

text \<open>
  Cursor pagination, \<open>PaginationParams\<close> and \<open>CursorResponse\<close> in \<open>crates/types/src/api/mod.rs\<close>: the
  cursor is the offset in eight hex digits, a page is fetched with one row too many to see whether
  there is a next one. Offsets and limits are \<open>u32\<close>.
\<close>

definition hex_value :: "char \<Rightarrow> nat option" where
  "hex_value c =
     (if 48 \<le> byte c \<and> byte c \<le> 57 then Some (byte c - 48)
      else if 97 \<le> byte c \<and> byte c \<le> 102 then Some (byte c - 87)
      else if 65 \<le> byte c \<and> byte c \<le> 70 then Some (byte c - 55)
      else None)"

text \<open>\<open>format!("{offset:08x}")\<close>.\<close>

fun hex_digits :: "nat \<Rightarrow> nat \<Rightarrow> string" where
  "hex_digits 0 n = []"
| "hex_digits (Suc k) n = hex_digits k (n div 16) @ [hex_char (n mod 16)]"

definition encode_cursor :: "32 word \<Rightarrow> string" where
  "encode_cursor offset = hex_digits 8 (unat offset)"

text \<open>\<open>u32::from_str_radix(s, 16)\<close>: an optional plus sign, at least one digit, no overflow.\<close>

fun parse_hex :: "nat \<Rightarrow> string \<Rightarrow> nat option" where
  "parse_hex acc [] = Some acc"
| "parse_hex acc (c # cs) =
     (case hex_value c of
        None \<Rightarrow> None
      | Some d \<Rightarrow> let v = acc * 16 + d in if v < 2 ^ 32 then parse_hex v cs else None)"

definition decode_cursor :: "string \<Rightarrow> 32 word option" where
  "decode_cursor s =
     (let digits = (case s of c # cs \<Rightarrow> if c = CHR ''+'' then cs else s | [] \<Rightarrow> [])
      in if digits = [] then None else map_option of_nat (parse_hex 0 digits))"

record pagination_params =
  cursor :: "string option"
  limit :: "32 word"

definition resolve :: "pagination_params \<Rightarrow> 32 word \<times> 32 word" where
  "resolve p =
     (if limit p < 1 then 1 else if 100 < limit p then 100 else limit p,
      case Option.bind (cursor p) decode_cursor of None \<Rightarrow> 0 | Some off \<Rightarrow> off)"

record 'a cursor_response =
  data :: "'a list"
  next_cursor :: "string option"

definition from_oversized :: "'a list \<Rightarrow> 32 word \<Rightarrow> 32 word \<Rightarrow> 'a cursor_response" where
  "from_oversized items lim off =
     (let has_more = lim < of_nat (length items)
      in \<lparr>data = (if has_more then take (unat lim) items else items),
          next_cursor = (if has_more then Some (encode_cursor (off + lim)) else None)\<rparr>)"

subsection \<open>Cursors round trip\<close>

lemma hex_value_char: "d < 16 \<Longrightarrow> hex_value (hex_char d) = Some d"
  by (auto simp: hex_value_def hex_char_def byte_def)

lemma hex_char_no_plus: "d < 16 \<Longrightarrow> hex_char d \<noteq> CHR ''+''"
proof
  assume d: "d < 16" and "hex_char d = CHR ''+''"
  then have "hex_value (CHR ''+'') = Some d" using hex_value_char [OF d] by simp
  then show False by (simp add: hex_value_def byte_def)
qed

lemma length_hex_digits [simp]: "length (hex_digits k n) = k"
  by (induction k arbitrary: n) simp_all

lemma parse_hex_append:
  "parse_hex acc (xs @ ys) = (case parse_hex acc xs of None \<Rightarrow> None | Some v \<Rightarrow> parse_hex v ys)"
  by (induction xs arbitrary: acc) (auto simp: Let_def split: option.splits)

lemma parse_hex_digits: "k \<le> 8 \<Longrightarrow> n < 16 ^ k \<Longrightarrow> parse_hex 0 (hex_digits k n) = Some n"
proof (induction k arbitrary: n)
  case (Suc k)
  have "n div 16 < 16 ^ k" using Suc.prems(2) by (simp add: less_mult_imp_div_less mult.commute)
  then have "parse_hex 0 (hex_digits k (n div 16)) = Some (n div 16)" using Suc by simp
  moreover have "n < 2 ^ 32"
  proof -
    have "(16::nat) ^ Suc k \<le> 16 ^ 8" using Suc.prems(1) by (intro power_increasing) simp_all
    with Suc.prems(2) show ?thesis by simp
  qed
  ultimately show ?case by (simp add: parse_hex_append hex_value_char Let_def)
qed simp

lemma decode_encode: "decode_cursor (encode_cursor off) = Some off"
proof -
  have bound: "unat off < 16 ^ 8" using unsigned_less [of off, where ?'a = nat] by simp
  have digits: "set (hex_digits k n) \<subseteq> hex_char ` {..<16}" for k n
    by (induction k arbitrary: n) auto
  obtain c cs where s: "encode_cursor off = c # cs"
    by (metis encode_cursor_def length_0_conv length_hex_digits neq_Nil_conv zero_neq_numeral)
  then have "c \<in> hex_char ` {..<16}" using digits [of 8 "unat off"] by (simp add: encode_cursor_def)
  then have "c \<noteq> CHR ''+''" using hex_char_no_plus by auto
  then have "decode_cursor (encode_cursor off) = map_option of_nat (parse_hex 0 (encode_cursor off))"
    by (simp add: decode_cursor_def s)
  also have "\<dots> = Some off" using parse_hex_digits [OF order_refl bound] by (simp add: encode_cursor_def)
  finally show ?thesis .
qed

subsection \<open>Walking the pages\<close>

text \<open>
  A client that follows \<open>next_cursor\<close> from the first page on, over a table that does not change:
  the rows it sees, or \<open>None\<close> when the fuel runs out before the last page.
\<close>

definition page :: "'a list \<Rightarrow> 32 word \<Rightarrow> string option \<Rightarrow> 'a cursor_response" where
  "page xs lim cur =
     (case resolve \<lparr>cursor = cur, limit = lim\<rparr> of (l, off) \<Rightarrow>
        from_oversized (take (unat (l + 1)) (drop (unat off) xs)) l off)"

fun walk_pages :: "nat \<Rightarrow> 'a list \<Rightarrow> 32 word \<Rightarrow> string option \<Rightarrow> 'a list option" where
  "walk_pages 0 xs lim cur = None"
| "walk_pages (Suc n) xs lim cur =
     (let r = page xs lim cur in
      case next_cursor r of
        None \<Rightarrow> Some (data r)
      | Some c \<Rightarrow> map_option (\<lambda>rest. data r @ rest) (walk_pages n xs lim (Some c)))"

lemma resolved_limit:
  obtains l where "fst (resolve \<lparr>cursor = cur, limit = lim\<rparr>) = l" "0 < unat l" "unat l \<le> 100"
proof -
  let ?l = "fst (resolve \<lparr>cursor = cur, limit = lim\<rparr>)"
  have "unat ?l = (if unat lim < 1 then 1 else if 100 < unat lim then 100 else unat lim)"
    by (auto simp: resolve_def word_less_nat_alt)
  then show thesis using that by (cases "unat lim < 1") (auto split: if_splits)
qed

lemma page_step:
  assumes small: "length xs + 101 < 2 ^ 32"
    and off: "Option.bind cur decode_cursor = Some (of_nat k) \<or> (cur = None \<and> k = 0)" "k \<le> length xs"
  obtains l where "0 < l" "data (page xs lim cur) = take l (drop k xs)"
    "next_cursor (page xs lim cur) =
       (if l < length xs - k then Some (encode_cursor (of_nat (k + l))) else None)"
proof -
  obtain l where l: "fst (resolve \<lparr>cursor = cur, limit = lim\<rparr>) = l" "0 < unat l" "unat l \<le> 100"
    by (rule resolved_limit)
  have k: "unat (of_nat k :: 32 word) = k" using small off(2) by (simp add: unat_of_nat)
  have res: "resolve \<lparr>cursor = cur, limit = lim\<rparr> = (l, of_nat k)"
    using l(1) off(1) by (auto simp: resolve_def)
  have l1: "unat (l + 1) = unat l + 1"
    using l(3) by (simp add: unat_plus_simple [THEN iffD1] word_le_nat_alt unat_word_ariths)
  let ?items = "take (unat l + 1) (drop k xs)"
  have len: "length ?items = min (unat l + 1) (length xs - k)" by simp
  then have u: "unat (of_nat (length ?items) :: 32 word) = length ?items"
    using l(3) by (simp add: unat_of_nat)
  have more: "l < of_nat (length ?items) \<longleftrightarrow> unat l < length xs - k"
    unfolding word_less_nat_alt u unfolding len by linarith
  have "page xs lim cur = from_oversized ?items l (of_nat k)"
    by (simp add: page_def res l1 k)
  then have "data (page xs lim cur) = take (unat l) (drop k xs)"
    "next_cursor (page xs lim cur) =
       (if unat l < length xs - k then Some (encode_cursor (of_nat (k + unat l))) else None)"
    using more by (auto simp: from_oversized_def Let_def)
  then show thesis using that l(2) by blast
qed

lemma walk_from:
  assumes "length xs + 101 < 2 ^ 32"
    and "Option.bind cur decode_cursor = Some (of_nat k) \<or> (cur = None \<and> k = 0)" "k \<le> length xs"
    and "length xs - k < n"
  shows "walk_pages n xs lim cur = Some (drop k xs)"
  using assms
proof (induction n arbitrary: k cur)
  case (Suc n)
  obtain l where l: "0 < l" "data (page xs lim cur) = take l (drop k xs)"
    "next_cursor (page xs lim cur) =
       (if l < length xs - k then Some (encode_cursor (of_nat (k + l))) else None)"
    by (rule page_step [OF Suc.prems(1-3)])
  show ?case
  proof (cases "l < length xs - k")
    case True
    then have "walk_pages n xs lim (Some (encode_cursor (of_nat (k + l)))) = Some (drop (k + l) xs)"
      using Suc.prems l(1) by (intro Suc.IH) (simp_all add: decode_encode)
    moreover have "drop (k + l) xs = drop l (drop k xs)" by (simp add: add.commute)
    ultimately show ?thesis using True l by (simp add: Let_def del: drop_drop)
  next
    case False
    with l show ?thesis by (simp add: Let_def)
  qed
qed simp

text \<open>
  C36: cursors are exact. A cursor decodes to the offset it was made from, and a client that follows
  the cursors over an unchanged table sees every row once and in order, whatever limit it asks
  for: one page more than there are rows is always enough.
\<close>

theorem pages_enumerate_rows:
  assumes "length xs + 101 < 2 ^ 32"
  shows "decode_cursor (encode_cursor off) = Some off \<and> walk_pages (length xs + 1) xs lim None = Some xs"
  using walk_from [OF assms, of None 0 "length xs + 1" lim] decode_encode [of off] by simp

theorem pages_enumerate_rows_witness:
  "decode_cursor ''0000001f'' = Some 31 \<and> walk_pages 4 [1::nat, 2, 3] 2 None = Some [1, 2, 3]"
proof -
  have "encode_cursor 31 = ''0000001f''" by code_simp
  moreover have len: "length [1::nat, 2, 3] + 1 = 4" by simp
  moreover have small: "length [1::nat, 2, 3] + 101 < 2 ^ 32" by simp
  ultimately show ?thesis using pages_enumerate_rows [OF small, of 31 2, unfolded len] by simp
qed

end
