(* ===== verification/TournamentRoutes.thy ===== *)
theory TournamentRoutes
  imports SiteAuth SiteAudit MatchReport DbEffects Pagination
begin

text \<open>
  The tournament routes of the site server, \<open>crates/site-server/src/routes/tournaments.rs\<close>: reads that
  hide drafts, officer operations, the status machine, bracket generation and match reports. A handler
  is an operation on the site (the tournament database and the audit log); requests are served one
  at a time (the interleaving of the statements of concurrent requests is the subject of
  \<open>MatchReport\<close>). Writing the audit log is taken not to fail.
\<close>

subsection \<open>The site\<close>

record site = logged +
  site_db :: tdb

text \<open>\<open>DbMessage code e\<close> carries the text of the database error \<open>e\<close>.\<close>

datatype route_error = Http http_error | DbMessage nat db_error

definition bad_request :: "string \<Rightarrow> route_error" where
  "bad_request msg = Http (Status 400 msg)"

definition not_found :: "string \<Rightarrow> route_error" where
  "not_found msg = Http (Status 404 msg)"

definition internal_err :: "db_error \<Rightarrow> route_error" where
  "internal_err e = Http (Status 500 ''Internal server error'')"

type_synonym 'a handler = "(site, route_error, 'a) op"

text \<open>A read, a call whose error is mapped, and a call whose result is dropped.\<close>

definition db_read :: "(tdb \<Rightarrow> 'a) \<Rightarrow> 'a handler" where
  "db_read f s = (Inr (f (site_db s)), s)"

definition db_call :: "(db_error \<Rightarrow> route_error) \<Rightarrow> 'a db_op \<Rightarrow> 'a handler" where
  "db_call err f s =
     (case f (site_db s) of
        (Inl e, db) \<Rightarrow> (Inl (err e), s\<lparr>site_db := db\<rparr>)
      | (Inr x, db) \<Rightarrow> (Inr x, s\<lparr>site_db := db\<rparr>))"

definition db_ignore :: "'a db_op \<Rightarrow> unit handler" where
  "db_ignore f s = (Inr (), s\<lparr>site_db := snd (f (site_db s))\<rparr>)"

definition ok_or :: "route_error \<Rightarrow> 'a option \<Rightarrow> 'a handler" where
  "ok_or err x = (case x of None \<Rightarrow> fail err | Some y \<Rightarrow> ret y)"

subsection \<open>Reading\<close>

definition manages_tournaments :: "site_member option \<Rightarrow> bool" where
  "manages_tournaments member =
     (case member of None \<Rightarrow> False | Some m \<Rightarrow> is_at_least (mb_role m) Officer)"

definition reject_hidden_draft :: "string \<Rightarrow> site_member option \<Rightarrow> unit handler" where
  "reject_hidden_draft tid member =
     and_then (db_read (get_tournament tid)) (\<lambda>found.
       (case found of None \<Rightarrow> ret ()
        | Some t \<Rightarrow>
            if tn_status_of t = Draft \<and> \<not> manages_tournaments member
            then fail (not_found ''Tournament not found'') else ret ()))"

record tournaments_query =
  q_status :: "string option"
  q_game_id :: "string option"
  q_cursor :: "string option"
  q_limit :: "32 word"

definition query_status :: "string \<Rightarrow> tournament_status option" where
  "query_status s =
     (if s = ''draft'' then Some Draft else if s = ''registration'' then Some Registration
      else if s = ''in_progress'' then Some InProgress else if s = ''completed'' then Some Completed
      else if s = ''archived'' then Some Archived else None)"

definition list_tournaments_route ::
  "site_member option \<Rightarrow> tournaments_query \<Rightarrow> (string \<times> db_tournament) cursor_response handler" where
  "list_tournaments_route member q =
     (case resolve \<lparr>cursor = q_cursor q, limit = q_limit q\<rparr> of (lim, off) \<Rightarrow>
        and_then (db_read (list_tournaments_paginated (Option.bind (q_status q) query_status)
                    (q_game_id q) lim off (manages_tournaments member)))
          (\<lambda>items. ret (from_oversized items lim off)))"

definition get_tournament_route :: "site_member option \<Rightarrow> string \<Rightarrow> (string \<times> db_tournament) handler" where
  "get_tournament_route member tid =
     and_then (db_read (get_tournament tid)) (\<lambda>found.
     and_then (ok_or (not_found ''Tournament not found'') found) (\<lambda>t.
       if tn_status_of t = Draft \<and> \<not> manages_tournaments member
       then fail (not_found ''Tournament not found'') else ret (tid, t)))"

record tournament_bracket =
  br_tournament :: "string \<times> db_tournament"
  br_participants :: "(string \<times> db_participant) list"
  br_rounds :: "(string \<times> db_round) list"
  br_matches :: "(string \<times> db_match) list"

definition get_tournament_bracket :: "string \<Rightarrow> tournament_bracket db_op" where
  "get_tournament_bracket tid db =
     (case get_tournament tid db of
        None \<Rightarrow> (Inl (TournamentNotFound tid), db)
      | Some t \<Rightarrow>
          (Inr \<lparr>br_tournament = (tid, t), br_participants = list_tournament_participants tid db,
                br_rounds = list_tournament_rounds tid db, br_matches = list_tournament_matches tid db\<rparr>, db))"

definition get_bracket :: "site_member option \<Rightarrow> string \<Rightarrow> tournament_bracket handler" where
  "get_bracket member tid =
     and_then (reject_hidden_draft tid member) (\<lambda>_. db_call internal_err (get_tournament_bracket tid))"

definition list_participants :: "site_member option \<Rightarrow> string \<Rightarrow> (string \<times> db_participant) list handler" where
  "list_participants member tid =
     and_then (reject_hidden_draft tid member) (\<lambda>_. db_read (list_tournament_participants tid))"

definition list_matches :: "site_member option \<Rightarrow> string \<Rightarrow> (string \<times> db_match) list handler" where
  "list_matches member tid =
     and_then (reject_hidden_draft tid member) (\<lambda>_. db_read (list_tournament_matches tid))"

definition get_standings :: "site_member option \<Rightarrow> string \<Rightarrow> swiss_standing list handler" where
  "get_standings member tid =
     and_then (reject_hidden_draft tid member) (\<lambda>_. db_read (get_swiss_standings tid))"

subsection \<open>Tournaments and their status\<close>

record create_request =
  cr_name :: string
  cr_game_id :: "string option"
  cr_format :: tournament_format
  cr_max_teams :: "nat option"
  cr_best_of :: nat
  cr_swiss_rounds :: "nat option"
  cr_is_external :: bool
  cr_is_open :: bool
  cr_external_url :: "string option"
  cr_rules :: "string option"
  cr_description :: "string option"
  cr_starts_at :: "instant option"
  cr_ends_at :: "instant option"

definition create_tournament_route ::
  "site_member \<Rightarrow> create_request \<Rightarrow> instant \<Rightarrow> (string \<times> db_tournament) handler" where
  "create_tournament_route officer body now =
     and_then (db_call internal_err (create_tournament (cr_name body) (cr_game_id body) (cr_format body)
         (cr_max_teams body) (cr_best_of body) (cr_swiss_rounds body) (cr_is_external body)
         (cr_is_open body) (cr_external_url body) (cr_rules body) (cr_description body)
         (cr_starts_at body) (cr_ends_at body) (mb_id officer) now)) (\<lambda>(tid, t).
     and_then (audit (mb_id officer) CreatedTournament TargetTournament tid
         (Some (''Created tournament: '' @ tn_name t))) (\<lambda>_. ret (tid, t)))"

definition update_tournament_route ::
  "site_member \<Rightarrow> string \<Rightarrow> tournament_patch \<Rightarrow> instant \<Rightarrow> (string \<times> db_tournament) handler" where
  "update_tournament_route officer tid body now =
     and_then (db_call internal_err (update_tournament tid body now)) (\<lambda>t.
     and_then (audit (mb_id officer) UpdatedTournament TargetTournament tid None) (\<lambda>_. ret t))"

definition requested_status :: "string \<Rightarrow> tournament_status option" where
  "requested_status s =
     (if s = ''registration'' then Some Registration else if s = ''in_progress'' then Some InProgress
      else if s = ''completed'' then Some Completed else if s = ''archived'' then Some Archived else None)"

text \<open>The checks on a transition of a tournament row: \<open>None\<close> when it is allowed.\<close>

definition transition_refusal ::
  "string \<Rightarrow> db_tournament \<Rightarrow> tournament_status \<Rightarrow> tdb \<Rightarrow> route_error option" where
  "transition_refusal tid t new db =
     (case (tn_status_of t, new) of
        (Draft, Registration) \<Rightarrow>
          if tn_name t = [] then Some (bad_request ''Tournament needs a name'') else None
      | (Registration, InProgress) \<Rightarrow>
          if count_tournament_participants tid db < 2 then Some (bad_request ''Need at least 2 participants'')
          else if list_tournament_matches tid db = [] then Some (bad_request ''Generate bracket first'')
          else None
      | (InProgress, Completed) \<Rightarrow> None
      | (Completed, Archived) \<Rightarrow> None
      | (Draft, Archived) \<Rightarrow> None
      | (Registration, Archived) \<Rightarrow> None
      | (InProgress, Archived) \<Rightarrow> None
      | (old, new) \<Rightarrow>
          Some (bad_request (''Invalid transition: '' @ status_to_string old @ arrow @ status_to_string new)))"

definition transition_status ::
  "site_member \<Rightarrow> string \<Rightarrow> string \<Rightarrow> instant \<Rightarrow> (string \<times> db_tournament) handler" where
  "transition_status officer tid requested now =
     and_then (db_read (get_tournament tid)) (\<lambda>found.
     and_then (ok_or (not_found ''Tournament not found'') found) (\<lambda>t.
     and_then (ok_or (bad_request ''Invalid status'') (requested_status requested)) (\<lambda>new.
     and_then (db_read (transition_refusal tid t new)) (\<lambda>refusal.
       (case refusal of
          Some err \<Rightarrow> fail err
        | None \<Rightarrow>
            and_then (db_call internal_err (update_tournament_status tid new now)) (\<lambda>updated.
            and_then (audit (mb_id officer) ChangedTournamentStatus TargetTournament tid
                (Some (status_to_string (tn_status_of t) @ arrow @ status_to_string new)))
              (\<lambda>_. ret updated)))))))"

definition generate_bracket :: "site_member \<Rightarrow> string \<Rightarrow> instant \<Rightarrow> tournament_bracket handler" where
  "generate_bracket officer tid now =
     and_then (db_read (get_tournament tid)) (\<lambda>found.
     and_then (ok_or (not_found ''Tournament not found'') found) (\<lambda>t.
     and_then
       (case tn_format_of t of
          SingleElim \<Rightarrow> db_call internal_err (generate_single_elim_bracket tid now)
        | DoubleElim \<Rightarrow> db_call internal_err (generate_double_elim_bracket tid now)
        | RoundRobin \<Rightarrow> db_call internal_err (generate_round_robin_pairings tid now)
        | Swiss \<Rightarrow> and_then (db_call internal_err (generate_swiss_round tid now)) (\<lambda>_. ret ())) (\<lambda>_.
     and_then (audit (mb_id officer) GeneratedBracket TargetTournament tid
         (Some (''Generated '' @ format_to_string (tn_format_of t) @ '' bracket''))) (\<lambda>_.
       db_call internal_err (get_tournament_bracket tid)))))"

definition generate_next_round :: "site_member \<Rightarrow> string \<Rightarrow> instant \<Rightarrow> (string \<times> db_round) handler" where
  "generate_next_round officer tid now =
     and_then (db_call internal_err (generate_swiss_round tid now)) (\<lambda>(rid, r).
     and_then (audit (mb_id officer) GeneratedBracket TargetTournament tid
         (Some (''Generated Swiss round '' @ decimal (rd_round_number r)))) (\<lambda>_. ret (rid, r)))"

subsection \<open>Participants\<close>

record participant_request =
  ap_team_id :: "string option"
  ap_external_name :: "string option"
  ap_seed :: "nat option"

definition add_participant ::
  "site_member \<Rightarrow> string \<Rightarrow> participant_request \<Rightarrow> instant \<Rightarrow> (string \<times> db_participant) handler" where
  "add_participant officer tid body now =
     (if ap_team_id body = None \<and> ap_external_name body = None
      then fail (bad_request ''Provide team_id or external_name'')
      else
        and_then (db_read (get_tournament tid)) (\<lambda>found.
        and_then (ok_or (not_found ''Tournament not found'') found) (\<lambda>t.
        and_then (db_read (count_tournament_participants tid)) (\<lambda>count.
        if (case tn_max_teams t of None \<Rightarrow> False | Some cap \<Rightarrow> cap \<le> count)
        then fail (bad_request ''Tournament is full'')
        else
          and_then (db_call internal_err (add_tournament_participant tid (ap_team_id body)
              (ap_external_name body) (ap_seed body) now)) (\<lambda>(pid, p).
          and_then (audit (mb_id officer) AddedTournamentParticipant TargetTournamentParticipant pid
              (Some (''Added to tournament '' @ tid @ '': '' @
                (case ap_external_name body of Some n \<Rightarrow> n
                 | None \<Rightarrow> (case ap_team_id body of Some t \<Rightarrow> t | None \<Rightarrow> ''unknown'')))))
            (\<lambda>_. ret (pid, p)))))))"

record participant_patch =
  pp_seed :: "nat option option"
  pp_status :: "string option"
  pp_group_label :: "string option option"

definition requested_participant_status :: "string \<Rightarrow> participant_status" where
  "requested_participant_status s =
     (if s = ''checked_in'' then CheckedIn else if s = ''active'' then Active
      else if s = ''eliminated'' then Eliminated else if s = ''withdrawn'' then Withdrawn
      else if s = ''disqualified'' then Disqualified else Registered)"

definition update_participant ::
  "site_member \<Rightarrow> string \<Rightarrow> string \<Rightarrow> participant_patch \<Rightarrow> (string \<times> db_participant) handler" where
  "update_participant officer tid pid body =
     and_then (db_call internal_err (update_tournament_participant pid (pp_seed body)
         (map_option requested_participant_status (pp_status body)) (pp_group_label body))) (\<lambda>p.
     and_then (audit (mb_id officer) UpdatedTournament TargetTournamentParticipant pid
         (Some (''Updated participant in tournament '' @ tid))) (\<lambda>_. ret p))"

definition remove_participant :: "site_member \<Rightarrow> string \<Rightarrow> string \<Rightarrow> unit handler" where
  "remove_participant officer tid pid =
     and_then (db_call internal_err (remove_tournament_participant pid)) (\<lambda>_.
       audit (mb_id officer) RemovedTournamentParticipant TargetTournamentParticipant pid
         (Some (''Removed from tournament '' @ tid)))"

subsection \<open>Reporting a match\<close>

record report_request =
  re_score_a :: "32 word"
  re_score_b :: "32 word"
  re_winner_id :: string
  re_notes :: "string option"
  re_replay_codes :: "string list option"

definition report_error :: "db_error \<Rightarrow> route_error" where
  "report_error e =
     (case e of
        WinnerNotParticipant _ _ \<Rightarrow> DbMessage 409 e
      | ScoreNotGreater _ _ \<Rightarrow> DbMessage 409 e
      | MatchNotPending _ \<Rightarrow> DbMessage 409 e
      | Panicked \<Rightarrow> internal_err e
      | _ \<Rightarrow> DbMessage 404 e)"

definition loser_of :: "db_match \<Rightarrow> string \<Rightarrow> string option" where
  "loser_of m winner =
     (if ma_participant_a_id m = Some winner then ma_participant_b_id m else ma_participant_a_id m)"

definition advance_winner :: "db_match \<Rightarrow> string \<Rightarrow> unit handler" where
  "advance_winner m winner =
     (case (ma_next_match_id m, ma_next_match_slot m) of
        (Some next_id, Some next_slot) \<Rightarrow> db_call internal_err (set_match_participant next_id next_slot winner)
      | _ \<Rightarrow> ret ())"

definition advance_loser :: "db_match \<Rightarrow> string \<Rightarrow> unit handler" where
  "advance_loser m winner =
     (case (ma_loser_next_match_id m, ma_loser_next_match_slot m, loser_of m winner) of
        (Some next_id, Some slot, Some loser) \<Rightarrow> db_call internal_err (set_match_participant next_id slot loser)
      | _ \<Rightarrow> ret ())"

definition eliminate_loser :: "string \<Rightarrow> db_match \<Rightarrow> string \<Rightarrow> unit handler" where
  "eliminate_loser tid m winner =
     (case (ma_loser_next_match_id m, loser_of m winner) of
        (None, Some loser) \<Rightarrow>
          and_then (db_read (get_tournament tid)) (\<lambda>found.
            (case found of None \<Rightarrow> ret ()
             | Some t \<Rightarrow> if tn_format_of t = SingleElim
                 then db_ignore (update_tournament_participant loser None (Some Eliminated) None)
                 else ret ()))
      | _ \<Rightarrow> ret ())"

definition match_done :: "db_match \<Rightarrow> bool" where
  "match_done m \<longleftrightarrow> ma_status_of m = MatchCompleted \<or> ma_status_of m = MatchBye"

definition complete_round_and_tournament :: "string \<Rightarrow> db_match \<Rightarrow> instant \<Rightarrow> unit handler" where
  "complete_round_and_tournament tid m now =
     and_then (db_read (list_tournament_matches tid)) (\<lambda>all_matches.
     and_then (if list_all (\<lambda>(_, m'). match_done m') (filter (\<lambda>(_, m'). ma_round_id m' = ma_round_id m) all_matches)
         then db_ignore (update_round_status (ma_round_id m) RoundCompleted) else ret ()) (\<lambda>_.
       if list_all (\<lambda>(_, m'). match_done m') all_matches
       then db_ignore (update_tournament_status tid Completed now) else ret ()))"

definition report_match ::
  "site_member \<Rightarrow> string \<Rightarrow> string \<Rightarrow> report_request \<Rightarrow> instant \<Rightarrow> (string \<times> db_match) handler" where
  "report_match officer tid mid body now =
     (let winner = trim (re_winner_id body) in
      and_then (db_read (get_tournament_match mid)) (\<lambda>found.
      and_then (ok_or (not_found ''Match not found'') found) (\<lambda>existing.
        if ma_tournament_id existing \<noteq> tid then fail (not_found ''Match not found in this tournament'')
        else if winner = [] \<or>
            (ma_participant_a_id existing \<noteq> Some winner \<and> ma_participant_b_id existing \<noteq> Some winner)
        then fail (bad_request ''winner_id must be one of the match participants'')
        else
          and_then (db_call report_error (report_tournament_match mid (re_score_a body) (re_score_b body)
              winner (re_notes body) (case re_replay_codes body of None \<Rightarrow> [] | Some cs \<Rightarrow> cs) now)) (\<lambda>(rid, m).
          and_then (advance_winner m winner) (\<lambda>_.
          and_then (advance_loser m winner) (\<lambda>_.
          and_then (eliminate_loser tid m winner) (\<lambda>_.
          and_then (complete_round_and_tournament tid m now) (\<lambda>_.
          and_then (audit (mb_id officer) ReportedTournamentMatch TargetTournamentMatch mid
              (Some (decimal (unat (re_score_a body)) @ ''-'' @ decimal (unat (re_score_b body)))))
            (\<lambda>_. ret (rid, m))))))))))"

subsection \<open>The routes\<close>

datatype tournament_request =
    ListTournaments tournaments_query
  | GetTournament string
  | GetBracket string
  | ListParticipants string
  | ListMatches string
  | GetStandings string
  | CreateTournament create_request
  | UpdateTournament string tournament_patch
  | TransitionStatus string string
  | GenerateBracket string
  | AddParticipant string participant_request
  | UpdateParticipant string string participant_patch
  | RemoveParticipant string string
  | ReportMatch string string report_request
  | GenerateNextRound string

datatype response =
    TournamentPage "(string \<times> db_tournament) cursor_response"
  | TournamentBody nat string db_tournament
  | BracketBody tournament_bracket
  | ParticipantsBody "(string \<times> db_participant) list"
  | MatchesBody "(string \<times> db_match) list"
  | StandingsBody "swiss_standing list"
  | ParticipantBody nat string db_participant
  | MatchBody string db_match
  | RoundBody nat string db_round
  | NoContent

definition reply_with :: "('a \<Rightarrow> response) \<Rightarrow> 'a handler \<Rightarrow> response handler" where
  "reply_with f h = and_then h (\<lambda>x. ret (f x))"

text \<open>The extractor of an officer route runs before the handler.\<close>

definition as_officer :: "caller \<Rightarrow> (site_member \<Rightarrow> response handler) \<Rightarrow> response handler" where
  "as_officer c h = (case officer_user c of Inl e \<Rightarrow> fail (Http e) | Inr m \<Rightarrow> h m)"

fun serve :: "caller \<Rightarrow> instant \<Rightarrow> tournament_request \<Rightarrow> response handler" where
  "serve c now (ListTournaments q) =
     reply_with TournamentPage (list_tournaments_route (optional_org_member c) q)"
| "serve c now (GetTournament tid) =
     reply_with (\<lambda>(i, t). TournamentBody 200 i t) (get_tournament_route (optional_org_member c) tid)"
| "serve c now (GetBracket tid) = reply_with BracketBody (get_bracket (optional_org_member c) tid)"
| "serve c now (ListParticipants tid) =
     reply_with ParticipantsBody (list_participants (optional_org_member c) tid)"
| "serve c now (ListMatches tid) = reply_with MatchesBody (list_matches (optional_org_member c) tid)"
| "serve c now (GetStandings tid) = reply_with StandingsBody (get_standings (optional_org_member c) tid)"
| "serve c now (CreateTournament body) =
     as_officer c (\<lambda>m. reply_with (\<lambda>(i, t). TournamentBody 201 i t) (create_tournament_route m body now))"
| "serve c now (UpdateTournament tid body) =
     as_officer c (\<lambda>m. reply_with (\<lambda>(i, t). TournamentBody 200 i t) (update_tournament_route m tid body now))"
| "serve c now (TransitionStatus tid st) =
     as_officer c (\<lambda>m. reply_with (\<lambda>(i, t). TournamentBody 200 i t) (transition_status m tid st now))"
| "serve c now (GenerateBracket tid) =
     as_officer c (\<lambda>m. reply_with BracketBody (generate_bracket m tid now))"
| "serve c now (AddParticipant tid body) =
     as_officer c (\<lambda>m. reply_with (\<lambda>(i, p). ParticipantBody 201 i p) (add_participant m tid body now))"
| "serve c now (UpdateParticipant tid pid body) =
     as_officer c (\<lambda>m. reply_with (\<lambda>(i, p). ParticipantBody 200 i p) (update_participant m tid pid body))"
| "serve c now (RemoveParticipant tid pid) =
     as_officer c (\<lambda>m. reply_with (\<lambda>_. NoContent) (remove_participant m tid pid))"
| "serve c now (ReportMatch tid mid body) =
     as_officer c (\<lambda>m. reply_with (\<lambda>(i, x). MatchBody i x) (report_match m tid mid body now))"
| "serve c now (GenerateNextRound tid) =
     as_officer c (\<lambda>m. reply_with (\<lambda>(i, r). RoundBody 201 i r) (generate_next_round m tid now))"

fun is_read :: "tournament_request \<Rightarrow> bool" where
  "is_read (ListTournaments _) = True"
| "is_read (GetTournament _) = True"
| "is_read (GetBracket _) = True"
| "is_read (ListParticipants _) = True"
| "is_read (ListMatches _) = True"
| "is_read (GetStandings _) = True"
| "is_read _ = False"

end
