(* ===== verification/RouteRules.thy ===== *)
theory RouteRules
  imports TournamentRoutes
begin

text \<open>
  What holds of the tournament routes: who may change what and its trace in the audit log, the
  well-formedness of the site under any sequence of requests, the status machine, and the hiding of drafts.
\<close>

subsection \<open>The audit log\<close>

text \<open>
  \<open>logged actor n h\<close>: the handler appends \<open>n\<close> entries of that actor when it succeeds, and at most \<open>n\<close>
  when it fails.
\<close>

named_theorems logged_intros \<open>how many audit entries a handler writes\<close>

definition logged :: "string \<Rightarrow> nat \<Rightarrow> 'a handler \<Rightarrow> bool" where
  "logged actor n h \<longleftrightarrow>
     (\<forall>s. \<exists>es. audit_log (snd (h s)) = audit_log s @ es \<and> list_all (\<lambda>e. au_actor e = actor) es \<and>
        (case fst (h s) of Inr _ \<Rightarrow> length es = n | Inl _ \<Rightarrow> length es \<le> n))"

lemma logged_and_then [logged_intros]:
  assumes m: "logged a n m" and f: "\<And>x. logged a k (f x)"
  shows "logged a (n + k) (and_then m f)"
  unfolding logged_def
proof
  fix s
  obtain es where es: "audit_log (snd (m s)) = audit_log s @ es" "list_all (\<lambda>e. au_actor e = a) es"
      "case fst (m s) of Inr _ \<Rightarrow> length es = n | Inl _ \<Rightarrow> length es \<le> n"
    using m unfolding logged_def by blast
  show "\<exists>es. audit_log (snd (and_then m f s)) = audit_log s @ es \<and> list_all (\<lambda>e. au_actor e = a) es \<and>
      (case fst (and_then m f s) of Inr _ \<Rightarrow> length es = n + k | Inl _ \<Rightarrow> length es \<le> n + k)"
  proof (cases "m s")
    case (Pair r s1)
    show ?thesis
    proof (cases r)
      case (Inl e)
      with Pair es show ?thesis by (intro exI [of _ es]) simp
    next
      case (Inr x)
      obtain es' where es': "audit_log (snd (f x s1)) = audit_log s1 @ es'" "list_all (\<lambda>e. au_actor e = a) es'"
          "case fst (f x s1) of Inr _ \<Rightarrow> length es' = k | Inl _ \<Rightarrow> length es' \<le> k"
        using f [of x] unfolding logged_def by blast
      from Pair Inr es es' show ?thesis
        by (intro exI [of _ "es @ es'"]) (auto split: sum.splits)
    qed
  qed
qed

lemma logged_basic [logged_intros]:
  "logged a 0 (ret x)" "logged a n (fail e)" "logged a 0 (db_read g)" "logged a 0 (db_call err q)"
  "logged a 0 (db_ignore q')" "logged a 0 (ok_or er y)" "logged a 1 (audit a act tt ti d)"
  by (auto simp: logged_def ret_def fail_def db_read_def db_call_def db_ignore_def ok_or_def audit_def
      split: prod.splits sum.splits option.splits)

lemma logged_cases [logged_intros]:
  "logged a n f \<Longrightarrow> logged a n g \<Longrightarrow> logged a n (if b then f else g)"
  "logged a n f \<Longrightarrow> (\<And>x. logged a n (h x)) \<Longrightarrow> logged a n (case y of None \<Rightarrow> f | Some x \<Rightarrow> h x)"
  "(\<And>x y. logged a n (k x y)) \<Longrightarrow> logged a n (case p of (x, y) \<Rightarrow> k x y)"
  "logged a n f \<Longrightarrow> logged a n g \<Longrightarrow> logged a n f' \<Longrightarrow> logged a n g' \<Longrightarrow>
     logged a n (case fmt of SingleElim \<Rightarrow> f | DoubleElim \<Rightarrow> g | RoundRobin \<Rightarrow> f' | Swiss \<Rightarrow> g')"
     apply (cases b; simp)
    apply (cases y; simp)
   apply (cases p; simp)
  apply (cases fmt; simp)
  done

lemma logged_dropped [logged_intros]: "logged a 0 (and_then (db_call err q) (\<lambda>_. ret ()))"
  using logged_and_then [where n = 0 and k = 0] logged_basic(1,4) by fastforce

lemma logged_once: "logged a n h \<Longrightarrow> n = 1 \<Longrightarrow> logged a 1 h"
  by simp

lemma logged_steps [logged_intros]:
  "logged a 0 (advance_winner m w)" "logged a 0 (advance_loser m w)" "logged a 0 (eliminate_loser tid m w)"
  "logged a 0 (complete_round_and_tournament tid m now)"
  unfolding advance_winner_def advance_loser_def eliminate_loser_def complete_round_and_tournament_def
  by (auto intro!: logged_basic logged_cases logged_and_then [where n = 0 and k = 0, simplified])

lemma logged_routes [logged_intros]:
  "logged (mb_id m) 1 (create_tournament_route m body now)"
  "logged (mb_id m) 1 (update_tournament_route m tid patch now)"
  "logged (mb_id m) 1 (transition_status m tid st now)"
  "logged (mb_id m) 1 (generate_bracket m tid now)"
  "logged (mb_id m) 1 (generate_next_round m tid now)"
  "logged (mb_id m) 1 (add_participant m tid pr now)"
  "logged (mb_id m) 1 (update_participant m tid pid pp)"
  "logged (mb_id m) 1 (remove_participant m tid pid)"
  "logged (mb_id m) 1 (report_match m tid mid rr now)"
  unfolding create_tournament_route_def update_tournament_route_def transition_status_def generate_bracket_def
    generate_next_round_def add_participant_def update_participant_def remove_participant_def report_match_def
    Let_def
  by ((rule logged_once, (rule logged_intros)+, simp)+)

text \<open>A read answers from the state and leaves it.\<close>

lemma read_and_then: "m s = (r, s) \<Longrightarrow> (\<And>x. snd (f x s) = s) \<Longrightarrow> snd (and_then m f s) = s"
  by (auto simp: and_then_def split: prod.splits sum.splits)

lemma reads_keep: "is_read req \<Longrightarrow> snd (serve c now req s) = s"
  by (cases req)
     (auto simp: reply_with_def list_tournaments_route_def get_tournament_route_def get_bracket_def
        list_participants_def list_matches_def get_standings_def reject_hidden_draft_def db_read_def
        ok_or_def db_call_def get_tournament_bracket_def and_then_def ret_def fail_def
        split: option.splits prod.splits if_splits)

lemma logged_reply: "logged a 1 h \<Longrightarrow> logged a 1 (reply_with f h)"
  using logged_and_then [OF _ logged_basic(1), of a 1 h f] by (simp add: reply_with_def)

lemma logged_serve:
  assumes "\<not> is_read req" and "officer_user c = Inr m"
  shows "logged (mb_id m) 1 (serve c now req)"
  using assms
  by (cases req) (auto simp: as_officer_def simp del: One_nat_def intro!: logged_reply logged_routes)


subsection \<open>The database behind the routes\<close>

interpretation site_db_kept: effect "\<lambda>s s'. db_ok (site_db s) \<longrightarrow> db_ok (site_db s')"
  by unfold_locales auto

interpretation site_tournaments_kept:
  effect "\<lambda>s s'. tournaments (site_db s') = tournaments (site_db s)"
  by unfold_locales auto

abbreviation site_keeps_ok :: "'a handler \<Rightarrow> bool" where
  "site_keeps_ok \<equiv> relates (\<lambda>s s'. db_ok (site_db s) \<longrightarrow> db_ok (site_db s'))"

abbreviation site_keeps_tournaments :: "'a handler \<Rightarrow> bool" where
  "site_keeps_tournaments \<equiv> relates (\<lambda>s s'. tournaments (site_db s') = tournaments (site_db s))"

lemma relates_db_call:
  "relates R q \<Longrightarrow> relates (\<lambda>s s'. R (site_db s) (site_db s')) (db_call err q)"
  "relates R q \<Longrightarrow> relates (\<lambda>s s'. R (site_db s) (site_db s')) (db_ignore q)"
  unfolding relates_def db_call_def db_ignore_def
  by (auto split: prod.splits sum.splits) (metis snd_conv)+

lemma site_steps_effect [effect_intros]:
  "keeps_db_ok q \<Longrightarrow> site_keeps_ok (db_call err q)" "keeps_tournaments q \<Longrightarrow> site_keeps_tournaments (db_call err q)"
  "keeps_db_ok q \<Longrightarrow> site_keeps_ok (db_ignore q)" "keeps_tournaments q \<Longrightarrow> site_keeps_tournaments (db_ignore q)"
  "site_keeps_ok (db_read g)" "site_keeps_tournaments (db_read g)"
  "site_keeps_ok (ok_or er y)" "site_keeps_tournaments (ok_or er y)"
  "site_keeps_ok (audit a act tt ti d)" "site_keeps_tournaments (audit a act tt ti d)"
  by (auto intro: relates_db_call [where R = "\<lambda>db db'. db_ok db \<longrightarrow> db_ok db'"]
        relates_db_call [where R = "\<lambda>db db'. tournaments db' = tournaments db"])
     (auto simp: relates_def db_read_def ok_or_def audit_def ret_def fail_def split: option.splits)

lemma bracket_read_effect [effect_intros]:
  "keeps_db_ok (get_tournament_bracket tid)" "keeps_tournaments (get_tournament_bracket tid)"
  by (auto simp: relates_def get_tournament_bracket_def split: option.splits)

lemma report_steps_effect [effect_intros]:
  "site_keeps_ok (advance_winner m w)" "site_keeps_tournaments (advance_winner m w)"
  "site_keeps_ok (advance_loser m w)" "site_keeps_tournaments (advance_loser m w)"
  "site_keeps_ok (eliminate_loser tid m w)" "site_keeps_tournaments (eliminate_loser tid m w)"
  "site_keeps_ok (complete_round_and_tournament tid m now)"
  unfolding advance_winner_def advance_loser_def eliminate_loser_def complete_round_and_tournament_def
  by (auto intro!: effect_intros split: option.split prod.split)

lemma format_effect [effect_intros]:
  "relates R f \<Longrightarrow> relates R g \<Longrightarrow> relates R h \<Longrightarrow> relates R k \<Longrightarrow>
     relates R (case fmt of SingleElim \<Rightarrow> f | DoubleElim \<Rightarrow> g | RoundRobin \<Rightarrow> h | Swiss \<Rightarrow> k)"
  by (cases fmt) simp_all

lemma routes_effect [effect_intros]:
  "site_keeps_ok (create_tournament_route m body now)"
  "site_keeps_ok (update_tournament_route m tid patch now)"
  "site_keeps_ok (transition_status m tid st now)"
  "site_keeps_ok (generate_bracket m tid now)" "site_keeps_tournaments (generate_bracket m tid now)"
  "site_keeps_ok (generate_next_round m tid now)" "site_keeps_tournaments (generate_next_round m tid now)"
  "site_keeps_ok (add_participant m tid pr now)" "site_keeps_tournaments (add_participant m tid pr now)"
  "site_keeps_ok (update_participant m tid pid pp)" "site_keeps_tournaments (update_participant m tid pid pp)"
  "site_keeps_ok (remove_participant m tid pid)" "site_keeps_tournaments (remove_participant m tid pid)"
  "site_keeps_ok (report_match m tid mid rr now)"
  unfolding create_tournament_route_def update_tournament_route_def transition_status_def generate_bracket_def
    generate_next_round_def add_participant_def update_participant_def remove_participant_def report_match_def
    Let_def
  by (auto intro!: effect_intros)

lemma reply_effect [effect_intros]: "site_keeps_ok h \<Longrightarrow> site_keeps_ok (reply_with f h)"
    "site_keeps_tournaments h \<Longrightarrow> site_keeps_tournaments (reply_with f h)"
  unfolding reply_with_def by (auto intro!: effect_intros)

lemma officer_effect [effect_intros]: "(\<And>m. site_keeps_ok (h m)) \<Longrightarrow> site_keeps_ok (as_officer c h)"
    "(\<And>m. site_keeps_tournaments (h m)) \<Longrightarrow> site_keeps_tournaments (as_officer c h)"
  unfolding as_officer_def by (auto intro!: effect_intros split: sum.split)

lemma serve_keeps_ok: "site_keeps_ok (serve c now req)"
proof (cases "is_read req")
  case True
  then show ?thesis by (simp add: relates_def reads_keep)
next
  case False
  then show ?thesis by (cases req) (auto intro!: effect_intros)
qed

subsection \<open>The status of a tournament\<close>

definition status_edges :: "(tournament_status \<times> tournament_status) set" where
  "status_edges =
     {(Draft, Registration), (Registration, InProgress), (InProgress, Completed), (Completed, Archived),
      (Draft, Archived), (Registration, Archived), (InProgress, Archived)}"

definition all_done :: "string \<Rightarrow> tdb \<Rightarrow> bool" where
  "all_done tid db \<longleftrightarrow> list_all (\<lambda>(_, m). match_done m) (list_tournament_matches tid db)"

lemma transition_edge: "transition_refusal tid t new db = None \<Longrightarrow> (tn_status_of t, new) \<in> status_edges"
  by (cases "tn_status_of t"; cases new) (simp_all add: transition_refusal_def status_edges_def split: if_splits)

text \<open>What one request does to the tournament table.\<close>

inductive tournament_effect :: "tournament_request \<Rightarrow> site \<Rightarrow> site \<Rightarrow> bool" where
  same: "tournaments (site_db s') = tournaments (site_db s) \<Longrightarrow> tournament_effect req s s'"
| edited: "rows (tournaments (site_db s)) k = Some t \<Longrightarrow> tn_status t' = tn_status t \<Longrightarrow>
    tournaments (site_db s') = t_update k t' (tournaments (site_db s)) \<Longrightarrow> tournament_effect req s s'"
| created: "tn_status r = ''draft'' \<Longrightarrow>
    tournaments (site_db s') = t_create (fresh_id (site_db s)) r (tournaments (site_db s)) \<Longrightarrow>
    tournament_effect (CreateTournament body) s s'"
| moved: "rows (tournaments (site_db s)) k = Some t \<Longrightarrow> (tn_status_of t, new) \<in> status_edges \<Longrightarrow>
    tournaments (site_db s') =
      t_update k (t\<lparr>tn_status := status_to_string new, tn_updated_at := now\<rparr>) (tournaments (site_db s)) \<Longrightarrow>
    tournament_effect (TransitionStatus k st) s s'"
| completed: "rows (tournaments (site_db s)) k = Some t \<Longrightarrow> all_done k (site_db s') \<Longrightarrow>
    tournaments (site_db s') =
      t_update k (t\<lparr>tn_status := ''completed'', tn_updated_at := now\<rparr>) (tournaments (site_db s)) \<Longrightarrow>
    tournament_effect (ReportMatch k mid body) s s'"

lemma create_tournament_effect:
  "relates (tournament_effect (CreateTournament body)) (create_tournament_route m body now)"
  unfolding relates_def
  by (intro allI, rule created)
     (auto simp: create_tournament_route_def db_call_def create_tournament_def Let_def audit_def ret_def and_then_def)

lemma update_tournament_effect:
  "relates (tournament_effect req) (update_tournament_route m tid patch now)"
  unfolding relates_def
proof
  fix s
  show "tournament_effect req s (snd (update_tournament_route m tid patch now s))"
  proof (cases "rows (tournaments (site_db s)) tid")
    case None
    then show ?thesis
      by (intro same) (simp add: update_tournament_route_def db_call_def update_tournament_def and_then_def)
  next
    case (Some t)
    then show ?thesis
      by (intro edited [of s tid t]) (auto simp: update_tournament_route_def db_call_def update_tournament_def
          Let_def audit_def ret_def and_then_def)
  qed
qed

lemma transition_effect:
  "relates (tournament_effect (TransitionStatus tid st)) (transition_status m tid st now)"
  unfolding relates_def
proof
  fix s
  let ?s' = "snd (transition_status m tid st now s)"
  consider t new where "rows (tournaments (site_db s)) tid = Some t" "requested_status st = Some new"
      "transition_refusal tid t new (site_db s) = None" |
    "?s' = s"
    by (cases "rows (tournaments (site_db s)) tid"; cases "requested_status st";
        cases "transition_refusal tid (the (rows (tournaments (site_db s)) tid)) (the (requested_status st)) (site_db s)")
       (auto simp: transition_status_def db_read_def and_then_def ok_or_def fail_def ret_def
          get_tournament_def split: option.splits)
  then show "tournament_effect (TransitionStatus tid st) s ?s'"
  proof cases
    case 1
    from 1 transition_edge [OF 1(3)] show ?thesis
      by (intro moved [of s tid t new _ now])
         (auto simp: transition_status_def db_read_def and_then_def ok_or_def ret_def
            get_tournament_def db_call_def update_tournament_status_def Let_def audit_def)
  next
    case 2
    then show ?thesis by (simp add: same)
  qed
qed

lemma complete_effect:
  "relates (tournament_effect (ReportMatch tid mid body)) (complete_round_and_tournament tid m now)"
  unfolding relates_def
proof
  fix s :: site
  let ?db = "site_db s"
  have round: "list_tournament_matches tid (snd (update_round_status rid st db)) = list_tournament_matches tid db"
    "tournaments (snd (update_round_status rid st db)) = tournaments db" for rid st db
    by (auto simp: update_round_status_def list_tournament_matches_def Let_def split: option.splits)
  obtain db' where db': "tournaments db' = tournaments ?db" "list_tournament_matches tid db' = list_tournament_matches tid ?db"
    and run: "snd (complete_round_and_tournament tid m now s) =
      (if all_done tid ?db then s\<lparr>site_db := snd (update_tournament_status tid Completed now db')\<rparr>
       else s\<lparr>site_db := db'\<rparr>)"
    by (rule that [of "if list_all (\<lambda>(_, m'). match_done m')
            (filter (\<lambda>(_, m'). ma_round_id m' = ma_round_id m) (list_tournament_matches tid ?db))
          then snd (update_round_status (ma_round_id m) RoundCompleted ?db) else ?db"])
       (auto simp: complete_round_and_tournament_def db_read_def db_ignore_def and_then_def ret_def
          all_done_def round)
  show "tournament_effect (ReportMatch tid mid body) s (snd (complete_round_and_tournament tid m now s))"
  proof (cases "all_done tid ?db \<and> rows (tournaments ?db) tid \<noteq> None")
    case True
    then obtain t where "rows (tournaments ?db) tid = Some t" by blast
    with True db' show ?thesis
      unfolding run
      by (intro completed [of s tid t _ now])
         (auto simp: update_tournament_status_def Let_def all_done_def list_tournament_matches_def)
  next
    case False
    with db' show ?thesis
      unfolding run by (intro same) (auto simp: update_tournament_status_def split: option.splits)
  qed
qed

inductive_cases report_effectE: "tournament_effect (ReportMatch tid mid body) s s'"

lemma report_effect_absorb:
  assumes "tournaments (site_db s1) = tournaments (site_db s)" and "tournament_effect (ReportMatch tid mid body) s1 s2"
  shows "tournament_effect (ReportMatch tid mid body) s s2"
  using assms(2)
  by (cases rule: report_effectE) (auto simp: assms(1) intro: tournament_effect.intros)

lemma tournament_effect_reply:
  assumes "tournament_effect req s s1" and "site_db s2 = site_db s1"
  shows "tournament_effect req s s2"
  using assms(1) by (cases rule: tournament_effect.cases) (auto simp: assms(2) intro: tournament_effect.intros)

lemma report_effect_step:
  assumes "site_keeps_tournaments h" and "\<And>x. relates (tournament_effect (ReportMatch tid mid body)) (f x)"
  shows "relates (tournament_effect (ReportMatch tid mid body)) (and_then h f)"
  by (rule relates_absorb [OF assms]) (auto intro: same report_effect_absorb)

lemma tournament_effect_after:
  assumes "relates (tournament_effect req) h" and "\<And>x s. site_db (snd (f x s)) = site_db s"
  shows "relates (tournament_effect req) (and_then h f)"
  unfolding relates_def
proof
  fix s
  obtain r s1 where h: "h s = (r, s1)" by force
  have "tournament_effect req s s1" by (rule relatesD [OF assms(1) h])
  moreover have "site_db (snd (and_then h f s)) = site_db s1"
    using h assms(2) by (cases r) simp_all
  ultimately show "tournament_effect req s (snd (and_then h f s))" by (rule tournament_effect_reply)
qed

lemma report_effect:
  "relates (tournament_effect (ReportMatch tid mid body)) (report_match m tid mid body now)"
proof -
  have stop: "relates (tournament_effect (ReportMatch tid mid body)) (fail e)" for e
    by (simp add: relates_def fail_def same)
  have last: "relates (tournament_effect (ReportMatch tid mid body))
      (and_then (complete_round_and_tournament tid x now) (\<lambda>_. and_then (audit a b c d e) (\<lambda>_. ret y)))"
    for x a b c d e y
    by (rule tournament_effect_after [OF complete_effect]) (simp add: audit_def and_then_def ret_def)
  show ?thesis
    unfolding report_match_def Let_def
    by (auto intro!: report_effect_step stop last effect_intros relates_cases)
qed

lemma tournament_effect_reply_with:
  "relates (tournament_effect req) h \<Longrightarrow> relates (tournament_effect req) (reply_with f h)"
  unfolding reply_with_def by (erule tournament_effect_after) (simp add: ret_def)

lemma tournament_effect_officer:
  "(\<And>m. relates (tournament_effect req) (h m)) \<Longrightarrow> relates (tournament_effect req) (as_officer c h)"
  by (auto simp: as_officer_def relates_def fail_def intro: same split: sum.split)

lemma serve_effect: "relates (tournament_effect req) (serve c now req)"
proof -
  have kept: "relates (tournament_effect q) h" if "site_keeps_tournaments h" for q and h :: "response handler"
    using that by (auto simp: relates_def intro: same)
  show ?thesis
  proof (cases "is_read req")
    case True
    then show ?thesis by (simp add: relates_def reads_keep same)
  next
    case False
    note route = tournament_effect_officer tournament_effect_reply_with
    show ?thesis
    proof (cases req)
      case (CreateTournament body)
      show ?thesis unfolding CreateTournament serve.simps by (intro route create_tournament_effect)
    next
      case (UpdateTournament tid patch)
      show ?thesis unfolding UpdateTournament serve.simps by (intro route update_tournament_effect)
    next
      case (TransitionStatus tid st)
      show ?thesis unfolding TransitionStatus serve.simps by (intro route transition_effect)
    next
      case (ReportMatch tid mid body)
      show ?thesis unfolding ReportMatch serve.simps by (intro route report_effect)
    qed (use False in \<open>auto intro!: kept effect_intros\<close>)
  qed
qed

subsection \<open>Sequences of requests\<close>

fun serve_all :: "(caller \<times> instant \<times> tournament_request) list \<Rightarrow> site \<Rightarrow> site" where
  "serve_all [] s = s"
| "serve_all ((c, now, req) # rest) s = serve_all rest (snd (serve c now req s))"

definition site_ok :: "site \<Rightarrow> bool" where
  "site_ok s \<longleftrightarrow> db_ok (site_db s) \<and>
     (\<forall>k t. rows (tournaments (site_db s)) k = Some t \<longrightarrow> tn_status t = status_to_string (tn_status_of t))"

lemma parse_literals [simp]: "parse_status ''draft'' = Draft" "parse_status ''completed'' = Completed"
  by (simp_all add: parse_status_def)

lemma site_ok_serve:
  assumes "site_ok s"
  shows "site_ok (snd (serve c now req s))"
proof -
  have "db_ok (site_db (snd (serve c now req s)))"
    using serve_keeps_ok [of c now req] assms by (simp add: relates_def site_ok_def)
  moreover have "tournament_effect req s (snd (serve c now req s))"
    using serve_effect [of req c now] by (simp add: relates_def)
  then have "\<forall>k t. rows (tournaments (site_db (snd (serve c now req s)))) k = Some t \<longrightarrow>
      tn_status t = status_to_string (tn_status_of t)"
    using assms
    by (cases rule: tournament_effect.cases) (auto simp: site_ok_def tn_status_of_def)
  ultimately show ?thesis by (simp add: site_ok_def)
qed

lemma site_ok_serve_all: "site_ok s \<Longrightarrow> site_ok (serve_all reqs s)"
  by (induction reqs s rule: serve_all.induct) (simp_all add: site_ok_serve)

text \<open>
  The state of the site is well formed after any sequence of requests, by anybody and in
  any order, from a well-formed state: record ids are never reused, every table is consistent, and every stored
  status is one of the five. A fresh site is well formed.
\<close>

theorem site_invariant:
  assumes "site_ok s"
  shows "site_ok (serve_all reqs s)"
  using assms by (rule site_ok_serve_all)

text \<open>A tournament after one request.\<close>

lemma status_step:
  assumes ok: "site_ok s" and t: "rows (tournaments (site_db s)) tid = Some t"
    and run: "serve c now req s = (r, s')"
  shows "\<exists>t'. rows (tournaments (site_db s')) tid = Some t' \<and>
    (tn_status_of t' = tn_status_of t \<or>
     (\<exists>st. req = TransitionStatus tid st \<and> (tn_status_of t, tn_status_of t') \<in> status_edges) \<or>
     (\<exists>mid body. req = ReportMatch tid mid body \<and> tn_status_of t' = Completed \<and> all_done tid (site_db s')))"
proof -
  have "tournament_effect req s s'" by (rule relatesD [OF serve_effect run])
  then show ?thesis
  proof (cases rule: tournament_effect.cases)
    case same
    then show ?thesis using t by simp
  next
    case (edited k u u')
    then show ?thesis using t by (auto simp: tn_status_of_def)
  next
    case (created u body)
    have "tid \<noteq> fresh_id (site_db s)"
      using t fresh_rows(1) [of "site_db s"] ok by (auto simp: site_ok_def)
    then show ?thesis using t created by simp
  next
    case (moved k u new now' st)
    then show ?thesis using t by (auto simp: tn_status_of_def)
  next
    case (completed k u now' mid body)
    then show ?thesis using t by (auto simp: tn_status_of_def)
  qed
qed

text \<open>
  C22: the status machine. One request changes the status of a tournament only along an edge
  of the machine (draft, registration, in progress, completed, archived, and archiving from everywhere)
  and only if it is a transition request for this tournament; or to completed, by the report of a match of
  this tournament after which every one of its matches is completed or a bye. No request removes a
  tournament.
\<close>

theorem status_machine:
  assumes "site_ok s" and "get_tournament tid (site_db s) = Some t" and "serve c now req s = (r, s')"
  shows "\<exists>t'. get_tournament tid (site_db s') = Some t' \<and>
    (tn_status_of t' = tn_status_of t \<or>
     (\<exists>st. req = TransitionStatus tid st \<and> (tn_status_of t, tn_status_of t') \<in> status_edges) \<or>
     (\<exists>mid body. req = ReportMatch tid mid body \<and> tn_status_of t' = Completed \<and> all_done tid (site_db s')))"
  using status_step [OF assms(1) _ assms(3)] assms(2) by (simp add: get_tournament_def)

fun phase :: "tournament_status \<Rightarrow> nat" where
  "phase Draft = 0"
| "phase Registration = 1"
| "phase InProgress = 2"
| "phase Completed = 3"
| "phase Archived = 3"

lemma phase_edge: "(a, b) \<in> status_edges \<Longrightarrow> phase a \<le> phase b"
  by (auto simp: status_edges_def)

lemma phase_max: "phase st \<le> 3"
  by (cases st) simp_all

text \<open>No request removes a tournament.\<close>

lemma tournament_stays:
  assumes "site_ok s" and "get_tournament tid (site_db s) = Some t"
  shows "\<exists>t'. get_tournament tid (site_db (serve_all reqs s)) = Some t'"
  using assms
proof (induction reqs s arbitrary: t rule: serve_all.induct)
  case (2 c now req rest s)
  let ?s = "snd (serve c now req s)"
  have "serve c now req s = (fst (serve c now req s), ?s)" by simp
  from status_step [OF 2(2) _ this] 2(3) obtain t1 where "get_tournament tid (site_db ?s) = Some t1"
    by (auto simp: get_tournament_def)
  from 2(1) [OF site_ok_serve [OF 2(2)] this] show ?case by simp
qed simp

text \<open>
  A tournament never goes back. Over any sequence of requests a published tournament never
  becomes a draft again, a started one never returns to registration, and a finished one stays finished.
\<close>

theorem status_never_returns:
  assumes "site_ok s" and "get_tournament tid (site_db s) = Some t"
  shows "\<exists>t'. get_tournament tid (site_db (serve_all reqs s)) = Some t' \<and>
    phase (tn_status_of t) \<le> phase (tn_status_of t')"
  using assms
proof (induction reqs s arbitrary: t rule: serve_all.induct)
  case (2 c now req rest s)
  let ?s = "snd (serve c now req s)"
  have "serve c now req s = (fst (serve c now req s), ?s)" by simp
  from status_step [OF 2(2) _ this] 2(3) obtain t1 where
    t1: "get_tournament tid (site_db ?s) = Some t1" "phase (tn_status_of t) \<le> phase (tn_status_of t1)"
    using phase_edge phase_max by (auto simp: get_tournament_def) fastforce+
  from 2(1) [OF site_ok_serve [OF 2(2)] t1(1)] t1(2) show ?case by (auto intro: le_trans)
qed auto

subsection \<open>Drafts\<close>

lemma listed_not_draft:
  assumes "site_ok s" and "(k, t) \<in> set (list_tournaments_paginated st g lim off False (site_db s))"
  shows "tn_status_of t \<noteq> Draft"
proof -
  have "(k, t) \<in> set (t_list (\<lambda>r. (case st of None \<Rightarrow> True | Some x \<Rightarrow> tn_status r = status_to_string x) \<and>
      (case g of None \<Rightarrow> True | Some y \<Rightarrow> tn_game_id r = Some y) \<and> (False \<or> tn_status r \<noteq> ''draft''))
      (tournaments (site_db s)))"
    using in_set_dropD [OF in_set_takeD [OF assms(2) [unfolded list_tournaments_paginated_def]]] by simp
  moreover have "table_ok (tournaments (site_db s))" using assms(1) by (simp add: site_ok_def db_ok_def)
  ultimately have "rows (tournaments (site_db s)) k = Some t" "tn_status t \<noteq> ''draft''"
    by (auto simp: set_t_list)
  moreover from this(1) have "tn_status t = status_to_string (tn_status_of t)"
    using assms(1) by (auto simp: site_ok_def)
  ultimately show ?thesis by (metis status_to_string.simps(1))
qed

lemma reply_stop:
  "h s = (Inl e, s) \<Longrightarrow> reply_with f h s = (Inl e, s)"
  "m s = (Inl e, s) \<Longrightarrow> reply_with f (and_then m g) s = (Inl e, s)"
  by (simp_all add: reply_with_def and_then_def)

text \<open>
  C27: drafts are hidden. To anybody who does not manage tournaments (anonymous callers, members,
  recruits, inactive or suspended officers) a draft does not exist: asking for the tournament, its
  bracket, participants, matches or standings gives the same 404, and no page of the list holds a draft,
  whatever filter and cursor is asked for.
\<close>

theorem drafts_hidden:
  assumes "site_ok s" and "\<not> manages_tournaments (optional_org_member c)"
    and "get_tournament tid (site_db s) = Some t" and "tn_status_of t = Draft"
  shows "(\<forall>req \<in> {GetTournament tid, GetBracket tid, ListParticipants tid, ListMatches tid, GetStandings tid}.
      serve c now req s = (Inl (not_found ''Tournament not found''), s)) \<and>
    (\<exists>page. serve c now (ListTournaments q) s = (Inr (TournamentPage page), s) \<and>
      (\<forall>(k, u) \<in> set (data page). tn_status_of u \<noteq> Draft))"
proof
  have hide: "reject_hidden_draft tid (optional_org_member c) s = (Inl (not_found ''Tournament not found''), s)"
    using assms by (simp add: reject_hidden_draft_def db_read_def and_then_def fail_def)
  have "get_tournament_route (optional_org_member c) tid s = (Inl (not_found ''Tournament not found''), s)"
    using assms by (simp add: get_tournament_route_def db_read_def and_then_def ok_or_def ret_def fail_def)
  then show "\<forall>req \<in> {GetTournament tid, GetBracket tid, ListParticipants tid, ListMatches tid, GetStandings tid}.
      serve c now req s = (Inl (not_found ''Tournament not found''), s)"
    by (simp add: get_bracket_def list_participants_def list_matches_def get_standings_def reply_stop hide)
  obtain lim off where r: "resolve \<lparr>cursor = q_cursor q, limit = q_limit q\<rparr> = (lim, off)" by force
  let ?items = "list_tournaments_paginated (Option.bind (q_status q) query_status) (q_game_id q) lim off False (site_db s)"
  have "serve c now (ListTournaments q) s = (Inr (TournamentPage (from_oversized ?items lim off)), s)"
    using assms(2) r by (simp add: reply_with_def list_tournaments_route_def db_read_def and_then_def ret_def)
  moreover have "set (data (from_oversized ?items lim off)) \<subseteq> set ?items"
    by (auto simp: from_oversized_def Let_def dest: in_set_takeD)
  ultimately show "\<exists>page. serve c now (ListTournaments q) s = (Inr (TournamentPage page), s) \<and>
      (\<forall>(k, u) \<in> set (data page). tn_status_of u \<noteq> Draft)"
    using listed_not_draft [OF assms(1)] by fast
qed

subsection \<open>A concrete site\<close>

definition nobody :: caller where
  "nobody = \<lparr>auth_user = Inl (Status 401 ''Unauthorized''), member_lookup = (\<lambda>_. Inr None)\<rparr>"

definition an_officer :: caller where
  "an_officer =
     \<lparr>auth_user = Inr ''u'',
      member_lookup = (\<lambda>_. Inr (Some (\<lparr>mb_id = ''m'', mb_role = Officer, mb_is_active = True\<rparr>, False)))\<rparr>"

definition empty_site :: site where
  "empty_site = \<lparr>audit_log = [], site_db = empty_db\<rparr>"

definition wit_create :: tournament_request where
  "wit_create = CreateTournament
     \<lparr>cr_name = ''Cup'', cr_game_id = None, cr_format = Swiss, cr_max_teams = None, cr_best_of = 1,
      cr_swiss_rounds = None, cr_is_external = False, cr_is_open = False, cr_external_url = None,
      cr_rules = None, cr_description = None, cr_starts_at = None, cr_ends_at = None\<rparr>"

definition draft_site :: site where
  "draft_site = snd (serve an_officer 0 wit_create empty_site)"

lemma site_ok_empty: "site_ok empty_site"
  using db_ok_entrants [of 0] by (simp add: site_ok_def empty_site_def) (simp add: empty_db_def t_empty_def)

lemma draft_site: "site_ok draft_site" "\<exists>t. get_tournament [] (site_db draft_site) = Some t \<and> tn_status_of t = Draft"
proof -
  show "site_ok draft_site" unfolding draft_site_def by (rule site_ok_serve [OF site_ok_empty])
  show "\<exists>t. get_tournament [] (site_db draft_site) = Some t \<and> tn_status_of t = Draft"
    by (simp add: draft_site_def wit_create_def as_officer_def officer_user_def org_member_def an_officer_def
        is_at_least_def reply_with_def create_tournament_route_def db_call_def create_tournament_def Let_def
        audit_def and_then_def ret_def empty_site_def empty_db_def fresh_id_def get_tournament_def tn_status_of_def)
qed

theorem site_invariant_witness: "site_ok (serve_all [(an_officer, 0, wit_create)] empty_site)"
  by (rule site_invariant [OF site_ok_empty])

theorem drafts_hidden_witness:
  "serve nobody 0 (GetBracket []) draft_site = (Inl (not_found ''Tournament not found''), draft_site)"
proof -
  obtain t where t: "get_tournament [] (site_db draft_site) = Some t" "tn_status_of t = Draft"
    using draft_site(2) by blast
  have no: "\<not> manages_tournaments (optional_org_member nobody)"
    by (simp add: manages_tournaments_def optional_org_member_def org_member_def nobody_def)
  from drafts_hidden [OF draft_site(1) no t] show ?thesis by simp
qed

theorem status_machine_witness:
  "\<exists>t'. get_tournament [] (site_db (snd (serve an_officer 1 (TransitionStatus [] ''registration'') draft_site))) = Some t'"
proof -
  obtain t where t: "get_tournament [] (site_db draft_site) = Some t" "tn_status_of t = Draft"
    using draft_site(2) by blast
  have "serve an_officer 1 (TransitionStatus [] ''registration'') draft_site =
      (fst (serve an_officer 1 (TransitionStatus [] ''registration'') draft_site),
       snd (serve an_officer 1 (TransitionStatus [] ''registration'') draft_site))" by simp
  from status_machine [OF draft_site(1) t(1) this] show ?thesis by blast
qed

theorem status_never_returns_witness:
  "\<exists>t'. get_tournament [] (site_db (serve_all
      [(an_officer, 1, TransitionStatus [] ''archived''), (an_officer, 2, TransitionStatus [] ''registration'')]
      draft_site)) = Some t'"
proof -
  obtain t where t: "get_tournament [] (site_db draft_site) = Some t"
    using draft_site(2) by blast
  from status_never_returns [OF draft_site(1) t] show ?thesis by blast
qed

end
