(* ===== verification/TournamentPlay.thy ===== *)
theory TournamentPlay
  imports RouteRules
begin

text \<open>
  Playing a tournament through the report route: what one successful report leaves in the
  database, and that a generated single-elimination bracket can be played to its end.
\<close>

subsection \<open>The effect of a report\<close>

text \<open>Match, slot and participant of the moves a report makes.\<close>

definition moves :: "db_match \<Rightarrow> string \<Rightarrow> (string \<times> string \<times> string) list" where
  "moves m winner =
     (case (ma_next_match_id m, ma_next_match_slot m) of
        (Some k, Some slot) \<Rightarrow> [(k, slot, winner)] | _ \<Rightarrow> []) @
     (case (ma_loser_next_match_id m, ma_loser_next_match_slot m, loser_of m winner) of
        (Some k, Some slot, Some loser) \<Rightarrow> [(k, slot, loser)] | _ \<Rightarrow> [])"

definition move_change :: "string \<times> string \<times> string \<Rightarrow> string \<times> (db_match \<Rightarrow> db_match)" where
  "move_change mv = (case mv of (k, slot, p) \<Rightarrow> (k, set_slot slot p))"

definition winner_of :: "report_request \<Rightarrow> string" where
  "winner_of body = trim (re_winner_id body)"

definition reported :: "report_request \<Rightarrow> instant \<Rightarrow> db_match \<Rightarrow> db_match" where
  "reported body now m =
     reported_row m (re_score_a body) (re_score_b body) (winner_of body) (re_notes body)
       (case re_replay_codes body of None \<Rightarrow> [] | Some cs \<Rightarrow> cs) now"

definition match_changes :: "report_request \<Rightarrow> instant \<Rightarrow> string \<Rightarrow> db_match \<Rightarrow> (string \<times> (db_match \<Rightarrow> db_match)) list"
where
  "match_changes body now mid m = (mid, reported body now) # map move_change (moves m (winner_of body))"

text \<open>The request is one the handler's checks let through.\<close>

definition acceptable :: "string \<Rightarrow> report_request \<Rightarrow> db_match \<Rightarrow> bool" where
  "acceptable tid body m \<longleftrightarrow>
     ma_tournament_id m = tid \<and> reportable m (re_score_a body) (re_score_b body) (winner_of body) \<and>
     (ma_participant_a_id m = Some (winner_of body) \<or> ma_participant_b_id m = Some (winner_of body))"

lemma modify_put: "rows (matches db) k = Some m \<Longrightarrow> put_match k (f m) db = modify_match (k, f) db"
  by (simp add: modify_def)

definition has_match :: "tdb \<Rightarrow> string \<Rightarrow> bool" where
  "has_match db k \<longleftrightarrow> rows (matches db) k \<noteq> None"

lemma has_match_modify [simp]: "has_match (modify_match u db) k = has_match db k"
  by (simp add: has_match_def match_rows.dom_modify del: not_None_eq)

definition writable :: "tdb \<Rightarrow> string \<times> string \<times> string \<Rightarrow> bool" where
  "writable db mv = (case mv of (k, slot, p) \<Rightarrow> has_match db k \<and> slot \<in> {''a'', ''b''})"

lemma slot_written:
  "set_match_participant k slot p db = (Inr x, db') \<longleftrightarrow>
     writable db (k, slot, p) \<and> db' = modify_match (move_change (k, slot, p)) db"
proof (cases "writable db (k, slot, p)")
  case True
  then show ?thesis
    using set_match_participant_modify [of db k slot p]
    by (auto simp: writable_def has_match_def move_change_def)
next
  case False
  then show ?thesis
    by (auto simp: set_match_participant_def writable_def has_match_def split: option.splits if_splits)
qed

lemma db_call_Inr:
  "db_call err f s = (Inr x, s') \<longleftrightarrow> (\<exists>db. f (site_db s) = (Inr x, db) \<and> s' = s\<lparr>site_db := db\<rparr>)"
  by (auto simp: db_call_def split: prod.splits sum.splits)

lemma writable_modify [simp]: "writable (modify_match u db) mv = writable db mv"
  by (simp add: writable_def split: prod.splits)

text \<open>Both advancing steps in a row.\<close>

lemma advance_run:
  "and_then (advance_winner m w) (\<lambda>_. advance_loser m w) s = (Inr x, s') \<longleftrightarrow>
     list_all (writable (site_db s)) (moves m w) \<and>
     s' = s\<lparr>site_db := fold modify_match (map move_change (moves m w)) (site_db s)\<rparr>"
  by (auto simp: and_then_Inr_iff advance_winner_def advance_loser_def moves_def db_call_Inr
      slot_written ret_def split: option.splits)

text \<open>The rest of the handler does not touch the matches.\<close>

definition status_after :: "string \<Rightarrow> instant \<Rightarrow> tdb \<Rightarrow> db_tournament \<Rightarrow> db_tournament" where
  "status_after tid now db t =
     (if all_done tid db then t\<lparr>tn_status := ''completed'', tn_updated_at := now\<rparr> else t)"

lemma eliminate_run:
  "\<exists>db. eliminate_loser tid m w s = (Inr (), s\<lparr>site_db := db\<rparr>) \<and> matches db = matches (site_db s) \<and>
     tournaments db = tournaments (site_db s) \<and> mk_id db = mk_id (site_db s)"
proof -
  have upd: "matches (snd (update_tournament_participant p a b c db)) = matches db \<and>
      tournaments (snd (update_tournament_participant p a b c db)) = tournaments db \<and>
      mk_id (snd (update_tournament_participant p a b c db)) = mk_id db" for p a b c db
    by (simp add: update_tournament_participant_def Let_def split: option.splits)
  have "\<exists>db. s = s\<lparr>site_db := db\<rparr> \<and> matches db = matches (site_db s) \<and>
      tournaments db = tournaments (site_db s) \<and> mk_id db = mk_id (site_db s)"
    by (rule exI [of _ "site_db s"]) simp
  with upd show ?thesis
    by (auto simp: eliminate_loser_def db_read_def db_ignore_def ret_def and_then_def split: option.splits)
qed

lemma complete_run:
  "\<exists>db. complete_round_and_tournament tid m now s = (Inr (), s\<lparr>site_db := db\<rparr>) \<and>
     matches db = matches (site_db s) \<and> mk_id db = mk_id (site_db s) \<and>
     rows (tournaments db) tid = map_option (status_after tid now (site_db s)) (rows (tournaments (site_db s)) tid)"
proof -
  let ?db = "site_db s"
  have round: "matches (snd (update_round_status rid st db)) = matches db \<and>
      tournaments (snd (update_round_status rid st db)) = tournaments db \<and>
      mk_id (snd (update_round_status rid st db)) = mk_id db" for rid st db
    by (simp add: update_round_status_def Let_def split: option.splits)
  have tour: "matches (snd (update_tournament_status tid Completed now db)) = matches db \<and>
      mk_id (snd (update_tournament_status tid Completed now db)) = mk_id db \<and>
      rows (tournaments (snd (update_tournament_status tid Completed now db))) tid =
        map_option (\<lambda>t. t\<lparr>tn_status := ''completed'', tn_updated_at := now\<rparr>) (rows (tournaments db) tid)" for db
    by (simp add: update_tournament_status_def Let_def split: option.splits)
  define db1 where "db1 = (if list_all (\<lambda>(_, m'). match_done m')
        (filter (\<lambda>(_, m'). ma_round_id m' = ma_round_id m) (list_tournament_matches tid ?db))
      then snd (update_round_status (ma_round_id m) RoundCompleted ?db) else ?db)"
  have db1: "matches db1 = matches ?db" "tournaments db1 = tournaments ?db" "mk_id db1 = mk_id ?db"
    using round by (simp_all add: db1_def)
  have "complete_round_and_tournament tid m now s =
      (Inr (), s\<lparr>site_db := if all_done tid ?db then snd (update_tournament_status tid Completed now db1) else db1\<rparr>)"
    by (simp add: complete_round_and_tournament_def db_read_def db_ignore_def ret_def and_then_def all_done_def
        db1_def)
  moreover have "rows (tournaments (if all_done tid ?db then snd (update_tournament_status tid Completed now db1) else db1)) tid =
      map_option (status_after tid now ?db) (rows (tournaments ?db) tid)"
    using db1 tour [of db1] by (cases "rows (tournaments ?db) tid") (simp_all add: status_after_def)
  ultimately show ?thesis using db1 tour [of db1] by fastforce
qed

text \<open>The handler up to the write of the result, and after it.\<close>

definition report_tail ::
  "site_member \<Rightarrow> string \<Rightarrow> string \<Rightarrow> report_request \<Rightarrow> instant \<Rightarrow> string \<times> db_match \<Rightarrow> (string \<times> db_match) handler"
where
  "report_tail officer tid mid body now res =
     and_then (and_then (advance_winner (snd res) (winner_of body)) (\<lambda>_. advance_loser (snd res) (winner_of body))) (\<lambda>_.
     and_then (eliminate_loser tid (snd res) (winner_of body)) (\<lambda>_.
     and_then (complete_round_and_tournament tid (snd res) now) (\<lambda>_.
     and_then (audit (mb_id officer) ReportedTournamentMatch TargetTournamentMatch mid
         (Some (decimal (unat (re_score_a body)) @ ''-'' @ decimal (unat (re_score_b body))))) (\<lambda>_. ret res))))"

lemma report_match_split:
  "report_match officer tid mid body now s =
     (case rows (matches (site_db s)) mid of
        None \<Rightarrow> (Inl (not_found ''Match not found''), s)
      | Some m \<Rightarrow>
          if ma_tournament_id m \<noteq> tid then (Inl (not_found ''Match not found in this tournament''), s)
          else if winner_of body = [] \<or>
              (ma_participant_a_id m \<noteq> Some (winner_of body) \<and> ma_participant_b_id m \<noteq> Some (winner_of body))
          then (Inl (bad_request ''winner_id must be one of the match participants''), s)
          else and_then (db_call report_error (report_tournament_match mid (re_score_a body) (re_score_b body)
                 (winner_of body) (re_notes body) (case re_replay_codes body of None \<Rightarrow> [] | Some cs \<Rightarrow> cs) now))
               (report_tail officer tid mid body now) s)"
  by (simp add: report_match_def Let_def winner_of_def db_read_def and_then_def [of "db_read f" for f]
      get_tournament_match_def ok_or_def fail_def ret_def report_tail_def [abs_def] and_then_assoc
      case_prod_beta' split: option.split)

lemma reported_fields [simp]:
  "ma_tournament_id (reported body now m) = ma_tournament_id m"
  "ma_participant_a_id (reported body now m) = ma_participant_a_id m"
  "ma_participant_b_id (reported body now m) = ma_participant_b_id m"
  "ma_next_match_id (reported body now m) = ma_next_match_id m"
  "ma_next_match_slot (reported body now m) = ma_next_match_slot m"
  "ma_loser_next_match_id (reported body now m) = ma_loser_next_match_id m"
  "ma_loser_next_match_slot (reported body now m) = ma_loser_next_match_slot m"
  "ma_status (reported body now m) = ''completed''"
  by (simp_all add: reported_def reported_row_def)

lemma moves_reported [simp]: "moves (reported body now m) w = moves m w"
  unfolding moves_def loser_of_def reported_fields ..

lemma winner_of_trim [simp]: "trim (winner_of body) = winner_of body"
  by (simp add: winner_of_def trim_idem)

lemma has_match_put: "has_match db k \<Longrightarrow> has_match (put_match k m db) i = has_match db i"
  by (auto simp: has_match_def match_rows.sel_put)

lemma report_match_run:
  assumes m: "rows (matches (site_db s)) mid = Some m" and ok: "acceptable tid body m"
    and mv: "list_all (writable (site_db s)) (moves m (winner_of body))"
  shows "\<exists>s'. report_match officer tid mid body now s = (Inr (mid, reported body now m), s') \<and>
    matches (site_db s') = matches (fold modify_match (match_changes body now mid m) (site_db s)) \<and>
    mk_id (site_db s') = mk_id (site_db s) \<and>
    rows (tournaments (site_db s')) tid =
      map_option (status_after tid now (site_db s')) (rows (tournaments (site_db s)) tid)"
proof -
  let ?m = "reported body now m" and ?w = "winner_of body"
  let ?codes = "case re_replay_codes body of None \<Rightarrow> [] | Some cs \<Rightarrow> cs"
  define s1 where "s1 = s\<lparr>site_db := put_match mid ?m (site_db s)\<rparr>"
  have here: "has_match (site_db s) mid" using m by (simp add: has_match_def)
  have "report_tournament_match mid (re_score_a body) (re_score_b body) ?w (re_notes body) ?codes now (site_db s) =
      (Inr (mid, ?m), put_match mid ?m (site_db s))"
    using report_success [OF m, of "re_score_a body" "re_score_b body" ?w] ok
    by (simp add: acceptable_def reported_def)
  then have run1: "db_call report_error (report_tournament_match mid (re_score_a body) (re_score_b body) ?w
      (re_notes body) ?codes now) s = (Inr (mid, ?m), s1)"
    by (simp add: db_call_def s1_def)
  define s2 where "s2 = s1\<lparr>site_db := fold modify_match (map move_change (moves m ?w)) (site_db s1)\<rparr>"
  have "list_all (writable (site_db s1)) (moves m ?w)"
    using mv has_match_put [OF here, of ?m] by (auto simp: list_all_iff writable_def s1_def)
  then have run2: "and_then (advance_winner ?m ?w) (\<lambda>_. advance_loser ?m ?w) s1 = (Inr (), s2)"
    using advance_run [of ?m ?w s1 "()" s2] by (simp add: s2_def)
  obtain d3 where run3: "eliminate_loser tid ?m ?w s2 = (Inr (), s2\<lparr>site_db := d3\<rparr>)"
    and d3: "matches d3 = matches (site_db s2)" "tournaments d3 = tournaments (site_db s2)" "mk_id d3 = mk_id (site_db s2)"
    using eliminate_run [of tid ?m ?w s2] by blast
  define s3 where "s3 = s2\<lparr>site_db := d3\<rparr>"
  obtain d4 where run4: "complete_round_and_tournament tid ?m now s3 = (Inr (), s3\<lparr>site_db := d4\<rparr>)"
    and d4: "matches d4 = matches d3" "mk_id d4 = mk_id d3"
      "rows (tournaments d4) tid = map_option (status_after tid now d3) (rows (tournaments d3) tid)"
    using complete_run [of tid ?m now s3] by (auto simp: s3_def)
  define s5 where "s5 = snd (audit (mb_id officer) ReportedTournamentMatch TargetTournamentMatch mid
     (Some (decimal (unat (re_score_a body)) @ ''-'' @ decimal (unat (re_score_b body)))) (s3\<lparr>site_db := d4\<rparr>))"
  have tail: "report_tail officer tid mid body now (mid, ?m) s1 = (Inr (mid, ?m), s5)"
    using run2 run3 run4 by (simp add: report_tail_def s3_def s5_def audit_def ret_def and_then_def)
  have guards: "ma_tournament_id m = tid" "?w \<noteq> []"
      "ma_participant_a_id m = Some ?w \<or> ma_participant_b_id m = Some ?w"
    using ok by (auto simp: acceptable_def reportable_def)
  have run: "report_match officer tid mid body now s = (Inr (mid, ?m), s5)"
    using tail run1 guards unfolding report_match_split m by auto
  have db5: "site_db s5 = d4" by (simp add: s5_def audit_def s3_def)
  have frame: "tournaments (fold modify_match us db) = tournaments db \<and> mk_id (fold modify_match us db) = mk_id db"
    for us db by (induction us arbitrary: db) (simp_all add: modify_def put_match_def split: prod.split option.split)
  have d2: "site_db s2 = fold modify_match (match_changes body now mid m) (site_db s)"
    using modify_put [where f = "reported body now", OF m] by (simp add: s2_def s1_def match_changes_def)
  have done_eq: "all_done tid d3 = all_done tid d4"
    using d4(1) by (simp add: all_done_def list_tournament_matches_def)
  have "status_after tid now d3 = status_after tid now d4"
    by (rule ext) (simp add: status_after_def done_eq)
  then show ?thesis
    using run db5 d2 d3 d4 frame by (intro exI [of _ s5]) simp
qed

lemma report_match_guards:
  assumes "report_match officer tid mid body now s = (Inr x, s')"
  obtains m where "rows (matches (site_db s)) mid = Some m" "acceptable tid body m"
    "list_all (writable (site_db s)) (moves m (winner_of body))"
proof -
  let ?w = "winner_of body"
  let ?codes = "case re_replay_codes body of None \<Rightarrow> [] | Some cs \<Rightarrow> cs"
  let ?report = "report_tournament_match mid (re_score_a body) (re_score_b body) ?w (re_notes body) ?codes now"
  obtain m where m: "rows (matches (site_db s)) mid = Some m"
    using assms by (cases "rows (matches (site_db s)) mid") (simp_all add: report_match_split)
  have guards: "ma_tournament_id m = tid" "?w \<noteq> []"
      "ma_participant_a_id m = Some ?w \<or> ma_participant_b_id m = Some ?w"
    and run: "and_then (db_call report_error ?report) (report_tail officer tid mid body now) s = (Inr x, s')"
    using assms unfolding report_match_split m by (auto split: if_splits)
  from run obtain r s1 where r: "db_call report_error ?report s = (Inr r, s1)"
      and tail: "report_tail officer tid mid body now r s1 = (Inr x, s')"
    unfolding and_then_Inr_iff by blast
  have "\<exists>m. rows (matches (site_db s)) mid = Some m \<and> reportable m (re_score_a body) (re_score_b body) (trim ?w)"
  proof (rule ccontr)
    assume "\<not> ?thesis"
    from report_failure [OF this, of "re_notes body" ?codes now] r show False by (auto simp: db_call_Inr)
  qed
  then have ok: "acceptable tid body m" using m guards by (simp add: acceptable_def)
  then have "?report (site_db s) = (Inr (mid, reported body now m), put_match mid (reported body now m) (site_db s))"
    using report_success [OF m, of "re_score_a body" "re_score_b body" ?w] by (simp add: acceptable_def reported_def)
  then have r_eq: "r = (mid, reported body now m)" "s1 = s\<lparr>site_db := put_match mid (reported body now m) (site_db s)\<rparr>"
    using r by (simp_all add: db_call_def)
  have "\<exists>y s2. and_then (advance_winner (snd r) ?w) (\<lambda>_. advance_loser (snd r) ?w) s1 = (Inr y, s2)"
    using tail unfolding report_tail_def and_then_Inr_iff [of "and_then _ _"] by blast
  then have "list_all (writable (site_db s1)) (moves m ?w)" unfolding advance_run by (auto simp: r_eq)
  moreover have "has_match (site_db s) mid" using m by (simp add: has_match_def)
  ultimately have "list_all (writable (site_db s)) (moves m ?w)"
    using has_match_put by (auto simp: list_all_iff writable_def r_eq)
  with that m ok show thesis by blast
qed

text \<open>
  C11: what a reported match does. If the route accepts a report, the match was a pending match of
  this tournament, the winner is one of its participants with strictly the greater score and the loser the other one, and afterwards
  exactly these matches differ: the match itself is completed with that result, the winner sits in the
  slot the match points to, and the loser, if it has a losers-bracket pointer, in that slot. The
  tournament is completed if and only if this leaves no open match in it; otherwise its row stays.
\<close>

theorem report_match_effect:
  assumes "serve c now (ReportMatch tid mid body) s = (Inr resp, s')"
  shows "\<exists>m. rows (matches (site_db s)) mid = Some m \<and> acceptable tid body m \<and>
    {ma_participant_a_id m, ma_participant_b_id m} = {Some (winner_of body), loser_of m (winner_of body)} \<and>
    resp = MatchBody mid (reported body now m) \<and>
    (\<forall>k. rows (matches (site_db s')) k =
       map_option (changes_at k (match_changes body now mid m)) (rows (matches (site_db s)) k)) \<and>
    rows (tournaments (site_db s')) tid =
      map_option (\<lambda>t. if all_done tid (site_db s') then t\<lparr>tn_status := ''completed'', tn_updated_at := now\<rparr> else t)
        (rows (tournaments (site_db s)) tid)"
proof -
  obtain o' where o': "officer_user c = Inr o'"
    using assms by (cases "officer_user c") (auto simp: as_officer_def fail_def)
  have "reply_with (\<lambda>(i, x). MatchBody i x) (report_match o' tid mid body now) s = (Inr resp, s')"
    using assms o' by (simp add: as_officer_def)
  then obtain x s1 where run: "report_match o' tid mid body now s = (Inr x, s1)"
    and resp: "resp = (case x of (i, x) \<Rightarrow> MatchBody i x)" "s' = s1"
    unfolding reply_with_def and_then_Inr_iff ret_def by blast
  from report_match_guards [OF run] obtain m where m: "rows (matches (site_db s)) mid = Some m"
    and ok: "acceptable tid body m" and mv: "list_all (writable (site_db s)) (moves m (winner_of body))" by blast
  from report_match_run [OF m ok mv, of o' now] run obtain
    x: "x = (mid, reported body now m)" and
    mt: "matches (site_db s1) = matches (fold modify_match (match_changes body now mid m) (site_db s))" and
    tn: "rows (tournaments (site_db s1)) tid =
      map_option (status_after tid now (site_db s1)) (rows (tournaments (site_db s)) tid)" by auto
  have s': "s' = s1" "resp = MatchBody mid (reported body now m)" using resp x by simp_all
  have sides: "{ma_participant_a_id m, ma_participant_b_id m} = {Some (winner_of body), loser_of m (winner_of body)}"
    using ok by (auto simp: acceptable_def loser_of_def)
  show ?thesis
    using m ok sides s' tn match_rows.sel_modify_all [of "match_changes body now mid m" "site_db s"]
    by (auto simp: mt status_after_def [abs_def])
qed

text \<open>A tournament with one match of \<open>x\<close> against \<open>y\<close>, and the report that \<open>x\<close> won 3 to 1.\<close>

definition one_match_site :: site where
  "one_match_site = empty_site\<lparr>site_db := snd (create_tournament_match ''t'' ''r'' 0
     (Some ''x'') (Some ''y'') MatchPending None None None None empty_db)\<rparr>"

definition x_wins :: report_request where
  "x_wins = \<lparr>re_score_a = 3, re_score_b = 1, re_winner_id = ''x'', re_notes = None, re_replay_codes = None\<rparr>"

lemma one_match_row:
  "rows (matches (site_db one_match_site)) [] = Some (new_match ''t'' ''r'' 0 (Some ''x'') (Some ''y'') MatchPending)"
  by (simp add: one_match_site_def create_tournament_match_def new_match_def Let_def empty_site_def empty_db_def
      fresh_id_def)

theorem report_match_effect_witness:
  "\<exists>s' m. serve an_officer 1 (ReportMatch ''t'' [] x_wins) one_match_site = (Inr (MatchBody [] m), s') \<and>
     (\<exists>m'. rows (matches (site_db s')) [] = Some m' \<and> ma_status m' = ''completed'' \<and> ma_winner_id m' = Some ''x'')"
proof -
  let ?m = "new_match ''t'' ''r'' 0 (Some ''x'') (Some ''y'') MatchPending"
  have w: "winner_of x_wins = ''x''" by code_simp
  have x: "trim ''x'' = ''x''" by code_simp
  have ok: "acceptable ''t'' x_wins ?m"
    unfolding acceptable_def w by (simp add: reportable_def is_participant_def x x_wins_def new_match_def)
  have mv: "moves ?m (winner_of x_wins) = []" by (simp add: moves_def new_match_def)
  obtain o' where o': "officer_user an_officer = Inr o'"
    by (simp add: officer_user_def org_member_def an_officer_def is_at_least_def)
  obtain s' where "report_match o' ''t'' [] x_wins 1 one_match_site = (Inr ([], reported x_wins 1 ?m), s')"
    using report_match_run [OF one_match_row ok, where officer = o' and now = 1] mv by auto
  then have run: "serve an_officer 1 (ReportMatch ''t'' [] x_wins) one_match_site =
      (Inr (MatchBody [] (reported x_wins 1 ?m)), s')"
    by (simp add: as_officer_def o' reply_with_def and_then_def ret_def)
  from report_match_effect [OF run] have "rows (matches (site_db s')) [] =
      map_option (changes_at [] (match_changes x_wins 1 [] ?m)) (rows (matches (site_db one_match_site)) [])"
    using one_match_row by auto
  then have "rows (matches (site_db s')) [] = Some (reported x_wins 1 ?m)"
    by (simp only: one_match_row match_changes_def mv list.map option.map changes_at_simps fst_conv snd_conv simp_thms if_True)
  moreover have "ma_winner_id (reported x_wins 1 ?m) = Some ''x''"
    by (simp add: reported_def reported_row_def w)
  ultimately show ?thesis using run by auto
qed

end
