(* ===== verification/BracketPlay.thy ===== *)
theory BracketPlay
  imports TournamentPlay
begin

text \<open>
  Playing a generated single-elimination bracket through the report route: the invariant of the play and
  that it can always be played to its end.
\<close>

subsection \<open>The bracket in play\<close>

definition clean :: "string \<Rightarrow> bool" where
  "clean p \<longleftrightarrow> trim p = p \<and> p \<noteq> []"

definition seat :: "string \<Rightarrow> db_match \<Rightarrow> string option" where
  "seat slot m = (if slot = ''a'' then ma_participant_a_id m else ma_participant_b_id m)"

definition decided :: "db_match \<Rightarrow> bool" where
  "decided m \<longleftrightarrow> ma_status m \<noteq> ''pending''"

text \<open>Match \<open>i\<close> of round \<open>r\<close> of the grid of ids \<open>idss\<close>.\<close>

definition cell_ok :: "string \<Rightarrow> string list list \<Rightarrow> nat \<Rightarrow> nat \<Rightarrow> db_match \<Rightarrow> bool" where
  "cell_ok tid idss r i m \<longleftrightarrow>
     ma_tournament_id m = tid \<and> ma_loser_next_match_id m = None \<and>
     ma_next_match_id m = (if Suc r < length idss then Some (idss ! Suc r ! (i div 2)) else None) \<and>
     (Suc r < length idss \<longrightarrow> ma_next_match_slot m = Some (slot_of i)) \<and>
     (\<forall>slot p. seat slot m = Some p \<longrightarrow> clean p) \<and>
     ma_status m \<in> {''pending'', ''completed'', ''bye''}"

definition grid_ok :: "string list list \<Rightarrow> bool" where
  "grid_ok idss \<longleftrightarrow> idss \<noteq> [] \<and> distinct (concat idss) \<and>
     (\<forall>r. Suc r < length idss \<longrightarrow> length (idss ! r) = 2 * length (idss ! Suc r))"

text \<open>
  Every cell holds its match, an open match of the first round has both its participants, a decided match
  has sent somebody on, and the tournament has no other match.
\<close>

definition in_play :: "string \<Rightarrow> string list list \<Rightarrow> (string \<rightharpoonup> db_match) \<Rightarrow> bool" where
  "in_play tid idss ms \<longleftrightarrow> grid_ok idss \<and>
     (\<forall>r < length idss. \<forall>i < length (idss ! r). \<exists>m. ms (idss ! r ! i) = Some m \<and> cell_ok tid idss r i m) \<and>
     (\<forall>i < length (idss ! 0). \<forall>m. ms (idss ! 0 ! i) = Some m \<longrightarrow>
        decided m \<or> (seat ''a'' m \<noteq> None \<and> seat ''b'' m \<noteq> None)) \<and>
     (\<forall>r i m m'. Suc r < length idss \<longrightarrow> i < length (idss ! r) \<longrightarrow> ms (idss ! r ! i) = Some m \<longrightarrow>
        decided m \<longrightarrow> ms (idss ! Suc r ! (i div 2)) = Some m' \<longrightarrow> seat (slot_of i) m' \<noteq> None) \<and>
     (\<forall>k m. ms k = Some m \<longrightarrow> ma_tournament_id m = tid \<longrightarrow> k \<in> set (concat idss))"

lemma seat_set_slot [simp]:
  "slot \<in> {''a'', ''b''} \<Longrightarrow> slot' \<in> {''a'', ''b''} \<Longrightarrow>
     seat slot (set_slot slot' p m) = (if slot = slot' then Some p else seat slot m)"
  by (auto simp: seat_def set_slot_def)

lemma set_slot_fields [simp]:
  "ma_tournament_id (set_slot slot p m) = ma_tournament_id m"
  "ma_next_match_id (set_slot slot p m) = ma_next_match_id m"
  "ma_next_match_slot (set_slot slot p m) = ma_next_match_slot m"
  "ma_loser_next_match_id (set_slot slot p m) = ma_loser_next_match_id m"
  "ma_status (set_slot slot p m) = ma_status m"
  "decided (set_slot slot p m) = decided m"
  by (simp_all add: set_slot_def decided_def)

lemma seat_set_slot_any: "seat slot (set_slot slot' p m) = Some q \<Longrightarrow> q = p \<or> seat slot m = Some q"
  by (auto simp: seat_def set_slot_def split: if_splits)

lemma seat_filled: "seat slot m \<noteq> None \<Longrightarrow> seat slot (set_slot slot' p m) \<noteq> None"
  by (auto simp: seat_def set_slot_def split: if_splits)

lemma seat_written: "slot \<in> {''a'', ''b''} \<Longrightarrow> seat slot (set_slot slot p m) \<noteq> None"
  by auto

lemma seat_reported [simp]: "seat slot (reported body now m) = seat slot m"
  by (simp add: seat_def)

lemma decided_reported [simp]: "decided (reported body now m)"
  by (simp add: decided_def)

lemma cell_set_slot: "cell_ok tid idss r i m \<Longrightarrow> clean p \<Longrightarrow> cell_ok tid idss r i (set_slot slot p m)"
  by (auto simp: cell_ok_def dest: seat_set_slot_any)

lemma cell_reported: "cell_ok tid idss r i m \<Longrightarrow> cell_ok tid idss r i (reported body now m)"
  by (simp add: cell_ok_def)

lemma slot_of_in: "slot_of i \<in> {''a'', ''b''}"
  by (simp add: slot_of_def)

lemma grid_half: "grid_ok idss \<Longrightarrow> Suc r < length idss \<Longrightarrow> i < length (idss ! r) \<Longrightarrow> i div 2 < length (idss ! Suc r)"
  by (auto simp: grid_ok_def less_mult_imp_div_less)

lemma grid_eq:
  "grid_ok idss \<Longrightarrow> r < length idss \<Longrightarrow> i < length (idss ! r) \<Longrightarrow> q < length idss \<Longrightarrow> j < length (idss ! q) \<Longrightarrow>
     idss ! r ! i = idss ! q ! j \<longleftrightarrow> r = q \<and> i = j"
  using grid_inject [of idss r i q j] by (auto simp: grid_ok_def)

text \<open>What a report of cell \<open>(r, i)\<close> moves.\<close>

lemma moves_cell:
  assumes "cell_ok tid idss r i m"
  shows "moves m w = (if Suc r < length idss then [(idss ! Suc r ! (i div 2), slot_of i, w)] else [])"
  using assms by (simp add: moves_def cell_ok_def)

definition after_report ::
  "string list list \<Rightarrow> report_request \<Rightarrow> instant \<Rightarrow> nat \<Rightarrow> nat \<Rightarrow> db_match \<Rightarrow> nat \<Rightarrow> nat \<Rightarrow> db_match \<Rightarrow> db_match" where
  "after_report idss body now r i m q j x =
     (if q = r \<and> j = i then reported body now x
      else if q = Suc r \<and> j = i div 2 then set_slot (slot_of i) (winner_of body) x else x)"

lemma changes_grid:
  assumes grid: "grid_ok idss" and r: "r < length idss" "i < length (idss ! r)"
    and q: "q < length idss" "j < length (idss ! q)" and m: "cell_ok tid idss r i m"
    and x: "q = r \<Longrightarrow> j = i \<Longrightarrow> x = m"
  shows "changes_at (idss ! q ! j) (match_changes body now (idss ! r ! i) m) x = after_report idss body now r i m q j x"
proof -
  have here: "idss ! r ! i = idss ! q ! j \<longleftrightarrow> q = r \<and> j = i"
    using grid_eq [OF grid r q] by blast
  show ?thesis
  proof (cases "Suc r < length idss")
    case True
    have "idss ! Suc r ! (i div 2) = idss ! q ! j \<longleftrightarrow> q = Suc r \<and> j = i div 2"
      using grid_eq [OF grid True grid_half [OF grid True r(2)] q] by blast
    then show ?thesis
      using True here x by (simp add: match_changes_def moves_cell [OF m] move_change_def after_report_def)
  next
    case False
    then have "q \<noteq> Suc r" using q by blast
    then show ?thesis
      using False here x by (simp add: match_changes_def moves_cell [OF m] after_report_def)
  qed
qed

lemma acceptable_seat:
  assumes "acceptable tid body m"
  obtains slot where "slot \<in> {''a'', ''b''}" "seat slot m = Some (winner_of body)"
  using assms that [of "''a''"] that [of "''b''"] by (auto simp: acceptable_def seat_def)

lemma tid_changes:
  "ma_tournament_id (changes_at k (match_changes body now mid m) x) = ma_tournament_id x"
proof -
  have moved: "ma_tournament_id (changes_at k (map move_change mvs) x) = ma_tournament_id x" for mvs x
    by (induction mvs arbitrary: x) (simp_all add: move_change_def split: prod.split)
  show ?thesis by (simp add: match_changes_def moved)
qed

text \<open>From \<open>ms\<close> to \<open>ms'\<close>, the report \<open>body\<close> of cell \<open>(r, i)\<close>, which held \<open>m\<close>.\<close>

definition report_step ::
  "string \<Rightarrow> string list list \<Rightarrow> report_request \<Rightarrow> instant \<Rightarrow> nat \<Rightarrow> nat \<Rightarrow> db_match \<Rightarrow>
     (string \<rightharpoonup> db_match) \<Rightarrow> (string \<rightharpoonup> db_match) \<Rightarrow> bool" where
  "report_step tid idss body now r i m ms ms' \<longleftrightarrow>
     in_play tid idss ms \<and> r < length idss \<and> i < length (idss ! r) \<and> ms (idss ! r ! i) = Some m \<and>
     acceptable tid body m \<and>
     ms' = (\<lambda>k. map_option (changes_at k (match_changes body now (idss ! r ! i) m)) (ms k))"

lemma in_play_grid: "in_play tid idss ms \<Longrightarrow> grid_ok idss"
  by (simp add: in_play_def)

lemma in_play_cell:
  "in_play tid idss ms \<Longrightarrow> r < length idss \<Longrightarrow> i < length (idss ! r) \<Longrightarrow>
     \<exists>m. ms (idss ! r ! i) = Some m \<and> cell_ok tid idss r i m"
  by (simp add: in_play_def)

lemma step_cell:
  assumes "report_step tid idss body now r i m ms ms'"
  shows "cell_ok tid idss r i m" and "grid_ok idss" and "clean (winner_of body)"
proof -
  show cell: "cell_ok tid idss r i m"
    using assms in_play_cell [of tid idss ms r i] by (auto simp: report_step_def)
  show "grid_ok idss" using assms by (auto simp: report_step_def in_play_grid)
  have "acceptable tid body m" using assms by (simp add: report_step_def)
  then show "clean (winner_of body)" by (rule acceptable_seat) (use cell in \<open>auto simp: cell_ok_def\<close>)
qed

lemma step_after:
  assumes st: "report_step tid idss body now r i m ms ms'"
    and q: "q < length idss" "j < length (idss ! q)" and x: "ms (idss ! q ! j) = Some x"
  shows "ms' (idss ! q ! j) = Some (after_report idss body now r i m q j x)"
proof -
  have r: "r < length idss" "i < length (idss ! r)" and m: "ms (idss ! r ! i) = Some m"
    using st by (simp_all add: report_step_def)
  have "x = m" if "q = r" "j = i" using that x m by simp
  then have "changes_at (idss ! q ! j) (match_changes body now (idss ! r ! i) m) x =
      after_report idss body now r i m q j x"
    by (rule changes_grid [OF step_cell(2) [OF st] r q step_cell(1) [OF st]])
  then show ?thesis using st x by (simp add: report_step_def)
qed

lemma cell_after:
  "cell_ok tid idss q j x \<Longrightarrow> clean (winner_of body) \<Longrightarrow>
     cell_ok tid idss q j (after_report idss body now r i m q j x)"
  unfolding after_report_def using cell_reported cell_set_slot by (auto split: if_split)

lemma seat_after: "seat slot x \<noteq> None \<Longrightarrow> seat slot (after_report idss body now r i m q j x) \<noteq> None"
  by (simp add: after_report_def seat_filled del: not_None_eq)

lemma decided_after: "decided x \<Longrightarrow> decided (after_report idss body now r i m q j x)"
  by (simp add: after_report_def)

lemma first_after:
  assumes st: "report_step tid idss body now r i m ms ms'" and j: "j < length (idss ! 0)"
    and x': "ms' (idss ! 0 ! j) = Some x'"
  shows "decided x' \<or> (seat ''a'' x' \<noteq> None \<and> seat ''b'' x' \<noteq> None)"
proof -
  have play: "in_play tid idss ms" using st by (simp add: report_step_def)
  have q: "0 < length idss" using step_cell(2) [OF st] by (simp add: grid_ok_def)
  obtain x where x: "ms (idss ! 0 ! j) = Some x" using in_play_cell [OF play q j] by blast
  have "decided x \<or> (seat ''a'' x \<noteq> None \<and> seat ''b'' x \<noteq> None)"
    using play x j unfolding in_play_def by blast
  with step_after [OF st q j x] x' seat_after decided_after show ?thesis by (metis option.inject)
qed

lemma sent_after:
  assumes st: "report_step tid idss body now r i m ms ms'"
    and q: "Suc q < length idss" "j < length (idss ! q)" and x': "ms' (idss ! q ! j) = Some x'" "decided x'"
    and y': "ms' (idss ! Suc q ! (j div 2)) = Some y'"
  shows "seat (slot_of j) y' \<noteq> None"
proof -
  have play: "in_play tid idss ms" using st by (simp add: report_step_def)
  have q': "q < length idss" using q by simp
  note half = grid_half [OF step_cell(2) [OF st] q]
  obtain x where x: "ms (idss ! q ! j) = Some x" using in_play_cell [OF play q' q(2)] by blast
  obtain y where y: "ms (idss ! Suc q ! (j div 2)) = Some y" using in_play_cell [OF play q(1) half] by blast
  have y'_eq: "y' = after_report idss body now r i m (Suc q) (j div 2) y"
    using step_after [OF st q(1) half y] y' by simp
  show ?thesis
  proof (cases "q = r \<and> j = i")
    case True
    then have "y' = set_slot (slot_of j) (winner_of body) y" by (simp add: y'_eq after_report_def)
    then show ?thesis using seat_written [OF slot_of_in] by blast
  next
    case False
    then have "decided x"
      using step_after [OF st q' q(2) x] x' by (auto simp: after_report_def split: if_splits)
    then have "seat (slot_of j) y \<noteq> None" using play q x y unfolding in_play_def by blast
    then show ?thesis unfolding y'_eq by (rule seat_after)
  qed
qed

lemma in_play_after:
  assumes st: "report_step tid idss body now r i m ms ms'"
  shows "in_play tid idss ms'"
proof -
  have play: "in_play tid idss ms" using st by (simp add: report_step_def)
  have tids: "k \<in> set (concat idss)" if k: "ms' k = Some x'" "ma_tournament_id x' = tid" for k x'
  proof -
    obtain x where "ms k = Some x" "ma_tournament_id x = tid"
      using k st by (auto simp: report_step_def tid_changes)
    then show ?thesis using play unfolding in_play_def by blast
  qed
  have cells: "\<exists>x. ms' (idss ! q ! j) = Some x \<and> cell_ok tid idss q j x"
    if q: "q < length idss" "j < length (idss ! q)" for q j
  proof -
    obtain x where x: "ms (idss ! q ! j) = Some x" "cell_ok tid idss q j x"
      using in_play_cell [OF play q] by blast
    then show ?thesis
      using step_after [OF st q x(1)] cell_after [OF x(2) step_cell(3) [OF st]] by blast
  qed
  show ?thesis
    unfolding in_play_def
    using step_cell(2) [OF st] cells tids first_after [OF st] sent_after [OF st] by blast
qed

subsection \<open>Requests\<close>

lemma report_match_refused:
  assumes "\<not> (\<exists>m. rows (matches (site_db s)) mid = Some m \<and> acceptable tid body m)"
  shows "\<exists>e. report_match officer tid mid body now s = (Inl e, s)"
proof (cases "rows (matches (site_db s)) mid")
  case None
  then show ?thesis by (simp add: report_match_split)
next
  case (Some m)
  let ?w = "winner_of body"
  let ?codes = "case re_replay_codes body of None \<Rightarrow> [] | Some cs \<Rightarrow> cs"
  show ?thesis
  proof (cases "ma_tournament_id m = tid \<and> ?w \<noteq> [] \<and>
      (ma_participant_a_id m = Some ?w \<or> ma_participant_b_id m = Some ?w)")
    case True
    then have "\<not> reportable m (re_score_a body) (re_score_b body) ?w"
      using assms Some by (simp add: acceptable_def)
    then obtain e where "report_tournament_match mid (re_score_a body) (re_score_b body) ?w (re_notes body) ?codes
        now (site_db s) = (Inl e, site_db s)"
      using report_failure [of "site_db s" mid "re_score_a body" "re_score_b body" ?w "re_notes body" ?codes now] Some
      by auto
    then show ?thesis
      using True Some by (simp add: report_match_split and_then_def db_call_def)
  next
    case False
    then show ?thesis using Some by (auto simp: report_match_split)
  qed
qed

definition ms_of :: "site \<Rightarrow> string \<rightharpoonup> db_match" where
  "ms_of s = rows (matches (site_db s))"

lemma writable_cell:
  assumes play: "in_play tid idss (ms_of s)" and r: "r < length idss" "i < length (idss ! r)"
    and m: "ms_of s (idss ! r ! i) = Some m"
  shows "list_all (writable (site_db s)) (moves m w)"
proof -
  have "cell_ok tid idss r i m" using in_play_cell [OF play r] m by simp
  note mv = moves_cell [OF this, of w]
  show ?thesis
  proof (cases "Suc r < length idss")
    case True
    from in_play_cell [OF play True grid_half [OF in_play_grid [OF play] True r(2)]]
    have "has_match (site_db s) (idss ! Suc r ! (i div 2))" by (auto simp: has_match_def ms_of_def)
    then show ?thesis using True slot_of_in [of i] by (simp add: mv writable_def)
  qed (simp add: mv)
qed

text \<open>A report of a bracket in play either changes nothing or is a step.\<close>

lemma report_run:
  assumes play: "in_play tid idss (ms_of s)" and r: "r < length idss" "i < length (idss ! r)"
    and m: "ms_of s (idss ! r ! i) = Some m" and ok: "acceptable tid body m"
  shows "\<exists>s'. report_match officer tid (idss ! r ! i) body now s = (Inr (idss ! r ! i, reported body now m), s') \<and>
    report_step tid idss body now r i m (ms_of s) (ms_of s') \<and>
    rows (tournaments (site_db s')) tid =
      map_option (status_after tid now (site_db s')) (rows (tournaments (site_db s)) tid)"
proof -
  from report_match_run [OF m [unfolded ms_of_def] ok writable_cell [OF play r m], of officer now]
  obtain s' where run: "report_match officer tid (idss ! r ! i) body now s = (Inr (idss ! r ! i, reported body now m), s')"
    and ms: "matches (site_db s') = matches (fold modify_match (match_changes body now (idss ! r ! i) m) (site_db s))"
    and tn: "rows (tournaments (site_db s')) tid =
      map_option (status_after tid now (site_db s')) (rows (tournaments (site_db s)) tid)" by blast
  have "ms_of s' = (\<lambda>k. map_option (changes_at k (match_changes body now (idss ! r ! i) m)) (ms_of s k))"
    unfolding ms_of_def ms using match_rows.sel_modify_all by blast
  then have "report_step tid idss body now r i m (ms_of s) (ms_of s')"
    using play r m ok by (simp add: report_step_def)
  with run tn show ?thesis by blast
qed

lemma serve_report:
  "snd (serve c now (ReportMatch tid mid body) s) =
     (case officer_user c of Inl e \<Rightarrow> s | Inr officer \<Rightarrow> snd (report_match officer tid mid body now s))"
  by (simp add: as_officer_def reply_with_def and_then_def fail_def ret_def split: sum.split prod.split)

lemma in_play_serve:
  assumes play: "in_play tid idss (ms_of s)"
  shows "in_play tid idss (ms_of (snd (serve c now (ReportMatch tid mid body) s)))"
proof (cases "officer_user c")
  case (Inl e)
  then show ?thesis using play by (simp only: serve_report sum.case)
next
  case (Inr officer)
  note served = serve_report [of c now tid mid body s, unfolded Inr sum.case]
  show ?thesis
  proof (cases "\<exists>m. rows (matches (site_db s)) mid = Some m \<and> acceptable tid body m")
    case False
    with report_match_refused [OF False, of officer now] show ?thesis using play unfolding served by auto
  next
    case True
    then obtain m where m: "ms_of s mid = Some m" and ok: "acceptable tid body m" by (auto simp: ms_of_def)
    then have "mid \<in> set (concat idss)" using play by (auto simp: in_play_def acceptable_def)
    then obtain r i where r: "r < length idss" "i < length (idss ! r)" and mid: "mid = idss ! r ! i"
      by (auto simp: in_set_conv_nth)
    obtain s' where run: "report_match officer tid mid body now s = (Inr (mid, reported body now m), s')"
      and st: "report_step tid idss body now r i m (ms_of s) (ms_of s')"
      using report_run [OF play r m [unfolded mid] ok, of officer now] unfolding mid by blast
    show ?thesis unfolding served run snd_conv by (rule in_play_after [OF st])
  qed
qed

subsection \<open>Open matches\<close>

definition open_matches :: "string \<Rightarrow> tdb \<Rightarrow> nat" where
  "open_matches tid db = length (filter (\<lambda>(_, m). \<not> match_done m) (list_tournament_matches tid db))"

definition open_ids :: "string \<Rightarrow> (string \<rightharpoonup> db_match) \<Rightarrow> string set" where
  "open_ids tid ms = {k. \<exists>m. ms k = Some m \<and> ma_tournament_id m = tid \<and> \<not> match_done m}"

lemma all_done_open: "all_done tid db \<longleftrightarrow> open_matches tid db = 0"
  by (auto simp: all_done_def open_matches_def list_all_iff filter_empty_conv)

lemma match_listing:
  assumes "db_ok db"
  shows "set (list_tournament_matches tid db) = {(k, m). rows (matches db) k = Some m \<and> ma_tournament_id m = tid}"
    and "distinct (map fst (list_tournament_matches tid db))"
proof -
  have ok: "table_ok (matches db)" using assms by (simp add: db_ok_def)
  show "set (list_tournament_matches tid db) = {(k, m). rows (matches db) k = Some m \<and> ma_tournament_id m = tid}"
    by (simp add: list_tournament_matches_def set_t_list [OF ok])
  let ?xs = "t_list (\<lambda>m. ma_tournament_id m = tid) (matches db)"
  have "mset (map fst (list_tournament_matches tid db)) = mset (map fst ?xs)"
    by (simp add: list_tournament_matches_def mset_map [symmetric] del: mset_map) simp
  then show "distinct (map fst (list_tournament_matches tid db))"
    using distinct_t_list [OF ok] mset_eq_imp_distinct_iff by blast
qed

lemma open_matches_card:
  assumes "db_ok db"
  shows "open_matches tid db = card (open_ids tid (rows (matches db)))" and "finite (open_ids tid (rows (matches db)))"
proof -
  let ?xs = "filter (\<lambda>(_, m). \<not> match_done m) (list_tournament_matches tid db)"
  have "open_ids tid (rows (matches db)) = set (map fst ?xs)"
    by (auto simp: open_ids_def match_listing(1) [OF assms] image_iff)
  moreover have "distinct (map fst ?xs)"
    using match_listing(2) [OF assms] by (rule distinct_map_filter)
  ultimately show "open_matches tid db = card (open_ids tid (rows (matches db)))"
      and "finite (open_ids tid (rows (matches db)))"
    using distinct_card [of "map fst ?xs"] by (simp_all add: open_matches_def)
qed

lemma match_done_status:
  "match_done m \<longleftrightarrow> ma_status m = ''completed'' \<or> ma_status m = ''bye''"
  by (auto simp: match_done_def ma_status_of_def parse_match_status_def)

lemma status_changes:
  "ma_status (changes_at k (match_changes body now mid m) x) = (if k = mid then ''completed'' else ma_status x)"
proof -
  have moved: "ma_status (changes_at k (map move_change mvs) x) = ma_status x" for mvs x
    by (induction mvs arbitrary: x) (simp_all add: move_change_def split: prod.split)
  show ?thesis by (simp add: match_changes_def moved)
qed

lemma done_changes: "match_done (changes_at k (match_changes body now mid m) x) \<longleftrightarrow> k = mid \<or> match_done x"
  by (simp add: match_done_status status_changes)

lemma open_ids_step:
  assumes "report_step tid idss body now r i m ms ms'"
  shows "open_ids tid ms' = open_ids tid ms - {idss ! r ! i}" and "idss ! r ! i \<in> open_ids tid ms"
proof -
  have ms': "ms' = (\<lambda>k. map_option (changes_at k (match_changes body now (idss ! r ! i) m)) (ms k))"
    and m: "ms (idss ! r ! i) = Some m" "acceptable tid body m"
    using assms by (simp_all add: report_step_def)
  show "open_ids tid ms' = open_ids tid ms - {idss ! r ! i}"
    by (auto simp: ms' open_ids_def done_changes tid_changes)
  show "idss ! r ! i \<in> open_ids tid ms"
    using m by (simp add: open_ids_def acceptable_def reportable_def match_done_status)
qed

subsection \<open>Playing on\<close>

lemma ready_match:
  assumes play: "in_play tid idss ms" and "open_ids tid ms \<noteq> {}"
  obtains r i m where "r < length idss" "i < length (idss ! r)" "ms (idss ! r ! i) = Some m" "\<not> decided m"
    "seat ''a'' m \<noteq> None" "seat ''b'' m \<noteq> None"
proof -
  define P where "P r \<longleftrightarrow> r < length idss \<and> (\<exists>i < length (idss ! r). \<exists>m. ms (idss ! r ! i) = Some m \<and> \<not> decided m)" for r
  obtain k m where "ms k = Some m" "ma_tournament_id m = tid" "\<not> match_done m"
    using assms(2) by (auto simp: open_ids_def)
  moreover then have "k \<in> set (concat idss)" using play by (simp add: in_play_def)
  then obtain r0 i0 where "r0 < length idss" "i0 < length (idss ! r0)" "k = idss ! r0 ! i0"
    by (auto simp: in_set_conv_nth)
  moreover then have "cell_ok tid idss r0 i0 m" using in_play_cell [OF play] \<open>ms k = Some m\<close> by fastforce
  ultimately have "P r0" by (auto simp: P_def decided_def match_done_status cell_ok_def)
  then obtain r where "P r" and least: "\<And>q. q < r \<Longrightarrow> \<not> P q" by (metis exists_least_iff)
  then obtain i m where r: "r < length idss" "i < length (idss ! r)" and m: "ms (idss ! r ! i) = Some m" "\<not> decided m"
    by (auto simp: P_def)
  have "seat ''a'' m \<noteq> None \<and> seat ''b'' m \<noteq> None"
  proof (cases r)
    case 0
    then show ?thesis using play m r unfolding in_play_def by blast
  next
    case (Suc q)
    have q: "Suc q < length idss" "q < length idss" using r Suc by simp_all
    have len: "length (idss ! q) = 2 * length (idss ! Suc q)"
      using in_play_grid [OF play] q by (simp add: grid_ok_def)
    have sent: "seat (slot_of j) m \<noteq> None" if j: "j < length (idss ! q)" "j div 2 = i" for j
    proof -
      obtain x where x: "ms (idss ! q ! j) = Some x" using in_play_cell [OF play q(2) j(1)] by blast
      then have "decided x" using least [of q] Suc j(1) q(2) unfolding P_def by blast
      moreover have "ms (idss ! Suc q ! (j div 2)) = Some m" using m Suc j by simp
      ultimately show ?thesis using play q(1) j(1) x unfolding in_play_def by blast
    qed
    have "seat (slot_of (2 * i)) m \<noteq> None" "seat (slot_of (2 * i + 1)) m \<noteq> None"
      by (rule sent; use r Suc len in simp)+
    then show ?thesis by (simp add: slot_of_def)
  qed
  with that r m show thesis by blast
qed

text \<open>The report that the participant in slot \<open>a\<close> won one to nothing.\<close>

definition win_a :: "db_match \<Rightarrow> report_request" where
  "win_a m = \<lparr>re_score_a = 1, re_score_b = 0,
     re_winner_id = (case ma_participant_a_id m of None \<Rightarrow> [] | Some p \<Rightarrow> p), re_notes = None, re_replay_codes = None\<rparr>"

lemma acceptable_win_a:
  assumes cell: "cell_ok tid idss r i m" and "\<not> decided m" and "seat ''a'' m \<noteq> None"
  shows "acceptable tid (win_a m) m"
proof -
  obtain p where p: "ma_participant_a_id m = Some p" using assms(3) by (auto simp: seat_def)
  then have "seat ''a'' m = Some p" by (simp add: seat_def)
  then have "clean p" using cell unfolding cell_ok_def by blast
  then have "trim p = p" "p \<noteq> []" by (simp_all add: clean_def)
  then have "winner_of (win_a m) = p" by (simp add: winner_of_def win_a_def p)
  moreover have "is_participant m p" using \<open>trim p = p\<close> by (simp add: is_participant_def p)
  ultimately show ?thesis
    using cell assms(2) p \<open>trim p = p\<close> \<open>p \<noteq> []\<close>
    by (simp add: acceptable_def reportable_def win_a_def cell_ok_def decided_def)
qed

subsection \<open>The generated bracket\<close>

lemma slots_from:
  assumes "2 \<le> length ids" and "j < next_power_of_two (length ids)"
    and "seeded_slots ids (next_power_of_two (length ids)) ! j = Some p"
  shows "p \<in> set ids"
proof -
  let ?sz = "next_power_of_two (length ids)"
  have perm: "mset (seeded_slots ids ?sz) = mset (map Some ids) + replicate_mset (?sz - length ids) None"
    using seeded_slots_complete [OF assms(1)] by (simp add: seeded_slots_eq)
  have "length ids \<le> ?sz" by (rule next_power_of_two_cases [OF assms(1)]) simp
  then have "length (seeded_slots ids ?sz) = ?sz"
    using arg_cong [OF perm, of size] by simp
  with assms(2,3) have "Some p \<in> set (seeded_slots ids ?sz)" by (metis nth_mem)
  then have "Some p \<in># mset (seeded_slots ids ?sz)" by simp
  then show ?thesis unfolding perm by (auto simp: in_replicate_mset split: if_splits)
qed

lemma row_seats:
  "seat ''a'' (single_elim_row tid rids slots idss 0 i) = slots ! (i * 2)"
  "seat ''b'' (single_elim_row tid rids slots idss 0 i) = slots ! (i * 2 + 1)"
  "seat (slot_of j) (single_elim_row tid rids slots idss 1 (j div 2)) = bye_through slots j"
  "seat slot (single_elim_row tid rids slots idss (Suc (Suc r)) i) = None"
proof -
  have "2 * (j div 2) = (if j mod 2 = 0 then j else j - 1)" by (simp add: minus_mod_eq_mult_div [symmetric])
  then have "bye_through slots (2 * (j div 2)) = bye_through slots j" if "j mod 2 = 0" using that by simp
  moreover have "bye_through slots (2 * (j div 2) + 1) = bye_through slots j" if "j mod 2 \<noteq> 0"
  proof -
    have "2 * (j div 2) + 1 = j" using that by presburger
    then show ?thesis by simp
  qed
  ultimately show "seat (slot_of j) (single_elim_row tid rids slots idss 1 (j div 2)) = bye_through slots j"
    by (simp add: single_elim_row_def single_elim_entry_def seat_def slot_of_def Let_def)
qed (simp_all add: single_elim_row_def single_elim_entry_def seat_def first_round_spec_def open_match_def Let_def)

lemma row_status:
  "ma_status (single_elim_row tid rids slots idss r i) =
     (if r = 0 \<and> (slots ! (i * 2) = None \<or> slots ! (i * 2 + 1) = None) then ''bye'' else ''pending'')"
  by (simp add: single_elim_row_def single_elim_entry_def first_round_spec_def open_match_def Let_def set_next_def
      new_match_def)

lemma built_shape:
  assumes built: "single_elim_built tid ids rids idss db db'" and n: "2 \<le> length ids"
  obtains k where "next_power_of_two (length ids) = 2 ^ Suc k" "length idss = Suc k"
    "\<And>r. r \<le> k \<Longrightarrow> length (idss ! r) = 2 ^ (k - r)" "grid_ok idss"
proof -
  obtain k where k: "next_power_of_two (length ids) = 2 ^ Suc k"
    by (rule next_power_of_two_cases [OF n])
  have R: "log2 (next_power_of_two (length ids)) = Suc k" unfolding k by (rule log2_power)
  have len: "length idss = Suc k" and dist: "distinct (concat idss)"
    and "\<And>r. r < Suc k \<Longrightarrow> length (idss ! r) = 2 ^ Suc k div 2 ^ (r + 1)"
    using built unfolding single_elim_built_def Let_def R unfolding k by blast+
  then have lens: "\<And>r. r \<le> k \<Longrightarrow> length (idss ! r) = 2 ^ (k - r)" by (simp add: power_diff)
  have "length (idss ! r) = 2 * length (idss ! Suc r)" if "Suc r < length idss" for r
    using that len lens [of r] lens [of "Suc r"] by (simp add: Suc_diff_Suc [symmetric])
  then have "grid_ok idss" using dist len by (auto simp: grid_ok_def)
  with that k len lens show thesis by blast
qed

lemma bye_through_some:
  assumes "2 \<le> length ids" and "next_power_of_two (length ids) = 2 ^ Suc k" and "i < 2 ^ k"
  defines "slots \<equiv> seeded_slots ids (next_power_of_two (length ids))"
  shows "slots ! (i * 2) = None \<or> slots ! (i * 2 + 1) = None \<Longrightarrow> bye_through slots i \<noteq> None"
    and "bye_through slots i = Some p \<Longrightarrow> p \<in> set ids"
proof -
  have "slots ! (2 * i) \<noteq> None \<or> slots ! (2 * i + 1) \<noteq> None"
    using seeded_slots_complete [OF assms(1)] assms(2,3) by (simp add: slots_def seeded_slots_eq)
  then show "slots ! (i * 2) = None \<or> slots ! (i * 2 + 1) = None \<Longrightarrow> bye_through slots i \<noteq> None"
    by (auto simp: bye_through_def mult.commute)
  have bounds: "i * 2 < next_power_of_two (length ids)" "i * 2 + 1 < next_power_of_two (length ids)"
    using assms(2,3) by simp_all
  show "bye_through slots i = Some p \<Longrightarrow> p \<in> set ids"
    using slots_from [OF assms(1) bounds(1)] slots_from [OF assms(1) bounds(2)]
    by (auto simp: bye_through_def slots_def split: if_splits option.splits)
qed

lemma row_clean:
  assumes n: "2 \<le> length ids" and k: "next_power_of_two (length ids) = 2 ^ Suc k"
    and i: "r \<le> k" "i < 2 ^ (k - r)" and clean: "\<forall>p \<in> set ids. clean p"
    and p: "seat slot (single_elim_row tid rids (seeded_slots ids (2 ^ Suc k)) idss r i) = Some p"
  shows "clean p"
proof -
  let ?slots = "seeded_slots ids (2 ^ Suc k)" and ?slot = "if slot = ''a'' then ''a'' else ''b''"
  have p': "seat ?slot (single_elim_row tid rids ?slots idss r i) = Some p"
    using p unfolding seat_def by (cases "slot = ''a''") simp_all
  have "p \<in> set ids"
  proof -
    consider "r = 0" | "r = 1" | q where "r = Suc (Suc q)" by (metis One_nat_def not0_implies_Suc)
    then show ?thesis
    proof cases
      case 1
      have b: "i * 2 < 2 ^ Suc k" "i * 2 + 1 < 2 ^ Suc k" using 1 i by simp_all
      have "?slots ! (i * 2) = Some p \<or> ?slots ! (i * 2 + 1) = Some p"
        using p' row_seats(1,2) [of tid rids ?slots idss i] unfolding 1 by (cases "slot = ''a''") simp_all
      then show ?thesis
        using slots_from [OF n, unfolded k, OF b(1)] slots_from [OF n, unfolded k, OF b(2)] by blast
    next
      case 2
      then obtain k' where k': "k = Suc k'" using i by (cases k) simp_all
      have "\<exists>j < 2 ^ k. j div 2 = i \<and> slot_of j = ?slot"
        by (rule exI [of _ "if slot = ''a'' then 2 * i else 2 * i + 1"])
          (use i 2 k' in \<open>simp add: slot_of_def\<close>)
      then obtain j where j: "j < 2 ^ k" "j div 2 = i" "slot_of j = ?slot" by blast
      then have "bye_through ?slots j = Some p" using p' row_seats(3) [of j tid rids ?slots idss] 2 by simp
      then show ?thesis using bye_through_some(2) [OF n k j(1)] unfolding k by blast
    next
      case 3
      then show ?thesis using p' row_seats(4) by simp
    qed
  qed
  then show ?thesis using clean by blast
qed

lemma built_in_play:
  assumes built: "single_elim_built tid ids rids idss db db'" and n: "2 \<le> length ids"
    and clean: "\<forall>p \<in> set ids. clean p"
  shows "in_play tid idss (rows (matches db'))"
proof -
  let ?ms = "rows (matches db')"
  obtain k where k: "next_power_of_two (length ids) = 2 ^ Suc k" and len: "length idss = Suc k"
    and lens: "\<And>r. r \<le> k \<Longrightarrow> length (idss ! r) = 2 ^ (k - r)" and grid: "grid_ok idss"
    by (rule built_shape [OF built n]) simp
  let ?slots = "seeded_slots ids (2 ^ Suc k)"
  let ?row = "single_elim_row tid rids ?slots idss"
  have R: "log2 (next_power_of_two (length ids)) = Suc k" unfolding k by (rule log2_power)
  have row: "?ms (idss ! r ! i) = Some (?row r i)" if "r < length idss" "i < length (idss ! r)" for r i
    using built that unfolding single_elim_built_def Let_def R len unfolding k by blast
  have other: "?ms x = (case rows (matches db) x of None \<Rightarrow> None
      | Some m \<Rightarrow> if ma_tournament_id m = tid then None else Some m)" if "x \<notin> set (concat idss)" for x
    using built that unfolding single_elim_built_def Let_def by blast
  have cell: "cell_ok tid idss r i (?row r i)" if r: "r < length idss" "i < length (idss ! r)" for r i
  proof -
    have rk: "r \<le> k" "i < 2 ^ (k - r)" using r len lens by simp_all
    have seats: "\<forall>slot p. seat slot (?row r i) = Some p \<longrightarrow> clean p"
      using row_clean [OF n k rk clean] by blast
    have ptrs: "ma_tournament_id (?row r i) = tid" "ma_loser_next_match_id (?row r i) = None"
      "ma_next_match_id (?row r i) = (if Suc r < length idss then Some (idss ! Suc r ! (i div 2)) else None)"
      "Suc r < length idss \<longrightarrow> ma_next_match_slot (?row r i) = Some (slot_of i)"
      by (simp_all add: single_elim_row_def Let_def set_next_def new_match_def split: prod.split)
    show ?thesis unfolding cell_ok_def row_status using seats ptrs by simp
  qed
  have first: "decided m \<or> (seat ''a'' m \<noteq> None \<and> seat ''b'' m \<noteq> None)"
    if i: "i < length (idss ! 0)" and m: "?ms (idss ! 0 ! i) = Some m" for i m
  proof -
    have m_eq: "m = ?row 0 i" using row [of 0 i] len i m by simp
    show ?thesis unfolding m_eq decided_def row_status row_seats(1,2) by simp
  qed
  have sent: "seat (slot_of i) m' \<noteq> None"
    if r: "Suc r < length idss" "i < length (idss ! r)" and m: "?ms (idss ! r ! i) = Some m" "decided m"
      and m': "?ms (idss ! Suc r ! (i div 2)) = Some m'" for r i m m'
  proof -
    have "m = ?row r i" using row [of r i] r m(1) by simp
    then have r0: "r = 0" and bye: "?slots ! (i * 2) = None \<or> ?slots ! (i * 2 + 1) = None"
      using m(2) by (simp_all add: decided_def row_status split: if_splits)
    have "i < 2 ^ k" using r r0 lens [of 0] by simp
    then have "bye_through ?slots i \<noteq> None" using bye_through_some(1) [OF n k] bye unfolding k by blast
    moreover have "m' = ?row 1 (i div 2)" using row [OF r(1) grid_half [OF grid r]] m' r0 by simp
    ultimately show ?thesis using row_seats(3) [of i tid rids ?slots idss] by simp
  qed
  have only: "x \<in> set (concat idss)" if "?ms x = Some m" "ma_tournament_id m = tid" for x m
    using that other [of x] by (cases "x \<in> set (concat idss)") (auto split: option.splits if_splits)
  show ?thesis
    unfolding in_play_def using grid row cell first sent only by blast
qed

text \<open>How many matches there are to play.\<close>

lemma grid_length:
  assumes "grid_ok idss" and "length (last idss) = 1"
  shows "Suc (length (concat idss)) = 2 * length (hd idss)"
  using assms
proof (induction idss)
  case (Cons xs idss)
  show ?case
  proof (cases idss)
    case Nil
    then show ?thesis using Cons.prems by simp
  next
    case (Cons ys rest)
    have half: "length (idss ! r) = 2 * length (idss ! Suc r)" if "Suc r < length idss" for r
      using Cons.prems(1) that unfolding grid_ok_def by (metis Suc_less_eq length_Cons nth_Cons_Suc)
    have "grid_ok idss" using Cons.prems(1) half \<open>idss = ys # rest\<close> by (simp add: grid_ok_def)
    moreover have "length xs = 2 * length ys"
      using Cons.prems(1) \<open>idss = ys # rest\<close> unfolding grid_ok_def by force
    ultimately show ?thesis using Cons.IH Cons.prems(2) \<open>idss = ys # rest\<close> by simp
  qed
qed (simp add: grid_ok_def)

lemma count_pairs:
  assumes "length xs = 2 * h" and "\<And>i. i < h \<Longrightarrow> xs ! (2 * i) \<noteq> None \<or> xs ! (2 * i + 1) \<noteq> None"
  shows "card {i. i < h \<and> (xs ! (i * 2) = None \<or> xs ! (i * 2 + 1) = None)} = count (mset xs) None"
proof -
  let ?A = "{j. j < length xs \<and> xs ! j = None}"
  have inj: "inj_on (\<lambda>j. j div 2) ?A"
  proof (rule inj_onI)
    fix x y assume x: "x \<in> ?A" and y: "y \<in> ?A" and eq: "x div 2 = y div 2"
    have "x div 2 < h" using x assms(1) by auto
    from assms(2) [OF this] have "xs ! (2 * (x div 2)) \<noteq> None \<or> xs ! (2 * (x div 2) + 1) \<noteq> None" .
    moreover have "x = 2 * (x div 2) \<or> x = 2 * (x div 2) + 1" "y = 2 * (x div 2) \<or> y = 2 * (x div 2) + 1"
      using eq by presburger+
    ultimately show "x = y" using x y by auto
  qed
  have img: "(\<lambda>j. j div 2) ` ?A = {i. i < h \<and> (xs ! (i * 2) = None \<or> xs ! (i * 2 + 1) = None)}" (is "_ = ?B")
  proof
    show "(\<lambda>j. j div 2) ` ?A \<subseteq> ?B"
    proof
      fix i assume "i \<in> (\<lambda>j. j div 2) ` ?A"
      then obtain j where j: "j < length xs" "xs ! j = None" "i = j div 2" by blast
      have "j = i * 2 \<or> j = i * 2 + 1" using j(3) by presburger
      then show "i \<in> ?B" using j assms(1) by auto
    qed
    show "?B \<subseteq> (\<lambda>j. j div 2) ` ?A"
    proof
      fix i assume i: "i \<in> ?B"
      then obtain j where "j < length xs" "xs ! j = None" "j div 2 = i"
        using assms(1) that [of "i * 2"] that [of "i * 2 + 1"] by auto
      then show "i \<in> (\<lambda>j. j div 2) ` ?A" by blast
    qed
  qed
  have "card ?B = card ?A" unfolding img [symmetric] by (rule card_image [OF inj])
  also have "\<dots> = length (filter (\<lambda>x. x = None) xs)" by (simp only: length_filter_conv_card)
  also have "\<dots> = count (mset xs) None" by (induction xs) simp_all
  finally show ?thesis .
qed

lemma open_initially:
  assumes built: "single_elim_built tid ids rids idss db db'" and n: "2 \<le> length ids"
    and clean: "\<forall>p \<in> set ids. clean p"
  shows "open_matches tid db' = length ids - 1"
proof -
  let ?ms = "rows (matches db')"
  obtain k where k: "next_power_of_two (length ids) = 2 ^ Suc k" and len: "length idss = Suc k"
    and lens: "\<And>r. r \<le> k \<Longrightarrow> length (idss ! r) = 2 ^ (k - r)" and grid: "grid_ok idss"
    by (rule built_shape [OF built n]) simp
  let ?slots = "seeded_slots ids (2 ^ Suc k)"
  have R: "log2 (next_power_of_two (length ids)) = Suc k" unfolding k by (rule log2_power)
  have row: "?ms (idss ! r ! i) = Some (single_elim_row tid rids ?slots idss r i)"
    if "r < length idss" "i < length (idss ! r)" for r i
    using built that unfolding single_elim_built_def Let_def R len unfolding k by blast
  have play: "in_play tid idss ?ms" by (rule built_in_play [OF built n clean])
  let ?byes = "{i. i < 2 ^ k \<and> (?slots ! (i * 2) = None \<or> ?slots ! (i * 2 + 1) = None)}"
  have len0: "length (idss ! 0) = 2 ^ k" using lens [of 0] by simp
  have done_at: "match_done (single_elim_row tid rids ?slots idss r i) \<longleftrightarrow> r = 0 \<and> i \<in> ?byes"
    if "r < length idss" "i < length (idss ! r)" for r i
    using that len0 by (auto simp: match_done_status row_status)
  have "open_ids tid ?ms = set (concat idss) - (!) (idss ! 0) ` ?byes"
  proof (rule set_eqI)
    fix x
    show "x \<in> open_ids tid ?ms \<longleftrightarrow> x \<in> set (concat idss) - (!) (idss ! 0) ` ?byes"
    proof (cases "x \<in> set (concat idss)")
      case False
      then have "x \<notin> open_ids tid ?ms" using play unfolding in_play_def open_ids_def by blast
      with False show ?thesis by blast
    next
      case True
      then obtain r i where r: "r < length idss" "i < length (idss ! r)" and x: "x = idss ! r ! i"
        by (auto simp: in_set_conv_nth)
      have tid: "ma_tournament_id (single_elim_row tid rids ?slots idss r i) = tid"
        using in_play_cell [OF play r] row [OF r] by (auto simp: cell_ok_def)
      have "x \<in> (!) (idss ! 0) ` ?byes \<longleftrightarrow> r = 0 \<and> i \<in> ?byes"
      proof
        assume "x \<in> (!) (idss ! 0) ` ?byes"
        then obtain j where j: "j \<in> ?byes" "x = idss ! 0 ! j" by (rule imageE)
        then have "r = 0 \<and> i = j" using grid_eq [OF grid r, of 0 j] len len0 x by simp
        then show "r = 0 \<and> i \<in> ?byes" using j(1) by simp
      next
        assume "r = 0 \<and> i \<in> ?byes"
        then show "x \<in> (!) (idss ! 0) ` ?byes" unfolding x by blast
      qed
      then show ?thesis using True row [OF r] done_at [OF r] tid by (simp add: open_ids_def x)
    qed
  qed
  moreover have "(!) (idss ! 0) ` ?byes \<subseteq> set (concat idss)"
  proof (rule image_subsetI)
    fix i assume "i \<in> ?byes"
    then have "idss ! 0 ! i \<in> set (idss ! 0)" using len0 by simp
    moreover have "idss ! 0 \<in> set idss" using len by simp
    ultimately show "idss ! 0 ! i \<in> set (concat idss)" by auto
  qed
  moreover have dist: "distinct (concat idss)" using grid by (simp add: grid_ok_def)
  moreover have "card (set (concat idss)) = 2 ^ Suc k - 1"
  proof -
    have "last idss = idss ! k" using len last_conv_nth [of idss] by force
    then have "Suc (length (concat idss)) = 2 * length (hd idss)"
      using grid_length [OF grid] lens [of k] by simp
    moreover have "hd idss = idss ! 0" using len by (cases idss) simp_all
    ultimately show ?thesis using len0 distinct_card [OF dist] by simp
  qed
  moreover have "card ((!) (idss ! 0) ` ?byes) = 2 ^ Suc k - length ids"
  proof -
    have "distinct (idss ! 0)" using dist len by (auto simp: distinct_concat_iff)
    then have "card ((!) (idss ! 0) ` ?byes) = card ?byes"
      by (intro card_image inj_onI) (simp add: nth_eq_iff_index_eq len0)
    also have "\<dots> = count (mset ?slots) None"
    proof (rule count_pairs)
      have "length ids \<le> 2 ^ Suc k" using next_power_of_two_cases [OF n] k by metis
      then show "length ?slots = 2 * 2 ^ k"
        using arg_cong [OF conjunct1 [OF seeded_slots_complete [OF n]], of size] unfolding k
        by (simp add: seeded_slots_eq)
    qed (use seeded_slots_complete [OF n] k in \<open>simp add: seeded_slots_eq\<close>)
    also have "\<dots> = 2 ^ Suc k - length ids"
    proof -
      have "mset ?slots = mset (map Some ids) + replicate_mset (2 ^ Suc k - length ids) None"
        using conjunct1 [OF seeded_slots_complete [OF n]] unfolding k seeded_slots_eq .
      moreover have "count (mset (map Some ids)) None = 0" by (induction ids) simp_all
      ultimately show ?thesis by simp
    qed
    finally show ?thesis .
  qed
  ultimately have "card (open_ids tid ?ms) = 2 ^ Suc k - 1 - (2 ^ Suc k - length ids)"
    by (simp add: card_Diff_subset finite_subset)
  moreover have "length ids \<le> 2 ^ Suc k" using next_power_of_two_cases [OF n] k by metis
  moreover have "db_ok db'" using built by (simp add: single_elim_built_def Let_def)
  ultimately show ?thesis using open_matches_card(1) by simp
qed

subsection \<open>Playing it out\<close>

text \<open>The requests that report the given matches of a tournament.\<close>

definition report_requests ::
  "caller \<Rightarrow> instant \<Rightarrow> string \<Rightarrow> (string \<times> report_request) list \<Rightarrow> (caller \<times> instant \<times> tournament_request) list"
where
  "report_requests c now tid later = map (\<lambda>(mid, body). (c, now, ReportMatch tid mid body)) later"

lemma serve_all_append: "serve_all (xs @ ys) s = serve_all ys (serve_all xs s)"
  by (induction xs s rule: serve_all.induct) simp_all

lemma in_play_serve_all:
  assumes "in_play tid idss (ms_of s)" and "\<forall>(c, now, req) \<in> set reqs. \<exists>mid body. req = ReportMatch tid mid body"
  shows "in_play tid idss (ms_of (serve_all reqs s))"
  using assms
proof (induction reqs s rule: serve_all.induct)
  case (2 c now req rest s)
  then obtain mid body where "req = ReportMatch tid mid body" by auto
  then show ?case using 2 in_play_serve [OF 2(2)] by simp
qed simp

lemma play_on:
  assumes "site_ok s" and "in_play tid idss (ms_of s)" and "officer_user c = Inr officer"
    and "rows (tournaments (site_db s)) tid = Some t"
    and "open_matches tid (site_db s) = n"
  shows "\<exists>later s' t'. length later = n \<and> serve_all (report_requests c now tid later) s = s' \<and>
    all_done tid (site_db s') \<and> rows (tournaments (site_db s')) tid = Some t' \<and>
    (n > 0 \<longrightarrow> tn_status t' = ''completed'')"
  using assms
proof (induction n arbitrary: s t)
  case 0
  have "report_requests c now tid [] = []" by (simp add: report_requests_def)
  then show ?case using 0 by (intro exI [of _ "[]"]) (simp add: all_done_open)
next
  case (Suc n)
  note play = Suc.prems(2)
  have ok: "db_ok (site_db s)" using Suc.prems(1) by (simp add: site_ok_def)
  have "card (open_ids tid (ms_of s)) = Suc n"
    using open_matches_card(1) [OF ok] Suc.prems(5) by (simp add: ms_of_def)
  then have "open_ids tid (ms_of s) \<noteq> {}" by force
  then obtain r i m where r: "r < length idss" "i < length (idss ! r)" and m: "ms_of s (idss ! r ! i) = Some m"
    and ready: "\<not> decided m" "seat ''a'' m \<noteq> None"
    by (rule ready_match [OF play])
  have "cell_ok tid idss r i m" using in_play_cell [OF play r] m by simp
  note ok_rep = acceptable_win_a [OF this ready]
  from report_run [OF play r m ok_rep, of officer now] obtain s1 where
    run: "report_match officer tid (idss ! r ! i) (win_a m) now s = (Inr (idss ! r ! i, reported (win_a m) now m), s1)"
    and st: "report_step tid idss (win_a m) now r i m (ms_of s) (ms_of s1)"
    and tn: "rows (tournaments (site_db s1)) tid =
      map_option (status_after tid now (site_db s1)) (rows (tournaments (site_db s)) tid)" by blast
  have served: "snd (serve c now (ReportMatch tid (idss ! r ! i) (win_a m)) s) = s1"
    by (simp only: serve_report Suc.prems(3) sum.case run snd_conv)
  have ok1: "site_ok s1" using site_ok_serve [OF Suc.prems(1)] served by blast
  then have "db_ok (site_db s1)" by (simp add: site_ok_def)
  then have left: "open_matches tid (site_db s1) = n"
    using open_matches_card [OF ok] open_matches_card(1) [of "site_db s1" tid] open_ids_step [OF st] Suc.prems(5)
    by (simp add: ms_of_def)
  obtain t1 where t1: "rows (tournaments (site_db s1)) tid = Some t1" "t1 = status_after tid now (site_db s1) t"
    using tn Suc.prems(4) by simp
  from Suc.IH [OF ok1 in_play_after [OF st] Suc.prems(3) t1(1) left] obtain later s' t' where
    rest: "length later = n" "serve_all (report_requests c now tid later) s1 = s'"
      "all_done tid (site_db s')" "rows (tournaments (site_db s')) tid = Some t'"
      "n > 0 \<longrightarrow> tn_status t' = ''completed''" by blast
  have "tn_status t' = ''completed''"
  proof (cases n)
    case 0
    then have "s' = s1" using rest(1,2) by (simp add: report_requests_def)
    then have "t' = t1" "all_done tid (site_db s1)" using rest(3,4) t1(1) by simp_all
    then show ?thesis unfolding t1(2) by (simp add: status_after_def)
  qed (use rest(5) in simp)
  moreover have "serve_all (report_requests c now tid ((idss ! r ! i, win_a m) # later)) s = s'"
    using rest(2) served by (simp add: report_requests_def)
  moreover have "length ((idss ! r ! i, win_a m) # later) = Suc n" using rest(1) by simp
  ultimately show ?case using rest(3,4) by blast
qed

lemma generate_single_elim_run:
  assumes ok: "site_ok s" and t: "get_tournament tid (site_db s) = Some t" "tn_format_of t = SingleElim"
    and run: "serve c now (GenerateBracket tid) s = (Inr resp, s1)"
  shows "\<exists>rids idss. 2 \<le> length (list_tournament_participants tid (site_db s)) \<and>
    single_elim_built tid (map fst (list_tournament_participants tid (site_db s))) rids idss (site_db s) (site_db s1)"
proof -
  let ?ids = "map fst (list_tournament_participants tid (site_db s))"
  have db: "db_ok (site_db s)" using ok by (simp add: site_ok_def)
  obtain o' where "officer_user c = Inr o'"
    using run by (cases "officer_user c") (auto simp: as_officer_def fail_def)
  with run obtain s2 where gen: "db_call internal_err (generate_single_elim_bracket tid now) s = (Inr (), s2)"
    and same: "site_db s1 = site_db s2"
    by (auto simp: as_officer_def reply_with_def generate_bracket_def and_then_Inr_iff db_read_def t ok_or_def
        ret_def audit_def get_tournament_bracket_def db_call_Inr split: option.splits)
  then obtain db' where gen': "generate_single_elim_bracket tid now (site_db s) = (Inr (), db')" "site_db s2 = db'"
    by (auto simp: db_call_Inr)
  have n: "2 \<le> length ?ids"
    using gen'(1) by (auto simp: generate_single_elim_bracket_def Let_def fail_def split: if_splits)
  from single_elim_run [OF db refl n, of now] gen' obtain rids idss where
    "single_elim_built tid ?ids rids idss (site_db s) db'" by auto
  then show ?thesis using n same gen'(2) by auto
qed

text \<open>
  C4: a generated single-elimination tournament is never stuck. Right after generation there is one
  match less to play than participants, and whatever reports have been sent since, by whomever and
  accepted or not, an officer can send exactly as many further reports as there are open matches, after
  which every match is decided and the tournament is marked completed.
\<close>

theorem single_elim_never_stuck:
  assumes "site_ok s" and "get_tournament tid (site_db s) = Some t" and "tn_format_of t = SingleElim"
    and "\<forall>(p, _) \<in> set (list_tournament_participants tid (site_db s)). clean p"
    and "serve c now (GenerateBracket tid) s = (Inr resp, s1)"
    and "\<forall>(c, now, req) \<in> set earlier. \<exists>mid body. req = ReportMatch tid mid body"
    and "officer_user c' = Inr officer"
  shows "open_matches tid (site_db s1) = length (list_tournament_participants tid (site_db s)) - 1 \<and>
    (\<exists>later s2 t'. length later = open_matches tid (site_db (serve_all earlier s1)) \<and>
       serve_all (report_requests c' now' tid later) (serve_all earlier s1) = s2 \<and>
       all_done tid (site_db s2) \<and> get_tournament tid (site_db s2) = Some t' \<and>
       (later \<noteq> [] \<longrightarrow> tn_status_of t' = Completed))"
proof -
  let ?ids = "map fst (list_tournament_participants tid (site_db s))" and ?s = "serve_all earlier s1"
  have clean: "\<forall>p \<in> set ?ids. clean p" using assms(4) by auto
  obtain rids idss where n: "2 \<le> length ?ids"
    and built: "single_elim_built tid ?ids rids idss (site_db s) (site_db s1)"
    using generate_single_elim_run [OF assms(1-3,5)] by auto
  have start: "open_matches tid (site_db s1) = length ?ids - 1" by (rule open_initially [OF built n clean])
  have "in_play tid idss (ms_of s1)" unfolding ms_of_def by (rule built_in_play [OF built n clean])
  then have play: "in_play tid idss (ms_of ?s)" using assms(6) by (rule in_play_serve_all)
  have "site_ok s1" using site_ok_serve [OF assms(1), of c now "GenerateBracket tid"] assms(5) by simp
  then have ok: "site_ok ?s" and t1: "\<exists>t'. get_tournament tid (site_db ?s) = Some t'"
    using site_ok_serve_all [of s1 earlier] tournament_stays [of s1 tid t earlier] assms(2) built
    by (auto simp: get_tournament_def single_elim_built_def Let_def)
  then obtain t1 where "rows (tournaments (site_db ?s)) tid = Some t1" by (auto simp: get_tournament_def)
  from play_on [OF ok play assms(7) this refl, of now'] have "\<exists>later s2 t'.
      length later = open_matches tid (site_db ?s) \<and> serve_all (report_requests c' now' tid later) ?s = s2 \<and>
      all_done tid (site_db s2) \<and> get_tournament tid (site_db s2) = Some t' \<and>
      (later \<noteq> [] \<longrightarrow> tn_status_of t' = Completed)"
    unfolding get_tournament_def tn_status_of_def by (metis length_greater_0_conv parse_literals(2))
  then show ?thesis using start by simp
qed

text \<open>A cup of three.\<close>

definition cup_request :: tournament_request where
  "cup_request = CreateTournament
     \<lparr>cr_name = ''Cup'', cr_game_id = None, cr_format = SingleElim, cr_max_teams = None, cr_best_of = 1,
      cr_swiss_rounds = None, cr_is_external = False, cr_is_open = False, cr_external_url = None,
      cr_rules = None, cr_description = None, cr_starts_at = None, cr_ends_at = None\<rparr>"

definition entry_request :: tournament_request where
  "entry_request = AddParticipant [] \<lparr>ap_team_id = Some ''team'', ap_external_name = None, ap_seed = None\<rparr>"

definition cup_site :: site where
  "cup_site = serve_all
     [(an_officer, 0, cup_request), (an_officer, 0, entry_request), (an_officer, 0, entry_request),
      (an_officer, 0, entry_request)] empty_site"

lemma cup_db:
  "\<exists>t p1 p2 p3. get_tournament [] (site_db cup_site) = Some t \<and> tn_format_of t = SingleElim \<and>
     list_tournament_participants [] (site_db cup_site) = [(''x'', p1), (''xx'', p2), (''xxx'', p3)]"
  by (simp add: cup_site_def cup_request_def entry_request_def as_officer_def officer_user_def org_member_def
      an_officer_def is_at_least_def reply_with_def create_tournament_route_def db_call_def create_tournament_def
      Let_def audit_def and_then_def ret_def empty_site_def empty_db_def fresh_id_def get_tournament_def
      tn_format_of_def add_participant_def db_read_def ok_or_def count_tournament_participants_def
      add_tournament_participant_def list_tournament_participants_def t_list_def t_create_def t_empty_def
      parse_format_def)

theorem single_elim_never_stuck_witness:
  "\<exists>s1. (\<exists>resp. serve an_officer 1 (GenerateBracket []) cup_site = (Inr resp, s1)) \<and>
     open_matches [] (site_db s1) = 2 \<and>
     (\<exists>later s2. length later = open_matches [] (site_db (serve_all [(nobody, 2, ReportMatch [] ''y'' x_wins)] s1)) \<and>
        serve_all (report_requests an_officer 3 [] later) (serve_all [(nobody, 2, ReportMatch [] ''y'' x_wins)] s1) = s2 \<and>
        all_done [] (site_db s2))"
proof -
  obtain t p1 p2 p3 where t: "get_tournament [] (site_db cup_site) = Some t" "tn_format_of t = SingleElim"
    and parts: "list_tournament_participants [] (site_db cup_site) = [(''x'', p1), (''xx'', p2), (''xxx'', p3)]"
    using cup_db by blast
  have ok: "site_ok cup_site" unfolding cup_site_def by (rule site_ok_serve_all [OF site_ok_empty])
  have clean: "clean ''x''" "clean ''xx''" "clean ''xxx''" by code_simp+
  have "\<exists>db'. generate_single_elim_bracket [] 1 (site_db cup_site) = (Inr (), db') \<and>
      tournaments db' = tournaments (site_db cup_site)"
    using single_elim_run [of "site_db cup_site" _ "[]" 1, OF _ refl] ok parts
    by (auto simp: site_ok_def single_elim_built_def Let_def)
  then obtain db' where gen: "generate_single_elim_bracket [] 1 (site_db cup_site) = (Inr (), db')"
    and same: "tournaments db' = tournaments (site_db cup_site)" by blast
  have officer: "officer_user an_officer = Inr \<lparr>mb_id = ''m'', mb_role = Officer, mb_is_active = True\<rparr>"
    by (simp add: officer_user_def org_member_def an_officer_def is_at_least_def)
  have "\<exists>resp s1. serve an_officer 1 (GenerateBracket []) cup_site = (Inr resp, s1)"
    using t same by (simp add: as_officer_def officer reply_with_def generate_bracket_def and_then_def db_read_def
        ok_or_def ret_def db_call_def gen audit_def get_tournament_bracket_def get_tournament_def)
  then obtain resp s1 where run: "serve an_officer 1 (GenerateBracket []) cup_site = (Inr resp, s1)" by blast
  have "\<forall>(p, _) \<in> set (list_tournament_participants [] (site_db cup_site)). clean p"
    using clean by (simp add: parts)
  from single_elim_never_stuck [OF ok t this run, of "[(nobody, 2, ReportMatch [] ''y'' x_wins)]" _ _ 3, OF _ officer]
  have "open_matches [] (site_db s1) = 2 \<and>
     (\<exists>later s2. length later = open_matches [] (site_db (serve_all [(nobody, 2, ReportMatch [] ''y'' x_wins)] s1)) \<and>
        serve_all (report_requests an_officer 3 [] later) (serve_all [(nobody, 2, ReportMatch [] ''y'' x_wins)] s1) = s2 \<and>
        all_done [] (site_db s2))"
    unfolding parts by auto
  then show ?thesis using run by blast
qed

end
