(* ===== verification/MembershipPolicy.thy ===== *)
theory MembershipPolicy
  imports SiteAuth
begin

text \<open>
  The membership rules of \<open>crates/site-server/src/membership_policy.rs\<close> and the enums of
  \<open>crates/db/src/types.rs\<close> they speak about. A denial carries the status its route answers with.
\<close>

datatype application_status = Pending | Trial | Accepted | Rejected | Withdrawn

fun application_status_to_string :: "application_status \<Rightarrow> string" where
  "application_status_to_string Pending = ''pending''"
| "application_status_to_string Trial = ''trial''"
| "application_status_to_string Accepted = ''accepted''"
| "application_status_to_string Rejected = ''rejected''"
| "application_status_to_string Withdrawn = ''withdrawn''"

datatype moderation_type = Note | Warning | Suspension | Ban

fun moderation_type_to_string :: "moderation_type \<Rightarrow> string" where
  "moderation_type_to_string Note = ''note''"
| "moderation_type_to_string Warning = ''warning''"
| "moderation_type_to_string Suspension = ''suspension''"
| "moderation_type_to_string Ban = ''ban''"

fun role_to_string :: "org_role \<Rightarrow> string" where
  "role_to_string Admin = ''admin''"
| "role_to_string Officer = ''officer''"
| "role_to_string Member = ''member''"
| "role_to_string Recruit = ''recruit''"

datatype policy_denial = PolicyBadRequest string | PolicyForbidden string

fun denial_error :: "policy_denial \<Rightarrow> http_error" where
  "denial_error (PolicyBadRequest m) = Status 400 m"
| "denial_error (PolicyForbidden m) = Status 403 m"

subsection \<open>Applications\<close>

fun is_valid_application_transition :: "application_status \<Rightarrow> application_status \<Rightarrow> bool" where
  "is_valid_application_transition Pending Trial = True"
| "is_valid_application_transition Pending Accepted = True"
| "is_valid_application_transition Pending Rejected = True"
| "is_valid_application_transition Pending Withdrawn = True"
| "is_valid_application_transition Trial Accepted = True"
| "is_valid_application_transition Trial Rejected = True"
| "is_valid_application_transition Trial Withdrawn = True"
| "is_valid_application_transition _ _ = False"

definition applicant_may_self_withdraw :: "application_status \<Rightarrow> bool" where
  "applicant_may_self_withdraw st \<longleftrightarrow> st = Pending \<or> st = Trial"

definition application_blocks_resubmit :: "application_status \<Rightarrow> bool" where
  "application_blocks_resubmit st \<longleftrightarrow> st = Pending \<or> st = Trial"

fun role_on_application_accept :: "application_status \<Rightarrow> org_role" where
  "role_on_application_accept Trial = Member"
| "role_on_application_accept _ = Recruit"

definition application_status_ensures_member :: "application_status \<Rightarrow> bool" where
  "application_status_ensures_member st \<longleftrightarrow> st = Trial \<or> st = Accepted"

definition application_status_deactivates_member :: "application_status \<Rightarrow> bool" where
  "application_status_deactivates_member st \<longleftrightarrow> st = Rejected \<or> st = Withdrawn"

subsection \<open>Roles and moderation\<close>

definition officer_may_moderate :: "org_role \<Rightarrow> bool" where
  "officer_may_moderate target \<longleftrightarrow> target = Member \<or> target = Recruit"

definition can_moderate :: "org_role \<Rightarrow> org_role \<Rightarrow> string \<Rightarrow> string \<Rightarrow> policy_denial + unit" where
  "can_moderate actor target actor_id target_id =
     (if actor_id = target_id then Inl (PolicyForbidden ''Cannot moderate yourself'')
      else case actor of
        Admin \<Rightarrow> Inr ()
      | Officer \<Rightarrow> if officer_may_moderate target then Inr ()
          else Inl (PolicyForbidden ''Officers cannot moderate admins or other officers'')
      | _ \<Rightarrow> Inl (PolicyForbidden ''Insufficient role to moderate''))"

definition moderation_revokes_sessions :: "moderation_type \<Rightarrow> bool" where
  "moderation_revokes_sessions action \<longleftrightarrow> action = Suspension \<or> action = Ban"

definition can_change_role ::
  "string \<Rightarrow> string \<Rightarrow> org_role \<Rightarrow> bool \<Rightarrow> org_role \<Rightarrow> nat \<Rightarrow> bool \<Rightarrow> policy_denial + unit" where
  "can_change_role actor_id target_id target_role target_is_active new_role actionable_admin_count
     target_is_actionable_admin =
     (if target_role = new_role then Inl (PolicyBadRequest ''Member already has this role'')
      else if target_is_actionable_admin \<and> target_is_active \<and> target_role = Admin \<and> new_role \<noteq> Admin \<and>
          actionable_admin_count \<le> 1
      then Inl (PolicyForbidden ''Cannot demote the last active admin'') else Inr ())"

definition can_set_is_active ::
  "string \<Rightarrow> org_role \<Rightarrow> string \<Rightarrow> org_role \<Rightarrow> bool \<Rightarrow> bool \<Rightarrow> nat \<Rightarrow> bool \<Rightarrow> policy_denial + unit" where
  "can_set_is_active actor_id actor_role target_id target_role target_is_active new_active
     actionable_admin_count target_is_actionable_admin =
     (if actor_id = target_id then Inl (PolicyForbidden ''Cannot change your own active status'')
      else if \<not> is_at_least actor_role Officer
      then Inl (PolicyForbidden ''Only officers or admins can change active status'')
      else if actor_role = Officer \<and> \<not> officer_may_moderate target_role
      then Inl (PolicyForbidden ''Officers cannot deactivate admins or other officers'')
      else if target_is_actionable_admin \<and> target_is_active \<and> \<not> new_active \<and> target_role = Admin \<and>
          actionable_admin_count \<le> 1
      then Inl (PolicyForbidden ''Cannot deactivate the last active admin'') else Inr ())"

definition deactivation_revokes_sessions :: "bool \<Rightarrow> bool \<Rightarrow> bool" where
  "deactivation_revokes_sessions was_active new_active \<longleftrightarrow> was_active \<and> \<not> new_active"

definition can_suspend_or_ban_admin ::
  "org_role \<Rightarrow> bool \<Rightarrow> moderation_type \<Rightarrow> nat \<Rightarrow> bool \<Rightarrow> policy_denial + unit" where
  "can_suspend_or_ban_admin target_role target_is_active action actionable_admin_count
     target_is_actionable_admin =
     (if \<not> moderation_revokes_sessions action then Inr ()
      else if target_is_actionable_admin \<and> target_is_active \<and> target_role = Admin \<and> actionable_admin_count \<le> 1
      then Inl (PolicyForbidden ''Cannot suspend or ban the last active admin'') else Inr ())"

end
