(* ===== verification/MembershipDb.thy ===== *)
theory MembershipDb
  imports MembershipPolicy Tables
begin

text \<open>
  The queries of \<open>crates/db/src/queries/members.rs\<close>, \<open>moderation.rs\<close> and \<open>applications.rs\<close> that the
  membership routes use, on a state of three tables, the sessions, the accounts and the settings. Ids come
  from the database (\<open>next_id 0, next_id 1, ..\<close>, distinct). The key of a display name (Unicode
  normalisation of third-party crates) and a new Nostr key pair are supplied by the state as functions.
  Connection failures and the query timeout are not modelled, and neither is the decoding of the key mode and
  of the encrypted secret, which are kept as stored.
\<close>

record membership_row =
  mr_user_id :: string
  mr_org_role :: string
  mr_display_name :: string
  mr_display_name_key :: "string option"
  mr_bio :: "string option"
  mr_avatar_url :: "string option"
  mr_timezone :: "string option"
  mr_pronouns :: "string option"
  mr_availability_status :: "string option"
  mr_nostr_pubkey :: "string option"
  mr_nostr_key_mode :: "string option"
  mr_nostr_secret :: "string option"
  mr_joined_at :: instant
  mr_is_active :: bool
  mr_main_role :: "string option"
  mr_twitch :: "string option"
  mr_twitter :: "string option"

record application_row =
  ap_user_id :: string
  ap_status :: string
  ap_preferred_games :: "string list"
  ap_preferred_roles :: "string list"
  ap_message :: "string option"
  ap_reviewed_by :: "string option"
  ap_review_notes :: "string option"
  ap_trial_started_at :: "instant option"
  ap_trial_ends_at :: "instant option"
  ap_mentor_id :: "string option"
  ap_created_at :: instant
  ap_updated_at :: instant

record moderation_row =
  mo_member_id :: string
  mo_action_type :: string
  mo_reason :: string
  mo_issued_by :: string
  mo_expires_at :: "instant option"
  mo_is_active :: bool
  mo_created_at :: instant

record odb =
  next_id :: "nat \<Rightarrow> string"
  ids_given :: nat
  key_of_name :: "string \<Rightarrow> string option"
  new_keypair :: "nat \<Rightarrow> (string \<times> string) option"
  usernames :: "string \<rightharpoonup> string"
  recruitment_open :: bool
  sessions :: "(string \<times> string) list"
  members :: "membership_row table"
  applications :: "application_row table"
  moderation :: "moderation_row table"

datatype org_error =
    MemberNotFound string
  | RoleConflict org_role string
  | NoActionableAdmin
  | DisplayNameInvalid
  | DisplayNameTaken
  | UniqueIndex
  | ApplicationNotFound string
  | StatusConflict application_status application_status
  | ActionNotFound string

type_synonym 'a odb_op = "(odb, org_error, 'a) op"

definition given_id :: "odb \<Rightarrow> string" where
  "given_id db = next_id db (ids_given db)"

definition parse_role :: "string \<Rightarrow> org_role" where
  "parse_role s =
     (if s = ''admin'' then Admin else if s = ''officer'' then Officer
      else if s = ''member'' then Member else Recruit)"

abbreviation mr_role :: "membership_row \<Rightarrow> org_role" where
  "mr_role m \<equiv> parse_role (mr_org_role m)"

subsection \<open>Members\<close>

definition name_taken :: "string \<Rightarrow> string \<Rightarrow> odb \<Rightarrow> bool" where
  "name_taken key mid db \<longleftrightarrow>
     list_ex (\<lambda>k. k \<noteq> mid \<and> (case rows (members db) k of None \<Rightarrow> False
        | Some m \<Rightarrow> mr_display_name_key m = Some key)) (scan (members db))"

text \<open>The unique indexes on \<open>user_id\<close> and \<open>nostr_pubkey\<close>.\<close>

definition index_taken :: "string \<Rightarrow> string option \<Rightarrow> odb \<Rightarrow> bool" where
  "index_taken user_id pubkey db \<longleftrightarrow>
     t_list (\<lambda>m. mr_user_id m = user_id \<or> (pubkey \<noteq> None \<and> mr_nostr_pubkey m = pubkey)) (members db) \<noteq> []"

definition create_member :: "string \<Rightarrow> string \<Rightarrow> org_role \<Rightarrow> instant \<Rightarrow> (string \<times> membership_row) odb_op" where
  "create_member user_id display_name role now db =
     (case key_of_name db display_name of
        None \<Rightarrow> (Inl DisplayNameInvalid, db)
      | Some key \<Rightarrow>
          let keypair = new_keypair db (ids_given db);
              row = \<lparr>mr_user_id = user_id, mr_org_role = role_to_string role, mr_display_name = display_name,
                mr_display_name_key = Some key, mr_bio = None, mr_avatar_url = None, mr_timezone = None,
                mr_pronouns = None, mr_availability_status = None,
                mr_nostr_pubkey = map_option fst keypair,
                mr_nostr_key_mode = map_option (\<lambda>_. ''server_managed'') keypair,
                mr_nostr_secret = map_option snd keypair,
                mr_joined_at = now, mr_is_active = True, mr_main_role = None, mr_twitch = None, mr_twitter = None\<rparr>
          in if name_taken key (given_id db) db then (Inl DisplayNameTaken, db)
             else if index_taken user_id (map_option fst keypair) db then (Inl UniqueIndex, db)
             else (Inr (given_id db, row),
               db\<lparr>ids_given := ids_given db + 1, members := t_create (given_id db) row (members db)\<rparr>))"

definition get_member :: "string \<Rightarrow> odb \<Rightarrow> membership_row option" where
  "get_member mid db = rows (members db) mid"

definition get_member_by_user :: "string \<Rightarrow> odb \<Rightarrow> (string \<times> membership_row) option" where
  "get_member_by_user user_id db =
     (case t_list (\<lambda>m. mr_user_id m = user_id) (members db) of [] \<Rightarrow> None | m # _ \<Rightarrow> Some m)"

record member_patch =
  mp_display_name :: "string option"
  mp_bio :: "string option option"
  mp_avatar_url :: "string option option"
  mp_timezone :: "string option option"
  mp_pronouns :: "string option option"
  mp_availability_status :: "string option option"
  mp_nostr_pubkey :: "string option option"
  mp_is_active :: "bool option"
  mp_main_role :: "string option option"
  mp_twitch :: "string option option"
  mp_twitter :: "string option option"

definition no_patch :: member_patch where
  "no_patch = \<lparr>mp_display_name = None, mp_bio = None, mp_avatar_url = None, mp_timezone = None,
     mp_pronouns = None, mp_availability_status = None, mp_nostr_pubkey = None, mp_is_active = None,
     mp_main_role = None, mp_twitch = None, mp_twitter = None\<rparr>"

definition set_if :: "'a option \<Rightarrow> 'a \<Rightarrow> 'a" where
  "set_if new old = (case new of None \<Rightarrow> old | Some x \<Rightarrow> x)"

text \<open>The \<open>SET\<close> clauses that were pushed; \<open>key\<close> is the key of the new display name.\<close>

definition patched :: "member_patch \<Rightarrow> string option \<Rightarrow> membership_row \<Rightarrow> membership_row" where
  "patched p key m =
     (let m' = m\<lparr>mr_display_name := set_if (mp_display_name p) (mr_display_name m),
            mr_display_name_key := (if mp_display_name p = None then mr_display_name_key m else key),
            mr_bio := set_if (mp_bio p) (mr_bio m),
            mr_avatar_url := set_if (mp_avatar_url p) (mr_avatar_url m),
            mr_timezone := set_if (mp_timezone p) (mr_timezone m),
            mr_pronouns := set_if (mp_pronouns p) (mr_pronouns m),
            mr_availability_status := set_if (mp_availability_status p) (mr_availability_status m),
            mr_is_active := set_if (mp_is_active p) (mr_is_active m),
            mr_main_role := set_if (mp_main_role p) (mr_main_role m),
            mr_twitch := set_if (mp_twitch p) (mr_twitch m),
            mr_twitter := set_if (mp_twitter p) (mr_twitter m)\<rparr>
      in case mp_nostr_pubkey p of
           None \<Rightarrow> m'
         | Some pubkey \<Rightarrow> m'\<lparr>mr_nostr_pubkey := pubkey,
             mr_nostr_key_mode := map_option (\<lambda>_. ''external'') pubkey, mr_nostr_secret := None\<rparr>)"

definition put_member :: "string \<Rightarrow> membership_row \<Rightarrow> odb \<Rightarrow> odb" where
  "put_member mid m db = db\<lparr>members := t_update mid m (members db)\<rparr>"

definition pubkey_taken :: "string \<Rightarrow> string \<Rightarrow> odb \<Rightarrow> bool" where
  "pubkey_taken pubkey mid db \<longleftrightarrow>
     list_ex (\<lambda>k. k \<noteq> mid \<and> (case rows (members db) k of None \<Rightarrow> False
        | Some m \<Rightarrow> mr_nostr_pubkey m = Some pubkey)) (scan (members db))"

definition update_member :: "string \<Rightarrow> member_patch \<Rightarrow> (string \<times> membership_row) odb_op" where
  "update_member mid p db =
     (case (case mp_display_name p of None \<Rightarrow> Some None
            | Some n \<Rightarrow> (case key_of_name db n of None \<Rightarrow> None | Some key \<Rightarrow> Some (Some key))) of
        None \<Rightarrow> (Inl DisplayNameInvalid, db)
      | Some key \<Rightarrow>
          (case rows (members db) mid of
             None \<Rightarrow> (Inl (MemberNotFound mid), db)
           | Some m \<Rightarrow>
               if p = no_patch then (Inr (mid, m), db)
               else if (case key of None \<Rightarrow> False | Some k \<Rightarrow> name_taken k mid db) then (Inl DisplayNameTaken, db)
               else if (case mp_nostr_pubkey p of Some (Some pk) \<Rightarrow> pubkey_taken pk mid db | _ \<Rightarrow> False)
               then (Inl UniqueIndex, db)
               else (Inr (mid, patched p key m), put_member mid (patched p key m) db)))"

definition change_member_role :: "string \<Rightarrow> org_role \<Rightarrow> (string \<times> membership_row) odb_op" where
  "change_member_role mid role db =
     (case rows (members db) mid of
        None \<Rightarrow> (Inl (MemberNotFound mid), db)
      | Some m \<Rightarrow> let m' = m\<lparr>mr_org_role := role_to_string role\<rparr> in (Inr (mid, m'), put_member mid m' db))"

definition change_member_role_cas :: "string \<Rightarrow> org_role \<Rightarrow> org_role \<Rightarrow> (string \<times> membership_row) odb_op" where
  "change_member_role_cas mid expected role db =
     (case rows (members db) mid of
        None \<Rightarrow> (Inl (MemberNotFound mid), db)
      | Some m \<Rightarrow>
          if mr_org_role m = role_to_string expected
          then let m' = m\<lparr>mr_org_role := role_to_string role\<rparr> in (Inr (mid, m'), put_member mid m' db)
          else (Inl (RoleConflict expected (mr_org_role m)), db))"

subsection \<open>Moderation\<close>

definition unexpired :: "instant \<Rightarrow> moderation_row \<Rightarrow> bool" where
  "unexpired now a \<longleftrightarrow> (case mo_expires_at a of None \<Rightarrow> True | Some t \<Rightarrow> now < t)"

definition blocks :: "instant \<Rightarrow> moderation_row \<Rightarrow> bool" where
  "blocks now a \<longleftrightarrow>
     mo_is_active a \<and> (mo_action_type a = ''suspension'' \<or> mo_action_type a = ''ban'') \<and> unexpired now a"

definition create_moderation_action ::
  "string \<Rightarrow> moderation_type \<Rightarrow> string \<Rightarrow> string \<Rightarrow> instant option \<Rightarrow> instant \<Rightarrow> (string \<times> moderation_row) odb_op"
where
  "create_moderation_action mid action reason issued_by expires_at now db =
     (let row = \<lparr>mo_member_id = mid, mo_action_type = moderation_type_to_string action, mo_reason = reason,
            mo_issued_by = issued_by, mo_expires_at = expires_at, mo_is_active = True, mo_created_at = now\<rparr>
      in (Inr (given_id db, row),
          db\<lparr>ids_given := ids_given db + 1, moderation := t_create (given_id db) row (moderation db)\<rparr>))"

definition lift_moderation_action :: "string \<Rightarrow> (string \<times> moderation_row) odb_op" where
  "lift_moderation_action aid db =
     (case rows (moderation db) aid of
        None \<Rightarrow> (Inl (ActionNotFound aid), db)
      | Some a \<Rightarrow> let a' = a\<lparr>mo_is_active := False\<rparr>
          in (Inr (aid, a'), db\<lparr>moderation := t_update aid a' (moderation db)\<rparr>))"

definition is_member_suspended_or_banned :: "string \<Rightarrow> instant \<Rightarrow> odb \<Rightarrow> bool" where
  "is_member_suspended_or_banned mid now db \<longleftrightarrow>
     t_list (\<lambda>a. mo_member_id a = mid \<and> blocks now a) (moderation db) \<noteq> []"

definition is_member_banned :: "string \<Rightarrow> instant \<Rightarrow> odb \<Rightarrow> bool" where
  "is_member_banned mid now db \<longleftrightarrow>
     t_list (\<lambda>a. mo_member_id a = mid \<and> mo_is_active a \<and> mo_action_type a = ''ban'' \<and> unexpired now a)
       (moderation db) \<noteq> []"

definition get_member_auth_by_user :: "string \<Rightarrow> instant \<Rightarrow> odb \<Rightarrow> ((string \<times> membership_row) \<times> bool) option" where
  "get_member_auth_by_user user_id now db =
     (case get_member_by_user user_id db of
        None \<Rightarrow> None
      | Some (mid, m) \<Rightarrow> Some ((mid, m), is_member_suspended_or_banned mid now db))"

definition blocked_ids :: "instant \<Rightarrow> odb \<Rightarrow> string list" where
  "blocked_ids now db = map (\<lambda>(_, a). mo_member_id a) (t_list (blocks now) (moderation db))"

definition count_actionable_admins :: "instant \<Rightarrow> odb \<Rightarrow> nat" where
  "count_actionable_admins now db =
     length (filter (\<lambda>(k, _). k \<notin> set (blocked_ids now db))
       (t_list (\<lambda>m. mr_is_active m \<and> mr_org_role m = ''admin'') (members db)))"

definition assert_has_actionable_admin :: "instant \<Rightarrow> unit odb_op" where
  "assert_has_actionable_admin now db =
     (if count_actionable_admins now db = 0 then (Inl NoActionableAdmin, db) else (Inr (), db))"

definition delete_sessions_for_user :: "string \<Rightarrow> nat odb_op" where
  "delete_sessions_for_user user_id db =
     (Inr (length (filter (\<lambda>(_, u). u = user_id) (sessions db))),
      db\<lparr>sessions := filter (\<lambda>(_, u). u \<noteq> user_id) (sessions db)\<rparr>)"

subsection \<open>Applications\<close>

definition parse_application_status :: "string \<Rightarrow> application_status" where
  "parse_application_status s =
     (if s = ''pending'' then Pending else if s = ''trial'' then Trial else if s = ''accepted'' then Accepted
      else if s = ''rejected'' then Rejected else if s = ''withdrawn'' then Withdrawn else Pending)"

abbreviation ap_status_of :: "application_row \<Rightarrow> application_status" where
  "ap_status_of a \<equiv> parse_application_status (ap_status a)"

definition put_application :: "string \<Rightarrow> application_row \<Rightarrow> odb \<Rightarrow> odb" where
  "put_application aid a db = db\<lparr>applications := t_update aid a (applications db)\<rparr>"

definition submit_application ::
  "string \<Rightarrow> string list \<Rightarrow> string list \<Rightarrow> string option \<Rightarrow> instant \<Rightarrow> (string \<times> application_row) odb_op" where
  "submit_application user_id games roles message now db =
     (let row = \<lparr>ap_user_id = user_id, ap_status = ''pending'', ap_preferred_games = games,
            ap_preferred_roles = roles, ap_message = message, ap_reviewed_by = None, ap_review_notes = None,
            ap_trial_started_at = None, ap_trial_ends_at = None, ap_mentor_id = None,
            ap_created_at = now, ap_updated_at = now\<rparr>
      in (Inr (given_id db, row),
          db\<lparr>ids_given := ids_given db + 1, applications := t_create (given_id db) row (applications db)\<rparr>))"

definition count_open_applications :: "string \<Rightarrow> odb \<Rightarrow> nat" where
  "count_open_applications user_id db =
     length (t_list (\<lambda>a. ap_user_id a = user_id \<and> (ap_status a = ''pending'' \<or> ap_status a = ''trial''))
       (applications db))"

definition delete_application :: "string \<Rightarrow> unit odb_op" where
  "delete_application aid db = (Inr (), db\<lparr>applications := t_delete aid (applications db)\<rparr>)"

definition get_application :: "string \<Rightarrow> odb \<Rightarrow> application_row option" where
  "get_application aid db = rows (applications db) aid"

text \<open>\<open>ORDER BY created_at DESC LIMIT 1\<close>.\<close>

definition get_application_by_user :: "string \<Rightarrow> odb \<Rightarrow> (string \<times> application_row) option" where
  "get_application_by_user user_id db =
     (case sort_key (\<lambda>(_, a). - ap_created_at a) (t_list (\<lambda>a. ap_user_id a = user_id) (applications db)) of
        [] \<Rightarrow> None | a # _ \<Rightarrow> Some a)"

text \<open>Fourteen days, in the unit of \<open>instant\<close>.\<close>

definition trial_length :: duration where
  "trial_length = from_secs (14 * 24 * 60 * 60)"

definition update_application_status ::
  "string \<Rightarrow> application_status \<Rightarrow> application_status \<Rightarrow> string \<Rightarrow> string option \<Rightarrow> instant
     \<Rightarrow> (string \<times> application_row) odb_op" where
  "update_application_status aid expected status reviewed_by notes now db =
     (case rows (applications db) aid of
        None \<Rightarrow> (Inl (ApplicationNotFound aid), db)
      | Some a \<Rightarrow>
          if ap_status a = application_status_to_string expected
          then let a' = a\<lparr>ap_status := application_status_to_string status, ap_reviewed_by := Some reviewed_by,
                 ap_review_notes := notes, ap_updated_at := now\<rparr>;
                 a'' = (if status = Trial
                        then a'\<lparr>ap_trial_started_at := Some now, ap_trial_ends_at := Some (now + int trial_length)\<rparr>
                        else a')
               in (Inr (aid, a''), put_application aid a'' db)
          else (Inl (StatusConflict expected (ap_status_of a)), db))"

end
