(* ===== verification/ProfileFields.thy ===== *)
theory ProfileFields
  imports Prelude
begin

text \<open>
  The profile fields a member may set, and how they are checked: social handles
  (\<open>crates/site-server/src/routes/members.rs\<close>) and the avatar URL
  (\<open>crates/site-server/src/routes/uploads.rs\<close>), on UTF-8 bytes.
\<close>

subsection \<open>Social handles\<close>

definition strip_prefix_or :: "string \<Rightarrow> string \<Rightarrow> string" where
  "strip_prefix_or p s = (if prefix p s then drop (length p) s else s)"

definition normalize_social_handle :: "string \<Rightarrow> string + string option" where
  "normalize_social_handle raw =
     (let t = trim raw in
      if t = [] then Inr None
      else
        let s = strip_prefix_or ''@'' t; lower = to_ascii_lowercase s in
        if str_contains lower ''://'' \<or> CHR 0x2F \<in> set s \<or> CHR 0x3F \<in> set s \<or> CHR 0x20 \<in> set s
        then Inl ''social handle must not be a URL''
        else if 32 < length s then Inl ''social handle too long (max 32)''
        else if \<not> list_all (\<lambda>c. is_ascii_alphanumeric c \<or> c = CHR ''_'' \<or> c = CHR 0x2E) s
        then Inl ''social handle has invalid characters''
        else Inr (Some s))"

text \<open>An omitted field stays omitted, an explicit \<open>null\<close> clears it.\<close>

definition normalize_optional_handle :: "string option option \<Rightarrow> string + string option option" where
  "normalize_optional_handle value =
     (case value of
        None \<Rightarrow> Inr None
      | Some None \<Rightarrow> Inr (Some None)
      | Some (Some raw) \<Rightarrow> (case normalize_social_handle raw of Inr v \<Rightarrow> Inr (Some v) | Inl msg \<Rightarrow> Inl msg))"

subsection \<open>Avatars\<close>

text \<open>A character outside the safe set becomes one underscore; its continuation bytes vanish.\<close>

definition is_continuation :: "char \<Rightarrow> bool" where
  "is_continuation c \<longleftrightarrow> 128 \<le> byte c \<and> byte c < 192"

definition member_dir_key :: "string \<Rightarrow> string" where
  "member_dir_key mid =
     (let key = map (\<lambda>c. if is_ascii_alphanumeric c \<or> c = CHR ''-'' \<or> c = CHR ''_'' then c else CHR ''_'')
            (filter (\<lambda>c. \<not> is_continuation c) mid)
      in if key = [] then ''unknown'' else key)"

definition member_avatar_prefix :: "string \<Rightarrow> string" where
  "member_avatar_prefix mid = ''/uploads/avatars/'' @ member_dir_key mid @ ''/''"

definition avatar_rel_is_safe :: "string \<Rightarrow> bool" where
  "avatar_rel_is_safe rel \<longleftrightarrow>
     rel \<noteq> [] \<and> CHR 0x5C \<notin> set rel \<and> CHR 0x00 \<notin> set rel \<and> CHR 0x3F \<notin> set rel \<and> CHR 0x23 \<notin> set rel \<and>
     CHR 0x25 \<notin> set rel \<and>
     list_all (\<lambda>seg. seg \<noteq> [] \<and> seg \<noteq> ''.'' \<and> seg \<noteq> ''..'' \<and>
         list_all (\<lambda>c. is_ascii_alphanumeric c \<or> c = CHR ''-'' \<or> c = CHR ''_'' \<or> c = CHR 0x2E) seg)
       (split_on (\<lambda>c. c = CHR 0x2F) rel)"

text \<open>\<open>chars().any(|c| c.is_control() || c.is_whitespace())\<close>.\<close>

definition control_encodings :: "string list" where
  "control_encodings =
     map (\<lambda>n. [char_of n]) ([0..<32] @ [127]) @ map (\<lambda>n. [CHR 0xC2, char_of n]) [128..<160]"

definition has_control_or_space :: "string \<Rightarrow> bool" where
  "has_control_or_space s \<longleftrightarrow> list_ex (str_contains s) (control_encodings @ ws_encodings)"

definition avatar_url_refused :: string where
  "avatar_url_refused =
     ''avatar_url must be empty, an https URL, or a file under your own avatars folder''"

definition normalize_avatar_url :: "string \<Rightarrow> string \<Rightarrow> string + string option" where
  "normalize_avatar_url mid raw =
     (let trimmed = trim raw in
      if trimmed = [] then Inr None
      else if has_control_or_space trimmed then Inl avatar_url_refused
      else if 8 \<le> length trimmed \<and> eq_ignore_ascii_case (take 8 trimmed) ''https://''
      then (let rest = drop 8 trimmed in
            if rest = [] \<or> CHR 0x5C \<in> set rest then Inl avatar_url_refused else Inr (Some trimmed))
      else if prefix (member_avatar_prefix mid) trimmed \<and>
          avatar_rel_is_safe (drop (length (member_avatar_prefix mid)) trimmed)
      then Inr (Some trimmed)
      else Inl avatar_url_refused)"

subsection \<open>What is stored\<close>

lemma handle_chars:
  assumes "normalize_social_handle raw = Inr (Some s)"
  shows "length s \<le> 32" and "\<forall>c \<in> set s. is_ascii_alphanumeric c \<or> c = CHR ''_'' \<or> c = CHR 0x2E"
  using assms by (auto simp: normalize_social_handle_def Let_def list_all_iff split: if_splits)

lemma dir_key_chars:
  "member_dir_key mid \<noteq> []" "\<forall>c \<in> set (member_dir_key mid). is_ascii_alphanumeric c \<or> c = CHR ''-'' \<or> c = CHR ''_''"
proof -
  have "\<forall>c \<in> set ''unknown''. is_ascii_alphanumeric c" by (simp add: is_ascii_alphanumeric_def byte_def)
  then show "\<forall>c \<in> set (member_dir_key mid). is_ascii_alphanumeric c \<or> c = CHR ''-'' \<or> c = CHR ''_''"
    by (auto simp: member_dir_key_def Let_def)
qed (simp add: member_dir_key_def Let_def)

text \<open>
  An avatar stays in its member's folder. Whatever a member sends, what is stored is nothing, an
  \<open>https\<close> URL, or a path directly under that member's own avatar folder, with no empty, \<open>.\<close> or
  \<open>..\<close> segment and no character that could end the path or escape it; the folder name itself has
  no slash and no dot.
\<close>

theorem avatar_confined:
  "case normalize_avatar_url mid raw of
     Inl msg \<Rightarrow> msg = avatar_url_refused
   | Inr None \<Rightarrow> trim raw = []
   | Inr (Some url) \<Rightarrow>
       eq_ignore_ascii_case (take 8 url) ''https://'' \<or>
       (\<exists>rel. url = ''/uploads/avatars/'' @ member_dir_key mid @ ''/'' @ rel \<and> member_dir_key mid \<noteq> [] \<and>
          {CHR 0x2F, CHR 0x2E, CHR 0x5C} \<inter> set (member_dir_key mid) = {} \<and>
          {[], ''.'', ''..''} \<inter> set (split_on (\<lambda>c. c = CHR 0x2F) rel) = {} \<and>
          CHR 0x5C \<notin> set rel \<and> CHR 0x3F \<notin> set rel \<and> CHR 0x23 \<notin> set rel \<and> CHR 0x25 \<notin> set rel)"
proof -
  have key: "{CHR 0x2F, CHR 0x2E, CHR 0x5C} \<inter> set (member_dir_key mid) = {}"
    using dir_key_chars(2) [of mid] by (auto simp: is_ascii_alphanumeric_def byte_def)
  have path: "\<exists>rel. url = ''/uploads/avatars/'' @ member_dir_key mid @ ''/'' @ rel \<and> member_dir_key mid \<noteq> [] \<and>
      {CHR 0x2F, CHR 0x2E, CHR 0x5C} \<inter> set (member_dir_key mid) = {} \<and>
      {[], ''.'', ''..''} \<inter> set (split_on (\<lambda>c. c = CHR 0x2F) rel) = {} \<and>
      CHR 0x5C \<notin> set rel \<and> CHR 0x3F \<notin> set rel \<and> CHR 0x23 \<notin> set rel \<and> CHR 0x25 \<notin> set rel"
    if h: "prefix (member_avatar_prefix mid) url" "avatar_rel_is_safe (drop (length (member_avatar_prefix mid)) url)"
    for url
  proof -
    obtain rel where url: "url = member_avatar_prefix mid @ rel" using h(1) by (auto simp: prefix_def)
    then have "avatar_rel_is_safe rel" using h(2) by simp
    then show ?thesis using key dir_key_chars(1)
      unfolding url member_avatar_prefix_def avatar_rel_is_safe_def list_all_iff by auto
  qed
  show ?thesis
    using path by (auto simp: normalize_avatar_url_def Let_def split: sum.splits option.splits if_splits)
qed

end
