(* ===== verification/MembershipRoutes.thy ===== *)
theory MembershipRoutes
  imports MembershipDb ProfileFields SiteAudit
begin

text \<open>
  The routes that change memberships: \<open>update_member\<close> and \<open>change_role\<close> of
  \<open>crates/site-server/src/routes/members.rs\<close>, \<open>routes/moderation.rs\<close> and \<open>routes/applications.rs\<close>.
  A handler is an operation on the organisation (its database and the audit log), served one request at a
  time. Notifications and the profile event published to the relay are left out.
\<close>

subsection \<open>The organisation\<close>

record org = logged +
  org_db :: odb

type_synonym 'a org_handler = "(org, http_error, 'a) op"

definition server_error :: "org_error \<Rightarrow> http_error" where
  "server_error e = Status 500 ''Internal server error''"

definition org_read :: "(odb \<Rightarrow> 'a) \<Rightarrow> 'a org_handler" where
  "org_read f s = (Inr (f (org_db s)), s)"

definition org_call :: "(org_error \<Rightarrow> http_error) \<Rightarrow> 'a odb_op \<Rightarrow> 'a org_handler" where
  "org_call err f s =
     (case f (org_db s) of
        (Inl e, db) \<Rightarrow> (Inl (err e), s\<lparr>org_db := db\<rparr>)
      | (Inr x, db) \<Rightarrow> (Inr x, s\<lparr>org_db := db\<rparr>))"

definition org_ignore :: "'a odb_op \<Rightarrow> unit org_handler" where
  "org_ignore f s = (Inr (), s\<lparr>org_db := snd (f (org_db s))\<rparr>)"

definition require :: "http_error \<Rightarrow> 'a option \<Rightarrow> 'a org_handler" where
  "require err x = (case x of None \<Rightarrow> fail err | Some y \<Rightarrow> ret y)"

definition checked :: "('e \<Rightarrow> http_error) \<Rightarrow> 'e + 'a \<Rightarrow> 'a org_handler" where
  "checked err r = (case r of Inl e \<Rightarrow> fail (err e) | Inr x \<Rightarrow> ret x)"

text \<open>The message of a \<open>DbError::Conflict\<close> or \<open>NotFound\<close>.\<close>

fun org_error_text :: "org_error \<Rightarrow> string" where
  "org_error_text (MemberNotFound mid) = ''Member '' @ mid @ '' not found''"
| "org_error_text (RoleConflict expected found) =
     ''Member role changed concurrently (expected '' @ role_to_string expected @ '', found '' @ found @ '')''"
| "org_error_text NoActionableAdmin = ''Would leave org without an actionable admin''"
| "org_error_text (ApplicationNotFound aid) = ''Application '' @ aid @ '' not found''"
| "org_error_text (StatusConflict expected found) =
     ''Application status changed concurrently (expected '' @ application_status_to_string expected @
     '', found '' @ application_status_to_string found @ '')''"
| "org_error_text (ActionNotFound aid) = ''Moderation action '' @ aid @ '' not found''"
| "org_error_text DisplayNameInvalid = ''display_name_invalid''"
| "org_error_text DisplayNameTaken = ''display_name_taken''"
| "org_error_text UniqueIndex = []"

text \<open>\<open>display_name_write_error\<close>, with 500 for the other errors.\<close>

fun member_write_error :: "org_error \<Rightarrow> http_error" where
  "member_write_error DisplayNameInvalid = Status 400 ''display_name_invalid''"
| "member_write_error DisplayNameTaken = Status 409 ''display_name_taken''"
| "member_write_error e = server_error e"

fun role_write_error :: "org_error \<Rightarrow> http_error" where
  "role_write_error (RoleConflict e f) = Status 409 (org_error_text (RoleConflict e f))"
| "role_write_error (MemberNotFound mid) = Status 404 (org_error_text (MemberNotFound mid))"
| "role_write_error e = server_error e"

text \<open>
  The check after a write that takes an administrator away: if none is left, undo the write and answer 409.
\<close>

definition or_restore :: "bool \<Rightarrow> instant \<Rightarrow> 'a odb_op \<Rightarrow> unit org_handler" where
  "or_restore removed now undo s =
     (if \<not> removed then (Inr (), s)
      else case assert_has_actionable_admin now (org_db s) of
        (Inr _, _) \<Rightarrow> (Inr (), s)
      | (Inl e, _) \<Rightarrow> and_then (org_ignore undo) (\<lambda>_. fail (Status 409 (org_error_text e))) s)"

definition to_site_member :: "string \<times> membership_row \<Rightarrow> site_member" where
  "to_site_member r = (case r of (mid, m) \<Rightarrow> \<lparr>mb_id = mid, mb_role = mr_role m, mb_is_active = mr_is_active m\<rparr>)"

text \<open>The caller of a request, with the member lookup of this database.\<close>

definition caller_of :: "http_error + string \<Rightarrow> instant \<Rightarrow> org \<Rightarrow> caller" where
  "caller_of who now s =
     \<lparr>auth_user = who,
      member_lookup = (\<lambda>uid. Inr (map_option (\<lambda>(r, suspended). (to_site_member r, suspended))
        (get_member_auth_by_user uid now (org_db s))))\<rparr>"

definition activate_patch :: "bool \<Rightarrow> member_patch" where
  "activate_patch b = no_patch\<lparr>mp_is_active := Some b\<rparr>"

text \<open>An active administrator that is neither suspended nor banned.\<close>

definition actionable_admin :: "string \<Rightarrow> membership_row \<Rightarrow> instant \<Rightarrow> odb \<Rightarrow> bool" where
  "actionable_admin mid m now db \<longleftrightarrow>
     mr_is_active m \<and> mr_role m = Admin \<and> \<not> is_member_suspended_or_banned mid now db"

subsection \<open>Profile and role\<close>

definition require_profile_edit :: "string \<Rightarrow> site_member \<Rightarrow> string \<Rightarrow> membership_row org_handler" where
  "require_profile_edit uid caller mid =
     and_then (org_read (get_member mid)) (\<lambda>found.
     and_then (require (Status 404 ''Member not found'') found) (\<lambda>target.
       if mr_user_id target \<noteq> uid \<and> \<not> is_at_least (mb_role caller) Officer
       then fail (Status 403 ''Can only edit your own profile'') else ret target))"

text \<open>The new active flag, if it changes, and whether it takes an actionable administrator away.\<close>

definition active_change ::
  "site_member \<Rightarrow> string \<Rightarrow> membership_row \<Rightarrow> bool option \<Rightarrow> instant \<Rightarrow> (bool option \<times> bool) org_handler" where
  "active_change caller mid target wanted now =
     (case wanted of
        None \<Rightarrow> ret (None, False)
      | Some new_active \<Rightarrow>
          if new_active = mr_is_active target then ret (None, False)
          else
            and_then (org_read (count_actionable_admins now)) (\<lambda>count.
            and_then (org_read (actionable_admin mid target now)) (\<lambda>actionable.
            and_then (checked denial_error (can_set_is_active (mb_id caller) (mb_role caller) mid (mr_role target)
                (mr_is_active target) new_active count actionable)) (\<lambda>_.
              ret (wanted, \<not> new_active \<and> actionable)))))"

definition normalize_main_role :: "string option option \<Rightarrow> string + string option option" where
  "normalize_main_role value =
     (case value of
        None \<Rightarrow> Inr None
      | Some None \<Rightarrow> Inr (Some None)
      | Some (Some r) \<Rightarrow>
          let t = trim r in
          if t = [] then Inr (Some None)
          else if 32 < length t then Inl ''main_role too long (max 32)'' else Inr (Some (Some t)))"

definition normalize_avatar :: "string \<Rightarrow> string option option \<Rightarrow> string + string option option" where
  "normalize_avatar mid value =
     (case value of
        None \<Rightarrow> Inr None
      | Some None \<Rightarrow> Inr (Some None)
      | Some (Some raw) \<Rightarrow> (case normalize_avatar_url mid raw of Inr v \<Rightarrow> Inr (Some v) | Inl msg \<Rightarrow> Inl msg))"

definition update_member_route ::
  "string \<Rightarrow> site_member \<Rightarrow> string \<Rightarrow> member_patch \<Rightarrow> instant \<Rightarrow> (string \<times> membership_row) org_handler" where
  "update_member_route uid caller mid body now =
     and_then (require_profile_edit uid caller mid) (\<lambda>target.
       if mp_nostr_pubkey body \<noteq> None
       then fail (Status 400 ''Nostr pubkey can only be set via the challenge/verify flow'')
       else
         and_then (active_change caller mid target (mp_is_active body) now) (\<lambda>(is_active, deactivating).
         and_then (checked (Status 400) (normalize_optional_handle (mp_twitch body))) (\<lambda>twitch.
         and_then (checked (Status 400) (normalize_optional_handle (mp_twitter body))) (\<lambda>twitter.
         and_then (checked (Status 400) (normalize_avatar mid (mp_avatar_url body))) (\<lambda>avatar.
         and_then (checked (Status 400) (normalize_main_role (mp_main_role body))) (\<lambda>main_role.
         and_then (org_call member_write_error (update_member mid
             (body\<lparr>mp_avatar_url := avatar, mp_is_active := is_active, mp_main_role := main_role,
                mp_twitch := twitch, mp_twitter := twitter\<rparr>))) (\<lambda>(_, updated).
         and_then (or_restore deactivating now (update_member mid (activate_patch True))) (\<lambda>_.
         and_then (if deactivation_revokes_sessions (mr_is_active target) (mr_is_active updated)
             then and_then (org_ignore (delete_sessions_for_user (mr_user_id target))) (\<lambda>_.
               audit (mb_id caller) DeactivatedMember TargetMember mid (Some ''Member deactivated; sessions revoked''))
             else audit (mb_id caller) UpdatedMember TargetMember mid None) (\<lambda>_.
           ret (mid, updated))))))))))"

definition change_role ::
  "site_member \<Rightarrow> string \<Rightarrow> org_role \<Rightarrow> instant \<Rightarrow> (string \<times> membership_row) org_handler" where
  "change_role admin mid role now =
     and_then (org_read (get_member mid)) (\<lambda>found.
     and_then (require (Status 404 ''Member not found'') found) (\<lambda>target.
     and_then (org_read (count_actionable_admins now)) (\<lambda>count.
     and_then (org_read (actionable_admin mid target now)) (\<lambda>actionable.
     and_then (checked denial_error (can_change_role (mb_id admin) mid (mr_role target) (mr_is_active target)
         role count actionable)) (\<lambda>_.
     and_then (org_call role_write_error (change_member_role_cas mid (mr_role target) role)) (\<lambda>updated.
     and_then (or_restore (actionable \<and> role \<noteq> Admin) now
         (change_member_role_cas mid role (mr_role target))) (\<lambda>_.
     and_then (audit (mb_id admin) ChangedRole TargetMember mid
         (Some (role_to_string (mr_role target) @ arrow @ role_to_string role))) (\<lambda>_.
       ret updated))))))))"

subsection \<open>Moderation\<close>

record moderation_request =
  mq_member_id :: string
  mq_action_type :: moderation_type
  mq_reason :: string
  mq_expires_at :: "instant option"

text \<open>A ban deactivates the member first.\<close>

definition deactivate_on_ban ::
  "site_member \<Rightarrow> string \<Rightarrow> membership_row \<Rightarrow> moderation_type \<Rightarrow> bool \<Rightarrow> instant \<Rightarrow> unit org_handler" where
  "deactivate_on_ban officer mid target action actionable now =
     (if action = Ban \<and> mr_is_active target
      then
        and_then (org_call server_error (update_member mid (activate_patch False))) (\<lambda>_.
        and_then (or_restore actionable now (update_member mid (activate_patch True))) (\<lambda>_.
          audit (mb_id officer) DeactivatedMember TargetMember mid (Some ''Deactivated by ban'')))
      else ret ())"

definition create_moderation_route ::
  "site_member \<Rightarrow> moderation_request \<Rightarrow> instant \<Rightarrow> (string \<times> moderation_row) org_handler" where
  "create_moderation_route officer body now =
     (if trim (mq_reason body) = [] then fail (Status 400 ''Reason is required'')
      else
        let mid = mq_member_id body; action = mq_action_type body in
        and_then (org_read (get_member mid)) (\<lambda>found.
        and_then (require (Status 404 ''Target member not found'') found) (\<lambda>target.
        and_then (checked denial_error (can_moderate (mb_role officer) (mr_role target) (mb_id officer) mid)) (\<lambda>_.
        and_then (org_read (count_actionable_admins now)) (\<lambda>count.
        and_then (org_read (actionable_admin mid target now)) (\<lambda>actionable.
        and_then (checked denial_error (can_suspend_or_ban_admin (mr_role target) (mr_is_active target) action
            count actionable)) (\<lambda>_.
        and_then (deactivate_on_ban officer mid target action actionable now) (\<lambda>_.
        and_then (org_call server_error (create_moderation_action mid action (trim (mq_reason body))
            (mb_id officer) (mq_expires_at body) now)) (\<lambda>(aid, a).
        and_then (or_restore (action = Suspension \<and> actionable) now (lift_moderation_action aid)) (\<lambda>_.
        and_then (if moderation_revokes_sessions action
            then org_ignore (delete_sessions_for_user (mr_user_id target)) else ret ()) (\<lambda>_.
        and_then (audit (mb_id officer) CreatedModerationAction TargetModeration aid
            (Some (moderation_type_to_string action @ '' on member '' @ mid @ '': '' @ mq_reason body))) (\<lambda>_.
          ret (aid, a)))))))))))))"

definition lift_moderation_route :: "site_member \<Rightarrow> string \<Rightarrow> (string \<times> moderation_row) org_handler" where
  "lift_moderation_route admin aid =
     and_then (org_call server_error (lift_moderation_action aid)) (\<lambda>(_, a).
     and_then (audit (mb_id admin) LiftedModerationAction TargetModeration aid
         (Some (''Lifted '' @ mo_action_type a @ '' on member '' @ mo_member_id a))) (\<lambda>_.
       ret (aid, a)))"

subsection \<open>Applications\<close>

definition application_recruitment_gate :: "bool \<Rightarrow> unit org_handler" where
  "application_recruitment_gate is_open =
     (if is_open then ret () else fail (Status 403 ''recruitment is currently closed''))"

record submit_request =
  sq_preferred_games :: "string list"
  sq_preferred_roles :: "string list"
  sq_message :: "string option"

definition refuse_current_member :: "string \<Rightarrow> instant \<Rightarrow> unit org_handler" where
  "refuse_current_member uid now =
     and_then (org_read (get_member_by_user uid)) (\<lambda>found.
       case found of
         None \<Rightarrow> ret ()
       | Some (mid, m) \<Rightarrow>
           and_then (org_read (is_member_banned mid now)) (\<lambda>banned.
             if banned then fail (Status 403 ''Banned members cannot apply'')
             else if mr_is_active m then fail (Status 409 ''Already an active org member'')
             else ret ()))"

definition submit_application_route ::
  "string \<Rightarrow> submit_request \<Rightarrow> instant \<Rightarrow> (string \<times> application_row) org_handler" where
  "submit_application_route uid body now =
     and_then (org_read recruitment_open) (\<lambda>is_open.
     and_then (application_recruitment_gate is_open) (\<lambda>_.
     and_then (refuse_current_member uid now) (\<lambda>_.
     and_then (org_read (get_application_by_user uid)) (\<lambda>existing.
     and_then (case existing of
         None \<Rightarrow> ret ()
       | Some (_, a) \<Rightarrow>
           if application_blocks_resubmit (ap_status_of a)
           then fail (Status 409 (''You already have an open application ('' @
                  application_status_to_string (ap_status_of a) @ '')''))
           else ret ()) (\<lambda>_.
     and_then (org_call server_error (submit_application uid (sq_preferred_games body) (sq_preferred_roles body)
         (sq_message body) now)) (\<lambda>(aid, a).
     and_then (org_read (count_open_applications uid)) (\<lambda>n.
       if 1 < n
       then and_then (org_ignore (delete_application aid)) (\<lambda>_.
              fail (Status 409 ''You already have an open application''))
       else ret (aid, a))))))))"

definition ensure_member_for_application ::
  "string \<Rightarrow> application_status \<Rightarrow> application_status \<Rightarrow> instant \<Rightarrow> (string \<times> membership_row) org_handler" where
  "ensure_member_for_application uid old to now =
     (let desired = (if to = Accepted then role_on_application_accept old else Recruit) in
      and_then (org_read (get_member_by_user uid)) (\<lambda>existing.
        case existing of
          Some (mid, m) \<Rightarrow>
            and_then (org_read (is_member_banned mid now)) (\<lambda>banned.
              if banned then fail (Status 409 ''An active ban blocks this application'')
              else
                and_then (if \<not> mr_is_active m
                    then org_call server_error (update_member mid (activate_patch True)) else ret (mid, m)) (\<lambda>(_, current).
                if to = Accepted \<and> mr_role current \<noteq> desired
                then (if is_at_least (mr_role current) Officer then ret (mid, current)
                      else org_call server_error (change_member_role mid desired))
                else ret (mid, current)))
        | None \<Rightarrow>
            and_then (org_read (\<lambda>db. usernames db uid)) (\<lambda>user.
            and_then (require (Status 400 ''Application user no longer exists'') user) (\<lambda>display_name.
              org_call member_write_error (create_member uid display_name desired now)))))"

fun application_action :: "application_status \<Rightarrow> audit_action" where
  "application_action Accepted = AcceptedApplication"
| "application_action Rejected = RejectedApplication"
| "application_action Trial = StartedTrialApplication"
| "application_action Withdrawn = WithdrawnApplication"
| "application_action Pending = AcceptedApplication"

fun status_write_error :: "org_error \<Rightarrow> http_error" where
  "status_write_error (StatusConflict e f) = Status 409 (org_error_text (StatusConflict e f))"
| "status_write_error e = server_error e"

text \<open>A failed trial takes the recruit's membership away; higher roles are left alone.\<close>

definition deactivate_recruit :: "string \<Rightarrow> string \<Rightarrow> unit org_handler" where
  "deactivate_recruit uid actor_id =
     and_then (org_read (get_member_by_user uid)) (\<lambda>found.
       case found of
         None \<Rightarrow> ret ()
       | Some (mid, m) \<Rightarrow>
           if mr_is_active m \<and> mr_role m = Recruit
           then
             and_then (org_call server_error (update_member mid (activate_patch False))) (\<lambda>_.
             and_then (org_ignore (delete_sessions_for_user uid)) (\<lambda>_.
               audit actor_id DeactivatedMember TargetMember mid
                 (Some ''Deactivated after application rejected/withdrawn'')))
           else ret ())"

definition apply_application_transition ::
  "string \<Rightarrow> application_row \<Rightarrow> application_status \<Rightarrow> string \<Rightarrow> string option \<Rightarrow> instant
     \<Rightarrow> (string \<times> application_row) org_handler" where
  "apply_application_transition aid existing to actor_id notes now =
     and_then (if application_status_ensures_member to
         then and_then (ensure_member_for_application (ap_user_id existing) (ap_status_of existing) to now)
                (\<lambda>_. ret ()) else ret ()) (\<lambda>_.
     and_then (org_call status_write_error
         (update_application_status aid (ap_status_of existing) to actor_id notes now)) (\<lambda>app.
     and_then (if application_status_deactivates_member to
         then deactivate_recruit (ap_user_id existing) actor_id else ret ()) (\<lambda>_.
     and_then (audit actor_id (application_action to) TargetApplication aid
         (Some (application_status_to_string (ap_status_of existing) @ arrow @ application_status_to_string to))) (\<lambda>_.
       ret app))))"

definition withdraw_my_application :: "string \<Rightarrow> instant \<Rightarrow> (string \<times> application_row) org_handler" where
  "withdraw_my_application uid now =
     and_then (org_read (get_application_by_user uid)) (\<lambda>found.
     and_then (require (Status 404 ''No application found'') found) (\<lambda>(aid, existing).
       if \<not> applicant_may_self_withdraw (ap_status_of existing)
       then fail (Status 400 (''Cannot withdraw application in status '' @
              application_status_to_string (ap_status_of existing)))
       else
         and_then (org_read (get_member_by_user uid)) (\<lambda>member.
           apply_application_transition aid existing Withdrawn
             (case member of Some (mid, _) \<Rightarrow> mid | None \<Rightarrow> uid) (Some ''Self-withdrawn by applicant'') now)))"

definition update_application_route ::
  "site_member \<Rightarrow> string \<Rightarrow> application_status \<Rightarrow> string option \<Rightarrow> instant \<Rightarrow> (string \<times> application_row) org_handler"
where
  "update_application_route officer aid status notes now =
     and_then (org_read (get_application aid)) (\<lambda>found.
     and_then (require (Status 404 ''Application not found'') found) (\<lambda>existing.
       if \<not> is_valid_application_transition (ap_status_of existing) status
       then fail (Status 400 (''Invalid transition: '' @ application_status_to_string (ap_status_of existing) @
              arrow @ application_status_to_string status))
       else apply_application_transition aid existing status (mb_id officer) notes now))"

subsection \<open>The routes\<close>

datatype org_request =
    UpdateMember string member_patch
  | ChangeRole string org_role
  | CreateModeration moderation_request
  | LiftModeration string
  | SubmitApplication submit_request
  | WithdrawApplication
  | UpdateApplication string application_status "string option"

datatype org_response =
    MemberBody string membership_row
  | ModerationBody nat string moderation_row
  | ApplicationBody nat string application_row

definition entering :: "http_error + 'a \<Rightarrow> ('a \<Rightarrow> 'b org_handler) \<Rightarrow> 'b org_handler" where
  "entering gate h = (case gate of Inl e \<Rightarrow> fail e | Inr x \<Rightarrow> h x)"

definition answer :: "('a \<Rightarrow> org_response) \<Rightarrow> 'a org_handler \<Rightarrow> org_response org_handler" where
  "answer f h = and_then h (\<lambda>x. ret (f x))"

text \<open>One request of the user that the session check found, if any.\<close>

fun serve_org :: "http_error + string \<Rightarrow> instant \<Rightarrow> org_request \<Rightarrow> org_response org_handler" where
  "serve_org who now (UpdateMember mid body) s =
     entering (org_member (caller_of who now s)) (\<lambda>m. entering who (\<lambda>uid.
       answer (\<lambda>(i, r). MemberBody i r) (update_member_route uid m mid body now))) s"
| "serve_org who now (ChangeRole mid role) s =
     entering (admin_user (caller_of who now s)) (\<lambda>m.
       answer (\<lambda>(i, r). MemberBody i r) (change_role m mid role now)) s"
| "serve_org who now (CreateModeration body) s =
     entering (officer_user (caller_of who now s)) (\<lambda>m.
       answer (\<lambda>(i, a). ModerationBody 201 i a) (create_moderation_route m body now)) s"
| "serve_org who now (LiftModeration aid) s =
     entering (admin_user (caller_of who now s)) (\<lambda>m.
       answer (\<lambda>(i, a). ModerationBody 200 i a) (lift_moderation_route m aid)) s"
| "serve_org who now (SubmitApplication body) s =
     entering who (\<lambda>uid. answer (\<lambda>(i, a). ApplicationBody 201 i a) (submit_application_route uid body now)) s"
| "serve_org who now WithdrawApplication s =
     entering who (\<lambda>uid. answer (\<lambda>(i, a). ApplicationBody 200 i a) (withdraw_my_application uid now)) s"
| "serve_org who now (UpdateApplication aid status notes) s =
     entering (officer_user (caller_of who now s)) (\<lambda>m.
       answer (\<lambda>(i, a). ApplicationBody 200 i a) (update_application_route m aid status notes now)) s"

end
