(* ===== verification/MembershipRules.thy ===== *)
theory MembershipRules
  imports MembershipRoutes
begin

text \<open>
  The rules of membership as a step relation \<open>org_step\<close>: what may happen to the members, the
  moderation actions and the applications, and under which conditions. The routes refine it, and the properties
  follow from the rules.
\<close>

subsection \<open>Well-formed organisations\<close>

definition given_ids :: "odb \<Rightarrow> string set" where
  "given_ids db = next_id db ` {..<ids_given db}"

definition member_at :: "odb \<Rightarrow> string \<Rightarrow> membership_row option" where
  "member_at db k = rows (members db) k"

definition odb_ok :: "odb \<Rightarrow> bool" where
  "odb_ok db \<longleftrightarrow>
     inj (next_id db) \<and> table_ok (members db) \<and> table_ok (applications db) \<and> table_ok (moderation db) \<and>
     dom (rows (members db)) \<union> dom (rows (applications db)) \<union> dom (rows (moderation db)) \<subseteq> given_ids db \<and>
     inj_on (\<lambda>k. map_option mr_user_id (rows (members db) k)) (dom (rows (members db)))"

lemma given_fresh:
  assumes "odb_ok db"
  shows "given_id db \<notin> given_ids db" "rows (members db) (given_id db) = None"
    "rows (applications db) (given_id db) = None" "rows (moderation db) (given_id db) = None"
proof -
  show "given_id db \<notin> given_ids db"
    using assms by (auto simp: odb_ok_def given_id_def given_ids_def inj_def)
  then show "rows (members db) (given_id db) = None" "rows (applications db) (given_id db) = None"
    "rows (moderation db) (given_id db) = None"
    using assms unfolding odb_ok_def by blast+
qed

lemma user_unique:
  assumes "odb_ok db" and "rows (members db) k = Some m" "rows (members db) k' = Some m'"
    and "mr_user_id m = mr_user_id m'"
  shows "k = k'"
  using assms unfolding odb_ok_def inj_on_def by (metis domI option.simps(9))

definition actionable_ids :: "instant \<Rightarrow> odb \<Rightarrow> string set" where
  "actionable_ids now db = {k. \<exists>m. rows (members db) k = Some m \<and> actionable_admin k m now db}"

lemma parse_role_admin [simp]: "parse_role r = Admin \<longleftrightarrow> r = ''admin''"
  by (simp add: parse_role_def)

lemma parse_role_to_string [simp]: "parse_role (role_to_string r) = r"
  by (cases r) (simp_all add: parse_role_def)

lemma suspended_iff:
  "odb_ok db \<Longrightarrow> is_member_suspended_or_banned k now db \<longleftrightarrow>
     (\<exists>aid a. rows (moderation db) aid = Some a \<and> mo_member_id a = k \<and> blocks now a)"
proof -
  assume "odb_ok db"
  then have "table_ok (moderation db)" by (simp add: odb_ok_def)
  then have "set (t_list (\<lambda>a. mo_member_id a = k \<and> blocks now a) (moderation db)) =
      {(aid, a). rows (moderation db) aid = Some a \<and> mo_member_id a = k \<and> blocks now a}"
    by (rule set_t_list)
  then show ?thesis unfolding is_member_suspended_or_banned_def by (auto simp: set_empty [symmetric] simp del: set_empty)
qed

lemma blocked_ids_iff: "odb_ok db \<Longrightarrow> k \<in> set (blocked_ids now db) \<longleftrightarrow> is_member_suspended_or_banned k now db"
  unfolding suspended_iff blocked_ids_def by (auto simp: set_t_list odb_ok_def image_iff)

lemma count_actionable:
  assumes "odb_ok db"
  shows "count_actionable_admins now db = card (actionable_ids now db)" and "finite (actionable_ids now db)"
proof -
  have ok: "table_ok (members db)" using assms by (simp add: odb_ok_def)
  let ?xs = "filter (\<lambda>(k, _). k \<notin> set (blocked_ids now db))
      (t_list (\<lambda>m. mr_is_active m \<and> mr_org_role m = ''admin'') (members db))"
  have "actionable_ids now db = set (map fst ?xs)"
    by (auto simp: actionable_ids_def actionable_admin_def set_t_list [OF ok] blocked_ids_iff [OF assms] image_iff)
  moreover have "distinct (map fst ?xs)" using distinct_t_list [OF ok] by (rule distinct_map_filter)
  ultimately show "count_actionable_admins now db = card (actionable_ids now db)" "finite (actionable_ids now db)"
    using distinct_card [of "map fst ?xs"] by (simp_all add: count_actionable_admins_def)
qed

text \<open>Another administrator is left when one goes.\<close>

definition spare_admin :: "string \<Rightarrow> instant \<Rightarrow> odb \<Rightarrow> bool" where
  "spare_admin k now db \<longleftrightarrow> (k \<in> actionable_ids now db \<longrightarrow> actionable_ids now db - {k} \<noteq> {})"

lemma spare_adminI:
  assumes "odb_ok db" and "rows (members db) k = Some m"
    and "actionable_admin k m now db \<Longrightarrow> 1 < count_actionable_admins now db"
  shows "spare_admin k now db"
proof -
  have "actionable_ids now db - {k} \<noteq> {}" if "k \<in> actionable_ids now db"
  proof
    assume "actionable_ids now db - {k} = {}"
    then have "actionable_ids now db \<subseteq> {k}" by blast
    then have "card (actionable_ids now db) \<le> 1" using card_mono [of "{k}"] by force
    moreover have "actionable_admin k m now db" using that assms(2) by (auto simp: actionable_ids_def)
    ultimately show False using assms(3) count_actionable(1) [OF assms(1)] by simp
  qed
  then show ?thesis by (simp add: spare_admin_def)
qed

subsection \<open>The rules\<close>

text \<open>
  \<open>org_step adm L now\<close>: what a request at time \<open>now\<close> may do to the database, if it comes from an
  administrator or not (\<open>adm\<close>), where \<open>L\<close> holds the moderation actions it may lift.
\<close>

abbreviation below_officer :: "membership_row \<Rightarrow> bool" where
  "below_officer m \<equiv> \<not> Officer \<le> mr_role m"

inductive org_step :: "bool \<Rightarrow> string set \<Rightarrow> instant \<Rightarrow> odb \<Rightarrow> odb \<Rightarrow> bool"
  for adm :: bool and L :: "string set" and now :: instant where
  profile: "rows (members db) k = Some m \<Longrightarrow> mr_user_id m' = mr_user_id m \<Longrightarrow> mr_org_role m' = mr_org_role m \<Longrightarrow>
    (mr_is_active m \<longrightarrow> mr_is_active m') \<Longrightarrow> org_step adm L now db (put_member k m' db)"
| deactivate: "rows (members db) k = Some m \<Longrightarrow> mr_user_id m' = mr_user_id m \<Longrightarrow> mr_org_role m' = mr_org_role m \<Longrightarrow>
    adm \<or> below_officer m \<Longrightarrow> spare_admin k now db \<Longrightarrow> org_step adm L now db (put_member k m' db)"
| role: "rows (members db) k = Some m \<Longrightarrow> adm \<or> (below_officer m \<and> \<not> Officer \<le> r) \<Longrightarrow>
    r = Admin \<or> spare_admin k now db \<Longrightarrow>
    org_step adm L now db (put_member k (m\<lparr>mr_org_role := role_to_string r\<rparr>) db)"
| joined: "(\<forall>k m. rows (members db) k = Some m \<longrightarrow> mr_user_id m \<noteq> mr_user_id new) \<Longrightarrow> below_officer new \<Longrightarrow>
    org_step adm L now db
      (db\<lparr>ids_given := ids_given db + 1, members := t_create (given_id db) new (members db)\<rparr>)"
| moderated: "rows (members db) (mo_member_id act) = Some m \<Longrightarrow> adm \<or> below_officer m \<Longrightarrow>
    \<not> blocks now act \<or> spare_admin (mo_member_id act) now db \<Longrightarrow>
    org_step adm L now db
      (db\<lparr>ids_given := ids_given db + 1, moderation := t_create (given_id db) act (moderation db)\<rparr>)"
| lifted: "rows (moderation db) aid = Some act \<Longrightarrow> adm \<Longrightarrow> aid \<in> L \<Longrightarrow>
    org_step adm L now db (db\<lparr>moderation := t_update aid (act\<lparr>mo_is_active := False\<rparr>) (moderation db)\<rparr>)"
| signed_out: "org_step adm L now db (db\<lparr>sessions := ss\<rparr>)"
| applied: "count_open_applications (ap_user_id app) db = 0 \<Longrightarrow>
    org_step adm L now db
      (db\<lparr>ids_given := ids_given db + 1, applications := t_create (given_id db) app (applications db)\<rparr>)"
| id_spent: "org_step adm L now db (db\<lparr>ids_given := ids_given db + 1\<rparr>)"
| reviewed: "rows (applications db) aid = Some app \<Longrightarrow> ap_user_id app' = ap_user_id app \<Longrightarrow>
    ap_status app = application_status_to_string st \<Longrightarrow> ap_status app' = application_status_to_string st' \<Longrightarrow>
    is_valid_application_transition st st' \<Longrightarrow>
    (application_status_ensures_member st' \<longrightarrow>
       (\<exists>k m. rows (members db) k = Some m \<and> mr_user_id m = ap_user_id app \<and> mr_is_active m)) \<Longrightarrow>
    org_step adm L now db (put_application aid app' db)"

lemma odb_ok_put_member:
  assumes ok: "odb_ok db" and m: "rows (members db) k = Some m" and u: "mr_user_id m' = mr_user_id m"
  shows "odb_ok (put_member k m' db)"
proof -
  let ?db = "put_member k m' db"
  have same: "map_option mr_user_id (rows (members ?db) j) = map_option mr_user_id (rows (members db) j)" for j
    using m u by (simp add: put_member_def t_update_def)
  have "dom (rows (members ?db)) = dom (rows (members db))"
    using m by (auto simp: put_member_def t_update_def split: if_splits)
  moreover from this have "inj_on (\<lambda>j. map_option mr_user_id (rows (members ?db) j)) (dom (rows (members ?db)))"
    using ok unfolding odb_ok_def same by simp
  moreover have "table_ok (members ?db)" using ok m by (auto simp: odb_ok_def put_member_def intro: table_ok_update)
  ultimately show ?thesis using ok by (simp add: odb_ok_def given_ids_def put_member_def)
qed

lemma given_ids_more: "given_ids (db\<lparr>ids_given := Suc (ids_given db)\<rparr>) = insert (given_id db) (given_ids db)"
  by (simp add: given_ids_def given_id_def lessThan_Suc)

lemma odb_ok_step:
  assumes "org_step adm L now db db'" and ok: "odb_ok db"
  shows "odb_ok db'"
  using assms(1)
proof cases
  case (profile k m m')
  then show ?thesis using odb_ok_put_member [OF ok] by simp
next
  case (deactivate k m m')
  then show ?thesis using odb_ok_put_member [OF ok] by simp
next
  case (role k m r)
  then show ?thesis using odb_ok_put_member [OF ok] by simp
next
  case (joined new)
  note fresh = given_fresh [OF ok]
  have "table_ok (t_create (given_id db) new (members db))"
    using ok fresh by (auto simp: odb_ok_def intro: table_ok_create)
  moreover have "inj_on (\<lambda>k. map_option mr_user_id (rows (members db') k)) (dom (rows (members db')))"
  proof (rule inj_onI)
    fix x y assume x: "x \<in> dom (rows (members db'))" and y: "y \<in> dom (rows (members db'))"
      and eq: "map_option mr_user_id (rows (members db') x) = map_option mr_user_id (rows (members db') y)"
    have split: "rows (members db') z = (if z = given_id db then Some new else rows (members db) z)" for z
      by (simp add: joined(1) t_create_def)
    show "x = y"
      using x y eq user_unique [OF ok] joined(2) unfolding split
      by (auto split: if_splits) metis+
  qed
  ultimately show ?thesis using ok joined(1)
    by (auto simp: odb_ok_def given_ids_more t_create_def given_ids_def given_id_def lessThan_Suc)
next
  case (moderated act m)
  have "table_ok (t_create (given_id db) act (moderation db))"
    using ok given_fresh [OF ok] by (auto simp: odb_ok_def intro: table_ok_create)
  then show ?thesis using ok moderated(1)
    by (auto simp: odb_ok_def given_ids_def given_id_def t_create_def lessThan_Suc)
next
  case (lifted aid act)
  then have "table_ok (t_update aid (act\<lparr>mo_is_active := False\<rparr>) (moderation db))"
    using ok by (auto simp: odb_ok_def intro: table_ok_update)
  then show ?thesis using ok lifted by (auto simp: odb_ok_def given_ids_def t_update_def)
next
  case (signed_out ss)
  then show ?thesis using ok by (simp add: odb_ok_def given_ids_def)
next
  case (applied app)
  have "table_ok (t_create (given_id db) app (applications db))"
    using ok given_fresh [OF ok] by (auto simp: odb_ok_def intro: table_ok_create)
  then show ?thesis using ok applied(1)
    by (auto simp: odb_ok_def given_ids_def given_id_def t_create_def lessThan_Suc)
next
  case id_spent
  then show ?thesis using ok by (auto simp: odb_ok_def given_ids_def lessThan_Suc)
next
  case (reviewed aid app app' st st')
  then have "table_ok (t_update aid app' (applications db))" using ok by (auto simp: odb_ok_def intro: table_ok_update)
  then show ?thesis using ok reviewed by (auto simp: odb_ok_def given_ids_def put_application_def t_update_def)
qed

subsection \<open>The routes keep the rules\<close>

definition org_moves :: "bool \<Rightarrow> string set \<Rightarrow> instant \<Rightarrow> org \<Rightarrow> org \<Rightarrow> bool" where
  "org_moves adm L now s s' \<longleftrightarrow>
     (odb_ok (org_db s) \<longrightarrow> odb_ok (org_db s') \<and> (org_step adm L now)\<^sup>*\<^sup>* (org_db s) (org_db s'))"

interpretation org_moves: effect "org_moves adm L now" for adm L now
  by unfold_locales (auto simp: org_moves_def)

abbreviation keeps_rules :: "bool \<Rightarrow> string set \<Rightarrow> instant \<Rightarrow> 'a org_handler \<Rightarrow> bool" where
  "keeps_rules adm L now \<equiv> relates (org_moves adm L now)"

lemma org_moves_step:
  "(odb_ok (org_db s) \<Longrightarrow> org_db s' = org_db s \<or> org_step adm L now (org_db s) (org_db s')) \<Longrightarrow> org_moves adm L now s s'"
  by (auto simp: org_moves_def intro: odb_ok_step)

lemma org_reads [effect_intros]:
  "keeps_rules adm L now (org_read f)" "keeps_rules adm L now (require err x)"
  "keeps_rules adm L now (checked err' r)" "keeps_rules adm L now (audit a b c d e)"
  "keeps_rules adm L now (org_ignore (delete_sessions_for_user u))"
  by (auto simp: relates_def org_read_def require_def checked_def fail_def ret_def audit_def org_ignore_def
      delete_sessions_for_user_def org_moves.R_refl intro!: org_moves_step org_step.signed_out
      split: option.splits sum.splits)

text \<open>What follows a read, an option or a check, at a state.\<close>

lemma at_org_read [simp]: "and_then (org_read f) g s = g (f (org_db s)) s"
  by (simp add: and_then_def org_read_def)

lemma at_require: "and_then (require err x) g s = (case x of None \<Rightarrow> (Inl err, s) | Some y \<Rightarrow> g y s)"
  by (simp add: and_then_def require_def fail_def ret_def split: option.split)

lemma at_checked: "and_then (checked err r) g s = (case r of Inl e \<Rightarrow> (Inl (err e), s) | Inr x \<Rightarrow> g x s)"
  by (simp add: and_then_def checked_def fail_def ret_def split: sum.split)

lemma keeps_at: "keeps_rules adm L now h \<Longrightarrow> org_moves adm L now s (snd (h s))"
  by (simp add: relates_def)

text \<open>A write that is a step where it happens, followed by anything that keeps the rules from there.\<close>

lemma org_call_snd: "snd (org_call err f s) = s\<lparr>org_db := snd (f (org_db s))\<rparr>"
  by (simp add: org_call_def split: prod.split sum.split)

lemma moves_call:
  assumes "odb_ok (org_db s) \<Longrightarrow>
      snd (f (org_db s)) = org_db s \<or> org_step adm L now (org_db s) (snd (f (org_db s)))"
    and "\<And>x. fst (f (org_db s)) = Inr x \<Longrightarrow> odb_ok (org_db s) \<Longrightarrow>
      org_moves adm L now (s\<lparr>org_db := snd (f (org_db s))\<rparr>) (snd (g x (s\<lparr>org_db := snd (f (org_db s))\<rparr>)))"
  shows "org_moves adm L now s (snd (and_then (org_call err f) g s))"
proof (cases "odb_ok (org_db s)")
  case ok: True
  let ?s = "s\<lparr>org_db := snd (f (org_db s))\<rparr>"
  have one: "org_moves adm L now s ?s" using assms(1) by (intro org_moves_step) simp
  show ?thesis
  proof (cases "f (org_db s)")
    case (Pair r db)
    show ?thesis
    proof (cases r)
      case (Inl e)
      then show ?thesis using one Pair by (simp add: and_then_def org_call_def)
    next
      case (Inr x)
      have "org_moves adm L now ?s (snd (g x ?s))" using assms(2) [of x] ok Pair Inr by simp
      then show ?thesis using one Pair Inr org_moves.R_trans by (simp add: and_then_def org_call_def)
    qed
  qed
qed (simp add: org_moves_def)

lemma moves_call_last:
  assumes "odb_ok (org_db s) \<Longrightarrow>
      snd (f (org_db s)) = org_db s \<or> org_step adm L now (org_db s) (snd (f (org_db s)))"
  shows "org_moves adm L now s (snd (org_call err f s))"
  unfolding org_call_snd using assms by (intro org_moves_step) simp

text \<open>The undo of a removal is never reached: an administrator is left.\<close>

lemma or_restore_idle:
  assumes "odb_ok (org_db s)" and "b \<Longrightarrow> actionable_ids now (org_db s) \<noteq> {}"
  shows "or_restore b now undo s = (Inr (), s)"
  using assms count_actionable [OF assms(1), of now]
  by (simp add: or_restore_def assert_has_actionable_admin_def)

lemma moves_or_restore:
  assumes "odb_ok (org_db s) \<Longrightarrow> b \<Longrightarrow> actionable_ids now (org_db s) \<noteq> {}"
    and "\<And>x. odb_ok (org_db s) \<Longrightarrow> org_moves adm L now s (snd (g x s))"
  shows "org_moves adm L now s (snd (and_then (or_restore b now undo) g s))"
proof (cases "odb_ok (org_db s)")
  case True
  then show ?thesis using or_restore_idle [OF True, of b now undo] assms by simp
qed (simp add: org_moves_def)

text \<open>After a step that took one administrator away, another is left.\<close>

lemma actionable_ids_put:
  assumes "odb_ok db" and "rows (members db) k = Some m" and "spare_admin k now db" "k \<in> actionable_ids now db"
  shows "actionable_ids now (put_member k m' db) \<noteq> {}"
proof -
  obtain j where j: "j \<in> actionable_ids now db" "j \<noteq> k" using assms(3,4) by (auto simp: spare_admin_def)
  then have "j \<in> actionable_ids now (put_member k m' db)"
    by (auto simp: actionable_ids_def actionable_admin_def put_member_def t_update_def
        is_member_suspended_or_banned_def)
  then show ?thesis by blast
qed

lemma patched_fields [simp]:
  "mr_user_id (patched p key m) = mr_user_id m" "mr_org_role (patched p key m) = mr_org_role m"
  "mr_is_active (patched p key m) = set_if (mp_is_active p) (mr_is_active m)"
  by (simp_all add: patched_def Let_def split: option.split)

lemma update_member_cases:
  "snd (update_member mid p db) = db \<and> (\<forall>x. fst (update_member mid p db) = Inr x \<longrightarrow> p = no_patch) \<or>
   (\<exists>m key. rows (members db) mid = Some m \<and>
      update_member mid p db = (Inr (mid, patched p key m), put_member mid (patched p key m) db))"
proof (cases "case mp_display_name p of None \<Rightarrow> Some None
    | Some n \<Rightarrow> (case key_of_name db n of None \<Rightarrow> None | Some key \<Rightarrow> Some (Some key))")
  case None
  then show ?thesis by (simp only: update_member_def option.case) simp
next
  case (Some key)
  then show ?thesis
    unfolding update_member_def Some option.case by (cases "rows (members db) mid") auto
qed

text \<open>A patch that does not deactivate, and one that may.\<close>

lemma update_member_step:
  assumes "mp_is_active p \<noteq> Some False"
  shows "snd (update_member mid p db) = db \<or> org_step adm L now db (snd (update_member mid p db))"
  using update_member_cases [of mid p db]
proof (elim disjE exE conjE)
  fix m key assume m: "rows (members db) mid = Some m"
    and run: "update_member mid p db = (Inr (mid, patched p key m), put_member mid (patched p key m) db)"
  have "mr_is_active m \<longrightarrow> mr_is_active (patched p key m)"
    using assms by (auto simp: set_if_def split: option.splits)
  then show ?thesis unfolding run by (simp add: org_step.profile [OF m])
qed simp

lemma deactivate_step:
  assumes "rows (members db) mid = Some m" and "adm \<or> below_officer m" and "spare_admin mid now db"
  shows "snd (update_member mid p db) = db \<or> org_step adm L now db (snd (update_member mid p db))"
  using update_member_cases [of mid p db] assms org_step.deactivate [of db mid m] by auto

lemma actionable_after_update:
  assumes "odb_ok db" and m: "rows (members db) mid = Some m" and "actionable_admin mid m now db"
    and "spare_admin mid now db"
  shows "actionable_ids now (snd (update_member mid p db)) \<noteq> {}"
proof -
  have "mid \<in> actionable_ids now db" using m assms(3) by (simp add: actionable_ids_def)
  then show ?thesis
    using update_member_cases [of mid p db] actionable_ids_put [OF assms(1) m assms(4)] by auto
qed

lemma profile_edit_cases:
  "(\<exists>e. require_profile_edit uid caller mid s = (Inl e, s)) \<or>
   (\<exists>m. rows (members (org_db s)) mid = Some m \<and> require_profile_edit uid caller mid s = (Inr m, s))"
  by (simp add: require_profile_edit_def get_member_def at_require fail_def ret_def split: option.split)

lemma active_change_cases:
  assumes ok: "odb_ok (org_db s)" and m: "rows (members (org_db s)) mid = Some m"
  shows "(\<exists>e. active_change caller mid m wanted now s = (Inl e, s)) \<or>
   (\<exists>w d. active_change caller mid m wanted now s = (Inr (w, d), s) \<and>
      (w = Some False \<longrightarrow> (mb_role caller = Admin \<or> below_officer m) \<and> spare_admin mid now (org_db s)) \<and>
      (d \<longrightarrow> w = Some False \<and> actionable_admin mid m now (org_db s)))"
proof (cases "\<exists>b. wanted = Some b \<and> b \<noteq> mr_is_active m")
  case False
  then show ?thesis by (cases wanted) (auto simp: active_change_def ret_def)
next
  case True
  then obtain b where b: "wanted = Some b" "b \<noteq> mr_is_active m" by blast
  let ?policy = "can_set_is_active (mb_id caller) (mb_role caller) mid (mr_role m) (mr_is_active m) b
      (count_actionable_admins now (org_db s)) (actionable_admin mid m now (org_db s))"
  show ?thesis
  proof (cases ?policy)
    case (Inl e)
    then show ?thesis using b by (simp add: active_change_def at_checked)
  next
    case (Inr u)
    have run: "active_change caller mid m wanted now s =
        (Inr (Some b, \<not> b \<and> actionable_admin mid m now (org_db s)), s)"
      using Inr b by (simp add: active_change_def at_checked ret_def)
    have "mb_role caller = Admin \<or> below_officer m"
      using Inr by (cases "mb_role caller"; cases "mr_role m")
        (auto simp: can_set_is_active_def officer_may_moderate_def is_at_least_le less_eq_org_role_def split: if_splits)
    moreover have "spare_admin mid now (org_db s)" if "b = False"
    proof (rule spare_adminI [OF ok m])
      assume "actionable_admin mid m now (org_db s)"
      then show "1 < count_actionable_admins now (org_db s)"
        using Inr that by (auto simp: can_set_is_active_def actionable_admin_def split: if_splits)
    qed
    ultimately show ?thesis using run by blast
  qed
qed

lemma moves_update_member:
  assumes adm: "mb_role caller = Admin \<longrightarrow> adm"
  shows "org_moves adm L now s (snd (update_member_route uid caller mid body now s))"
proof (cases "odb_ok (org_db s)")
  case ok: True
  from profile_edit_cases [of uid caller mid s] show ?thesis
  proof (elim disjE exE conjE)
    fix e assume "require_profile_edit uid caller mid s = (Inl e, s)"
    then show ?thesis by (simp add: update_member_route_def org_moves.R_refl)
  next
    fix m assume m: "rows (members (org_db s)) mid = Some m"
      and edit: "require_profile_edit uid caller mid s = (Inr m, s)"
    from active_change_cases [OF ok m, of caller "mp_is_active body" now] show ?thesis
    proof (elim disjE exE conjE)
      fix e assume "active_change caller mid m (mp_is_active body) now s = (Inl e, s)"
      then show ?thesis using edit by (simp add: update_member_route_def fail_def org_moves.R_refl)
    next
      fix w d assume act: "active_change caller mid m (mp_is_active body) now s = (Inr (w, d), s)"
        and w: "w = Some False \<longrightarrow> (mb_role caller = Admin \<or> below_officer m) \<and> spare_admin mid now (org_db s)"
        and d: "d \<longrightarrow> w = Some False \<and> actionable_admin mid m now (org_db s)"
      have wr: "org_moves adm L now s (snd (and_then (org_call member_write_error (update_member mid p)) (\<lambda>(_, updated).
          and_then (or_restore d now (update_member mid (activate_patch True))) (\<lambda>_. rest updated)) s))"
        if p: "mp_is_active p = w" and rest: "\<And>x. keeps_rules adm L now (rest x)" for p rest
      proof (rule moves_call)
        show "snd (update_member mid p (org_db s)) = org_db s \<or>
            org_step adm L now (org_db s) (snd (update_member mid p (org_db s)))"
        proof (cases "w = Some False")
          case True
          then show ?thesis using deactivate_step [OF m] w adm by blast
        next
          case False
          then show ?thesis using update_member_step p by blast
        qed
      next
        fix x
        let ?s = "s\<lparr>org_db := snd (update_member mid p (org_db s))\<rparr>"
        have "actionable_ids now (org_db ?s) \<noteq> {}" if d
          using actionable_after_update [OF ok m] d w that by simp
        then have "org_moves adm L now ?s
            (snd (and_then (or_restore d now (update_member mid (activate_patch True))) (\<lambda>_. rest (snd x)) ?s))"
          by (intro moves_or_restore keeps_at rest)
        then show "org_moves adm L now ?s (snd ((case x of (_, updated) \<Rightarrow>
            and_then (or_restore d now (update_member mid (activate_patch True))) (\<lambda>_. rest updated)) ?s))"
          by (simp add: case_prod_beta')
      qed
      show ?thesis
        using edit act
        by (auto simp: update_member_route_def at_checked fail_def org_moves.R_refl split: sum.split
            intro!: wr effect_intros)
    qed
  qed
qed (simp add: org_moves_def)

text \<open>Changing a role.\<close>

lemma role_cas_step:
  assumes m: "rows (members db) mid = Some m" and "adm \<or> (below_officer m \<and> \<not> Officer \<le> r)"
    and "r = Admin \<or> spare_admin mid now db"
  shows "snd (change_member_role_cas mid expected r db) = db \<or>
      org_step adm L now db (snd (change_member_role_cas mid expected r db))"
    and "snd (change_member_role mid r db) = db \<or> org_step adm L now db (snd (change_member_role mid r db))"
  using org_step.role [OF assms, of L] m
  by (auto simp: change_member_role_cas_def change_member_role_def Let_def)

lemma moves_change_role:
  assumes adm: "adm"
  shows "org_moves adm L now s (snd (change_role admin mid role now s))"
proof (cases "odb_ok (org_db s)")
  case ok: True
  let ?db = "org_db s"
  show ?thesis
  proof (cases "rows (members ?db) mid")
    case None
    then show ?thesis by (simp add: change_role_def get_member_def at_require org_moves.R_refl)
  next
    case (Some m)
    let ?act = "actionable_admin mid m now ?db"
    let ?policy = "can_change_role (mb_id admin) mid (mr_role m) (mr_is_active m) role
        (count_actionable_admins now ?db) ?act"
    show ?thesis
    proof (cases ?policy)
      case (Inl e)
      then show ?thesis using Some by (simp add: change_role_def get_member_def at_require at_checked org_moves.R_refl)
    next
      case (Inr u)
      have guard: "?act \<and> role \<noteq> Admin \<longrightarrow> 1 < count_actionable_admins now ?db"
        using Inr by (auto simp: can_change_role_def actionable_admin_def split: if_splits)
      have spare: "role = Admin \<or> spare_admin mid now ?db"
        using guard spare_adminI [OF ok Some, of now] by blast
      let ?cas = "change_member_role_cas mid (mr_role m) role"
      let ?s = "s\<lparr>org_db := snd (?cas ?db)\<rparr>"
      have left: "actionable_ids now (org_db ?s) \<noteq> {}" if "?act \<and> role \<noteq> Admin"
      proof -
        have "mid \<in> actionable_ids now ?db" using that Some by (simp add: actionable_ids_def)
        moreover from this have "snd (?cas ?db) = ?db \<or> (\<exists>m'. snd (?cas ?db) = put_member mid m' ?db)"
          by (auto simp: change_member_role_cas_def Let_def Some)
        ultimately show ?thesis using actionable_ids_put [OF ok Some, of now] spare that by auto
      qed
      have "org_moves adm L now s (snd (and_then (org_call role_write_error ?cas) (\<lambda>updated.
          and_then (or_restore (?act \<and> role \<noteq> Admin) now (change_member_role_cas mid role (mr_role m))) (\<lambda>_.
          and_then (audit (mb_id admin) ChangedRole TargetMember mid
            (Some (role_to_string (mr_role m) @ arrow @ role_to_string role))) (\<lambda>_. ret updated))) s))"
        using adm by (intro moves_call role_cas_step [OF Some] spare moves_or_restore left keeps_at effect_intros) simp_all
      then show ?thesis using Some Inr by (simp add: change_role_def get_member_def at_require at_checked)
    qed
  qed
qed (simp add: org_moves_def)

end
