(* ===== verification/MembershipSteps.thy ===== *)
theory MembershipSteps
  imports MembershipRules
begin

text \<open>
  The moderation and application routes keep the rules of \<open>MembershipRules\<close>, and so does every request.
\<close>

lemma moves_refl [simp]: "org_moves adm L now s s"
  by (rule org_moves.R_refl)

lemma spare_inactive:
  "rows (members db) k = Some m \<Longrightarrow> \<not> mr_is_active m \<or> mr_role m \<noteq> Admin \<Longrightarrow> spare_admin k now db"
  by (auto simp: spare_admin_def actionable_ids_def actionable_admin_def)

subsection \<open>Moderation\<close>

lemma activate_patched [simp]:
  "mp_is_active (activate_patch b) = Some b" "set_if (Some x) y = x" "activate_patch b \<noteq> no_patch"
  by (simp_all add: activate_patch_def no_patch_def set_if_def)

lemma update_active:
  "rows (members db) mid = Some m \<Longrightarrow>
    update_member mid (activate_patch b) db =
      (Inr (mid, patched (activate_patch b) None m), put_member mid (patched (activate_patch b) None m) db)"
  using activate_patched(3) [of b] by (simp add: update_member_def, simp add: activate_patch_def no_patch_def)

text \<open>A ban leaves the member's row in place, not active.\<close>

lemma deactivate_on_ban_run:
  assumes ok: "odb_ok (org_db s)" and m: "rows (members (org_db s)) mid = Some m"
    and spare: "action = Ban \<Longrightarrow> spare_admin mid now (org_db s)"
    and acts: "actionable = actionable_admin mid m now (org_db s)" and may: "adm \<or> below_officer m"
  shows "\<exists>s' m'. deactivate_on_ban officer mid m action actionable now s = (Inr (), s') \<and>
     org_moves adm L now s s' \<and> rows (members (org_db s')) mid = Some m' \<and> mr_org_role m' = mr_org_role m \<and>
     (action = Ban \<longrightarrow> spare_admin mid now (org_db s')) \<and> (action \<noteq> Ban \<longrightarrow> s' = s)"
proof (cases "action = Ban \<and> mr_is_active m")
  case False
  then show ?thesis using m spare_inactive [OF m, of now]
    by (intro exI [of _ s] exI [of _ m]) (auto simp: deactivate_on_ban_def ret_def)
next
  case True
  let ?m = "patched (activate_patch False) None m"
  let ?s = "s\<lparr>org_db := put_member mid ?m (org_db s)\<rparr>"
  have step: "org_step adm L now (org_db s) (org_db ?s)"
    using org_step.deactivate [OF m, of ?m adm now L] may spare True by simp
  then have ok': "odb_ok (org_db ?s)" using odb_ok_step ok by blast
  have left: "actionable_ids now (org_db ?s) \<noteq> {}" if actionable
    using actionable_ids_put [OF ok m] spare True that m by (simp add: acts actionable_ids_def)
  have m': "rows (members (org_db ?s)) mid = Some ?m" by (simp add: put_member_def t_update_def)
  have "deactivate_on_ban officer mid m action actionable now s =
      audit (mb_id officer) DeactivatedMember TargetMember mid (Some ''Deactivated by ban'') ?s"
    using True or_restore_idle [of ?s actionable now "update_member mid (activate_patch True)", OF ok' left]
    by (simp add: deactivate_on_ban_def and_then_def org_call_def update_active [OF m])
  then show ?thesis
    using spare_inactive [OF m', of now] m' True step
    by (auto simp: audit_def intro!: org_moves_step)
qed

lemma moderated_step:
  assumes "rows (members db) mid = Some m" and "adm \<or> below_officer m"
    and "action \<in> {Suspension, Ban} \<Longrightarrow> spare_admin mid now db"
  shows "org_step adm L now db (snd (create_moderation_action mid action reason by expires now db))"
proof -
  let ?act = "\<lparr>mo_member_id = mid, mo_action_type = moderation_type_to_string action, mo_reason = reason,
            mo_issued_by = by, mo_expires_at = expires, mo_is_active = True, mo_created_at = now\<rparr>"
  have "blocks now ?act \<Longrightarrow> action \<in> {Suspension, Ban}"
    by (cases action) (simp_all add: blocks_def)
  then show ?thesis
    using org_step.moderated [of db ?act m adm now L] assms
    by (auto simp: create_moderation_action_def Let_def)
qed

lemma actionable_after_moderation:
  assumes ok: "odb_ok db" and "k \<in> actionable_ids now db" and "k \<noteq> mid"
  shows "k \<in> actionable_ids now (snd (create_moderation_action mid action reason by expires now db))"
proof -
  have "table_ok (moderation db)" "rows (moderation db) (given_id db) = None"
    using ok given_fresh [OF ok] by (simp_all add: odb_ok_def)
  then show ?thesis using assms(2,3)
    by (auto simp: actionable_ids_def actionable_admin_def create_moderation_action_def Let_def
        is_member_suspended_or_banned_def t_list_create)
qed

lemma moderate_role:
  "can_moderate actor target aid tid = Inr () \<Longrightarrow> actor = Admin \<or> \<not> Officer \<le> target"
  by (cases actor; cases target) (simp_all add: can_moderate_def officer_may_moderate_def less_eq_org_role_def
      split: if_splits)

lemma moves_create_moderation:
  assumes adm: "mb_role officer = Admin \<longrightarrow> adm"
  shows "org_moves adm L now s (snd (create_moderation_route officer body now s))"
proof (cases "odb_ok (org_db s) \<and> trim (mq_reason body) \<noteq> []")
  case False
  then show ?thesis by (auto simp: org_moves_def create_moderation_route_def fail_def)
next
  case True
  then have ok: "odb_ok (org_db s)" and reason: "trim (mq_reason body) \<noteq> []" by auto
  let ?db = "org_db s" and ?mid = "mq_member_id body" and ?action = "mq_action_type body"
  show ?thesis
  proof (cases "rows (members ?db) ?mid")
    case None
    then show ?thesis using reason by (simp add: create_moderation_route_def Let_def get_member_def at_require)
  next
    case (Some m)
    let ?act = "actionable_admin ?mid m now ?db"
    let ?may = "can_moderate (mb_role officer) (mr_role m) (mb_id officer) ?mid"
    let ?last = "can_suspend_or_ban_admin (mr_role m) (mr_is_active m) ?action (count_actionable_admins now ?db) ?act"
    consider (denied) e where "?may = Inl e \<or> ?last = Inl e" | (granted) "?may = Inr ()" "?last = Inr ()"
      by (cases ?may; cases ?last) auto
    then show ?thesis
    proof cases
      case denied
      then show ?thesis using Some reason
        by (auto simp: create_moderation_route_def Let_def get_member_def at_require at_checked split: sum.split)
    next
      case granted
      have may: "adm \<or> below_officer m" using moderate_role [OF granted(1)] adm by blast
      have spare: "spare_admin ?mid now ?db" if "?action \<in> {Suspension, Ban}"
      proof (rule spare_adminI [OF ok Some])
        show "?act \<Longrightarrow> 1 < count_actionable_admins now ?db"
          using granted(2) that
          by (auto simp: can_suspend_or_ban_admin_def actionable_admin_def moderation_revokes_sessions_def split: if_splits)
      qed
      obtain s' m' where ban: "deactivate_on_ban officer ?mid m ?action ?act now s = (Inr (), s')"
        and moved: "org_moves adm L now s s'" and m': "rows (members (org_db s')) ?mid = Some m'"
        and same: "mr_org_role m' = mr_org_role m"
        and after: "?action = Ban \<longrightarrow> spare_admin ?mid now (org_db s')" "?action \<noteq> Ban \<longrightarrow> s' = s"
        using deactivate_on_ban_run [OF ok Some, of ?action now ?act adm officer L] spare may by auto
      have ok': "odb_ok (org_db s')" using moved ok by (simp add: org_moves_def)
      have spare': "spare_admin ?mid now (org_db s')" if "?action \<in> {Suspension, Ban}"
        using that after spare by (cases "?action = Ban") auto
      have "org_moves adm L now s' (snd (and_then (org_call server_error (create_moderation_action ?mid ?action
          (trim (mq_reason body)) (mb_id officer) (mq_expires_at body) now)) (\<lambda>(aid, a).
        and_then (or_restore (?action = Suspension \<and> ?act) now (lift_moderation_action aid)) (\<lambda>_.
        and_then (if moderation_revokes_sessions ?action
            then org_ignore (delete_sessions_for_user (mr_user_id m)) else ret ()) (\<lambda>_.
        and_then (audit (mb_id officer) CreatedModerationAction TargetModeration aid
            (Some (moderation_type_to_string ?action @ '' on member '' @ ?mid @ '': '' @ mq_reason body))) (\<lambda>_.
          ret (aid, a))))) s'))" (is "org_moves adm L now s' (snd (and_then (org_call _ ?f) ?g s'))")
      proof (rule moves_call)
        show "snd (?f (org_db s')) = org_db s' \<or> org_step adm L now (org_db s') (snd (?f (org_db s')))"
          using moderated_step [OF m', of adm ?action now L] may spare' same by auto
      next
        fix x :: "string \<times> moderation_row"
        let ?s = "s'\<lparr>org_db := snd (?f (org_db s'))\<rparr>"
        have left: "actionable_ids now (org_db ?s) \<noteq> {}" if sus: "?action = Suspension \<and> ?act"
        proof -
          have "s' = s" using after(2) sus by simp
          moreover obtain j where "j \<in> actionable_ids now ?db" "j \<noteq> ?mid"
            using spare sus Some by (auto simp: spare_admin_def actionable_ids_def)
          ultimately have "j \<in> actionable_ids now (org_db ?s)" using actionable_after_moderation [OF ok] by simp
          then show ?thesis by blast
        qed
        obtain i a where x: "x = (i, a)" by (cases x)
        show "org_moves adm L now ?s (snd (?g x ?s))"
          unfolding x prod.case by (intro moves_or_restore left keeps_at effect_intros) auto
      qed
      then show ?thesis
        using Some reason granted ban org_moves.R_trans [OF moved]
        by (simp add: create_moderation_route_def Let_def get_member_def at_require at_checked)
    qed
  qed
qed

lemma moves_lift_moderation:
  assumes "adm" and "aid \<in> L"
  shows "org_moves adm L now s (snd (lift_moderation_route admin aid s))"
  unfolding lift_moderation_route_def
proof (rule moves_call)
  show "snd (lift_moderation_action aid (org_db s)) = org_db s \<or>
      org_step adm L now (org_db s) (snd (lift_moderation_action aid (org_db s)))"
    using org_step.lifted [OF _ assms] by (simp add: lift_moderation_action_def Let_def split: option.split)
qed (auto intro!: keeps_at effect_intros split: prod.split)

subsection \<open>Applications\<close>

text \<open>Operations that leave the state alone.\<close>

interpretation unchanged: effect "\<lambda>s s'. s' = s"
  by unfold_locales auto

abbreviation reads_only :: "('s, 'e, 'a) op \<Rightarrow> bool" where
  "reads_only \<equiv> relates (\<lambda>s s'. s' = s)"

lemma reads_only_intros [effect_intros]:
  "reads_only (org_read f)" "reads_only (require err x)" "reads_only (application_recruitment_gate b)"
  by (auto simp: relates_def org_read_def require_def fail_def ret_def application_recruitment_gate_def
      split: option.splits)

lemma moves_after_read:
  assumes "reads_only h" and "\<And>x. fst (h s) = Inr x \<Longrightarrow> org_moves adm L now s (snd (g x s))"
  shows "org_moves adm L now s (snd (and_then h g s))"
proof -
  have "snd (h s) = s" using assms(1) by (simp add: relates_def)
  then show ?thesis using assms(2) by (auto simp: and_then_def split: prod.splits sum.splits)
qed

lemma refuse_current_member_reads: "reads_only (refuse_current_member uid now)"
  unfolding refuse_current_member_def by (auto intro!: effect_intros split: option.split prod.split)

lemma open_after_submit:
  assumes ok: "odb_ok db" and run: "submit_application uid games roles message now db = (Inr (aid, a), db')"
  shows "count_open_applications uid db' = Suc (count_open_applications uid db)"
    and "db'\<lparr>applications := t_delete aid (applications db')\<rparr> = db\<lparr>ids_given := ids_given db + 1\<rparr>"
    and "ap_user_id a = uid" "db' = db\<lparr>ids_given := ids_given db + 1, applications := t_create (given_id db) a (applications db)\<rparr>"
proof -
  have t: "table_ok (applications db)" "rows (applications db) (given_id db) = None"
    using ok given_fresh [OF ok] by (simp_all add: odb_ok_def)
  then have "given_id db \<notin> set (scan (applications db))" by (auto simp: table_ok_def)
  then have "t_delete (given_id db) (t_create (given_id db) r (applications db)) = applications db" for r
    using t(2) by (simp add: t_delete_def t_create_def fun_upd_idem)
  then show "count_open_applications uid db' = Suc (count_open_applications uid db)"
    "db'\<lparr>applications := t_delete aid (applications db')\<rparr> = db\<lparr>ids_given := ids_given db + 1\<rparr>"
    "ap_user_id a = uid" "db' = db\<lparr>ids_given := ids_given db + 1, applications := t_create (given_id db) a (applications db)\<rparr>"
    using run t by (auto simp: submit_application_def Let_def count_open_applications_def t_list_create)
qed

text \<open>The creation and the count of open applications that may take it back.\<close>

lemma submit_tail:
  fixes body :: submit_request and uid :: string and now :: instant
  defines "f \<equiv> submit_application uid (sq_preferred_games body) (sq_preferred_roles body) (sq_message body) now"
  shows "org_moves adm L now s (snd (and_then (org_call server_error f) (\<lambda>(aid, a).
     and_then (org_read (count_open_applications uid)) (\<lambda>n.
       if 1 < n
       then and_then (org_ignore (delete_application aid)) (\<lambda>_.
              fail (Status 409 ''You already have an open application''))
       else ret (aid, a))) s))" (is "org_moves _ _ _ _ (snd (?h s))")
proof (rule org_moves_step)
  obtain aid a db' where run: "f (org_db s) = (Inr (aid, a), db')"
    unfolding f_def by (auto simp: submit_application_def Let_def)
  assume ok: "odb_ok (org_db s)"
  note facts = open_after_submit [OF ok run [unfolded f_def]]
  show "org_db (snd (?h s)) = org_db s \<or> org_step adm L now (org_db s) (org_db (snd (?h s)))"
  proof (cases "count_open_applications uid (org_db s) = 0")
    case True
    then have "snd (?h s) = s\<lparr>org_db := db'\<rparr>"
      using facts(1) run by (simp add: and_then_def org_call_def org_read_def ret_def)
    then show ?thesis using org_step.applied [of a "org_db s" adm L now] True facts(3,4) by simp
  next
    case False
    then have "org_db (snd (?h s)) = db'\<lparr>applications := t_delete aid (applications db')\<rparr>"
      using facts(1) run
      by (simp add: and_then_def org_call_def org_read_def org_ignore_def delete_application_def fail_def)
    then show ?thesis using facts(2) org_step.id_spent [of adm L now "org_db s"] by simp
  qed
qed

lemma moves_submit_application: "org_moves adm L now s (snd (submit_application_route uid body now s))"
proof -
  have reads: "reads_only (case existing of None \<Rightarrow> ret () | Some (_, a) \<Rightarrow> if application_blocks_resubmit (ap_status_of a)
           then fail (Status 409 (''You already have an open application ('' @
                  application_status_to_string (ap_status_of a) @ '')''))
           else ret ())" for existing :: "(string \<times> application_row) option"
    by (auto intro!: effect_intros split: option.split)
  show ?thesis
    unfolding submit_application_route_def
    by (rule moves_after_read [OF reads_only_intros(1)], rule moves_after_read [OF reads_only_intros(3)],
        rule moves_after_read [OF refuse_current_member_reads], rule moves_after_read [OF reads_only_intros(1)],
        rule moves_after_read [OF reads], rule submit_tail)
qed

text \<open>A membership for the applicant.\<close>

lemma get_member_by_user_SomeD:
  assumes "odb_ok db" and "get_member_by_user uid db = Some (mid, m)"
  shows "rows (members db) mid = Some m" "mr_user_id m = uid"
proof -
  have "(mid, m) \<in> set (t_list (\<lambda>m. mr_user_id m = uid) (members db))"
    using assms(2) by (auto simp: get_member_by_user_def split: list.splits)
  then show "rows (members db) mid = Some m" "mr_user_id m = uid"
    using assms(1) by (auto simp: set_t_list odb_ok_def)
qed

definition has_membership :: "string \<Rightarrow> odb \<Rightarrow> bool" where
  "has_membership uid db \<longleftrightarrow> (\<exists>k m. rows (members db) k = Some m \<and> mr_user_id m = uid \<and> mr_is_active m)"

lemma create_member_step:
  assumes ok: "odb_ok db" and run: "create_member uid name role now db = (Inr x, db')"
    and role: "\<not> Officer \<le> role"
  shows "org_step adm L now db db'" "has_membership uid db'" "applications db' = applications db"
proof -
  obtain row where db': "db' = db\<lparr>ids_given := ids_given db + 1, members := t_create (given_id db) row (members db)\<rparr>"
    and row: "mr_user_id row = uid" "mr_is_active row" "mr_org_role row = role_to_string role"
    and free: "t_list (\<lambda>m. mr_user_id m = uid \<or> (mr_nostr_pubkey row \<noteq> None \<and> mr_nostr_pubkey m = mr_nostr_pubkey row))
       (members db) = []"
    using run by (auto simp: create_member_def index_taken_def Let_def split: option.splits if_splits)
  have "mr_user_id m \<noteq> uid" if "rows (members db) k = Some m" for k m
    using free that set_t_list [of "members db"] ok unfolding odb_ok_def
    by (metis (mono_tags, lifting) case_prodI mem_Collect_eq empty_iff list.set(1))
  then show "org_step adm L now db db'"
    unfolding db' using row role by (intro org_step.joined) auto
  show "has_membership uid db'" "applications db' = applications db"
    using row by (auto simp: db' has_membership_def t_create_def)
qed

text \<open>One write to the applicant's row: the state moves, the row stays hers and active.\<close>

definition held :: "string \<Rightarrow> string \<Rightarrow> membership_row \<Rightarrow> odb \<Rightarrow> bool" where
  "held uid mid m db \<longleftrightarrow> rows (members db) mid = Some m \<and> mr_user_id m = uid \<and> mr_is_active m"

lemma reactivated:
  assumes "rows (members (org_db s)) mid = Some m" and "mr_user_id m = uid"
  shows "\<exists>m' s'. (if \<not> mr_is_active m then org_call server_error (update_member mid (activate_patch True))
            else ret (mid, m)) s = (Inr (mid, m'), s') \<and> held uid mid m' (org_db s') \<and>
          org_moves adm L now s s' \<and> applications (org_db s') = applications (org_db s)"
proof (cases "mr_is_active m")
  case False
  then show ?thesis
    using assms org_step.profile [OF assms(1), of "patched (activate_patch True) None m" adm L now]
    by (auto simp: org_call_def update_active [OF assms(1)] held_def put_member_def t_update_def
        intro!: org_moves_step)
qed (use assms in \<open>auto simp: ret_def held_def\<close>)

lemma promoted:
  assumes "held uid mid m (org_db s)" and "\<not> is_at_least (mr_role m) Officer" and "\<not> Officer \<le> role"
  shows "\<exists>m' s'. org_call server_error (change_member_role mid role) s = (Inr (mid, m'), s') \<and>
          held uid mid m' (org_db s') \<and> org_moves adm L now s s' \<and> applications (org_db s') = applications (org_db s)"
proof -
  have m: "rows (members (org_db s)) mid = Some m" and low: "below_officer m"
    using assms by (auto simp: held_def is_at_least_le)
  then have "spare_admin mid now (org_db s)"
    by (intro spare_inactive [OF m]) (auto simp: less_eq_org_role_def parse_role_def)
  then show ?thesis
    using org_step.role [OF m, of adm role now L] assms(1,3) low
    by (auto simp: org_call_def change_member_role_def m Let_def held_def put_member_def t_update_def
        intro!: org_moves_step)
qed

lemma held_membership: "held uid mid m db \<Longrightarrow> has_membership uid db"
  by (auto simp: held_def has_membership_def)

definition ensures :: "bool \<Rightarrow> string set \<Rightarrow> instant \<Rightarrow> string \<Rightarrow> org \<Rightarrow> http_error + 'a \<Rightarrow> org \<Rightarrow> bool" where
  "ensures adm L now uid s r s' \<longleftrightarrow> org_moves adm L now s s' \<and>
     applications (org_db s') = applications (org_db s) \<and> (\<forall>x. r = Inr x \<longrightarrow> has_membership uid (org_db s'))"

lemma accepted_role_low: "\<not> Officer \<le> (if to = Accepted then role_on_application_accept old else Recruit)"
  by (cases old) (simp_all add: less_eq_org_role_def)

lemma ensure_existing:
  assumes ok: "odb_ok (org_db s)" and "rows (members (org_db s)) mid = Some m" "mr_user_id m = uid"
    and low: "\<not> Officer \<le> desired"
  shows "\<exists>r s'. and_then (if \<not> mr_is_active m
        then org_call server_error (update_member mid (activate_patch True)) else ret (mid, m)) (\<lambda>(_, current).
      if to = Accepted \<and> mr_role current \<noteq> desired
      then (if is_at_least (mr_role current) Officer then ret (mid, current)
            else org_call server_error (change_member_role mid desired))
      else ret (mid, current)) s = (r, s') \<and> ensures adm L now uid s r s'"
proof -
  obtain m' s1 where run: "(if \<not> mr_is_active m then org_call server_error (update_member mid (activate_patch True))
            else ret (mid, m)) s = (Inr (mid, m'), s1)"
    and held: "held uid mid m' (org_db s1)" and moved: "org_moves adm L now s s1"
    and apps: "applications (org_db s1) = applications (org_db s)"
    using reactivated [OF assms(2,3), of adm L now] by blast
  have here: "ensures adm L now uid s (Inr y :: http_error + string \<times> membership_row) s1" for y
    using held moved apps by (simp add: ensures_def held_membership)
  show ?thesis
  proof (cases "to = Accepted \<and> mr_role m' \<noteq> desired \<and> \<not> is_at_least (mr_role m') Officer")
    case False
    then show ?thesis using here unfolding and_then_def run by (auto simp: ret_def)
  next
    case True
    then obtain m'' s2 where "org_call server_error (change_member_role mid desired) s1 = (Inr (mid, m''), s2)"
      "held uid mid m'' (org_db s2)" "org_moves adm L now s1 s2" "applications (org_db s2) = applications (org_db s1)"
      using promoted [OF held _ low] by blast
    then show ?thesis using True apps org_moves.R_trans [OF moved] unfolding and_then_def run
      by (auto simp: ensures_def held_membership)
  qed
qed

lemma ensured:
  assumes ok: "odb_ok (org_db s)" and run: "ensure_member_for_application uid old to now s = (r, s')"
  shows "ensures adm L now uid s r s'"
proof -
  let ?desired = "if to = Accepted then role_on_application_accept old else Recruit"
  have failed: "ensures adm L now uid s (Inl e) s" for e :: http_error
    by (simp add: ensures_def)
  show ?thesis
  proof (cases "get_member_by_user uid (org_db s)")
    case None
    have "ensures adm L now uid s r s'" if "org_call member_write_error (create_member uid name ?desired now) s = (r, s')" for name
    proof (cases "create_member uid name ?desired now (org_db s)")
      case (Pair res db')
      show ?thesis
      proof (cases res)
        case (Inl e)
        then have "db' = org_db s" using Pair by (auto simp: create_member_def Let_def split: option.splits if_splits)
        then show ?thesis using that Pair Inl failed by (auto simp: org_call_def)
      next
        case (Inr x)
        note made = create_member_step [OF ok Pair [unfolded Inr] accepted_role_low]
        show ?thesis using that Pair Inr made by (auto simp: org_call_def ensures_def intro!: org_moves_step)
      qed
    qed
    then show ?thesis using run None failed
      by (auto simp: ensure_member_for_application_def Let_def at_require split: option.splits)
  next
    case (Some found)
    obtain mid m where found: "found = (mid, m)" by (cases found)
    note row = get_member_by_user_SomeD [OF ok Some [unfolded found]]
    show ?thesis
      using run failed ensure_existing [OF ok row accepted_role_low, of to to old adm L now]
      by (auto simp: ensure_member_for_application_def Let_def Some found fail_def split: if_splits)
  qed
qed

lemma recruit_deactivated: "keeps_rules adm L now (deactivate_recruit uid actor)"
  unfolding relates_def
proof
  fix s
  show "org_moves adm L now s (snd (deactivate_recruit uid actor s))"
  proof (cases "odb_ok (org_db s)")
    case ok: True
    show ?thesis
    proof (cases "get_member_by_user uid (org_db s)")
      case None
      then show ?thesis by (simp add: deactivate_recruit_def ret_def)
    next
      case (Some found)
      obtain mid m where found: "found = (mid, m)" by (cases found)
      note row = get_member_by_user_SomeD [OF ok Some [unfolded found]]
      have "org_moves adm L now s (snd (and_then (org_call server_error (update_member mid (activate_patch False))) (\<lambda>_.
             and_then (org_ignore (delete_sessions_for_user uid)) (\<lambda>_.
               audit actor DeactivatedMember TargetMember mid
                 (Some ''Deactivated after application rejected/withdrawn''))) s))" if "mr_role m = Recruit"
        using that
        by (intro moves_call deactivate_step [OF row(1)] spare_inactive [OF row(1)] keeps_at effect_intros)
          (auto simp: less_eq_org_role_def)
      then show ?thesis by (simp add: deactivate_recruit_def Some found ret_def)
    qed
  qed (simp add: org_moves_def)
qed

text \<open>A change of status, once the membership that it needs is there.\<close>

lemma application_status_step:
  assumes app: "rows (applications db) aid = Some app" and user: "ap_user_id app = uid"
    and valid: "is_valid_application_transition expected status"
    and member: "application_status_ensures_member status \<Longrightarrow> has_membership uid db"
  shows "snd (update_application_status aid expected status by notes now db) = db \<or>
    org_step adm L now db (snd (update_application_status aid expected status by notes now db))"
proof (cases "ap_status app = application_status_to_string expected")
  case True
  then show ?thesis
    using org_step.reviewed [OF app _ True _ valid, of _ adm L now] member user
    by (auto simp: update_application_status_def app Let_def has_membership_def)
qed (simp add: update_application_status_def app)

lemma moves_transition:
  assumes app: "rows (applications (org_db s)) aid = Some existing"
    and valid: "is_valid_application_transition (ap_status_of existing) to"
  shows "org_moves adm L now s (snd (apply_application_transition aid existing to actor notes now s))"
proof (cases "odb_ok (org_db s)")
  case ok: True
  let ?ensure = "if application_status_ensures_member to
         then and_then (ensure_member_for_application (ap_user_id existing) (ap_status_of existing) to now)
                (\<lambda>_. ret ()) else ret ()"
  obtain r s1 where run: "?ensure s = (r, s1)" by (cases "?ensure s")
  have here: "org_moves adm L now s s1 \<and> applications (org_db s1) = applications (org_db s) \<and>
      (\<forall>x. r = Inr x \<longrightarrow> application_status_ensures_member to \<longrightarrow> has_membership (ap_user_id existing) (org_db s1))"
  proof (cases "application_status_ensures_member to")
    case True
    obtain r' s' where e: "ensure_member_for_application (ap_user_id existing) (ap_status_of existing) to now s = (r', s')"
      by (cases "ensure_member_for_application (ap_user_id existing) (ap_status_of existing) to now s")
    then show ?thesis using run True ensured [OF ok e, of adm L]
      by (cases r') (auto simp: and_then_def ret_def ensures_def)
  qed (use run in \<open>auto simp: ret_def\<close>)
  then have app1: "rows (applications (org_db s1)) aid = Some existing" using app by simp
  show ?thesis
  proof (cases r)
    case (Inl e)
    then show ?thesis using here run by (simp add: apply_application_transition_def and_then_def)
  next
    case (Inr x)
    have "org_moves adm L now s1 (snd (and_then (org_call status_write_error
         (update_application_status aid (ap_status_of existing) to actor notes now)) (\<lambda>app.
       and_then (if application_status_deactivates_member to
         then deactivate_recruit (ap_user_id existing) actor else ret ()) (\<lambda>_.
       and_then (audit actor (application_action to) TargetApplication aid
         (Some (application_status_to_string (ap_status_of existing) @ arrow @ application_status_to_string to))) (\<lambda>_.
       ret app))) s1))"
      using here Inr
      by (intro moves_call application_status_step [OF app1 refl valid] keeps_at effect_intros recruit_deactivated) auto
    moreover have "apply_application_transition aid existing to actor notes now s =
        and_then (org_call status_write_error
         (update_application_status aid (ap_status_of existing) to actor notes now)) (\<lambda>app.
       and_then (if application_status_deactivates_member to
         then deactivate_recruit (ap_user_id existing) actor else ret ()) (\<lambda>_.
       and_then (audit actor (application_action to) TargetApplication aid
         (Some (application_status_to_string (ap_status_of existing) @ arrow @ application_status_to_string to))) (\<lambda>_.
       ret app))) s1"
      unfolding apply_application_transition_def by (subst and_then_def) (simp only: run Inr prod.case sum.case)
    ultimately have "org_moves adm L now s1 (snd (apply_application_transition aid existing to actor notes now s))"
      by (simp only:)
    then show ?thesis using here org_moves.R_trans by blast
  qed
qed (simp add: org_moves_def)

lemma get_application_by_user_SomeD:
  assumes "odb_ok db" and "get_application_by_user uid db = Some (aid, a)"
  shows "rows (applications db) aid = Some a" "ap_user_id a = uid"
proof -
  let ?l = "t_list (\<lambda>a. ap_user_id a = uid) (applications db)"
  have "\<exists>rest. sort_key (\<lambda>(_, a). - ap_created_at a) ?l = (aid, a) # rest"
    using assms(2) by (auto simp: get_application_by_user_def split: list.splits)
  then have "(aid, a) \<in> set ?l" by (metis list.set_intros(1) set_sort)
  then show "rows (applications db) aid = Some a" "ap_user_id a = uid"
    using assms(1) by (auto simp: set_t_list odb_ok_def)
qed

lemma moves_withdraw: "org_moves adm L now s (snd (withdraw_my_application uid now s))"
proof (cases "odb_ok (org_db s)")
  case ok: True
  show ?thesis
  proof (cases "get_application_by_user uid (org_db s)")
    case None
    then show ?thesis by (simp add: withdraw_my_application_def at_require)
  next
    case (Some found)
    obtain aid a where found: "found = (aid, a)" by (cases found)
    note row = get_application_by_user_SomeD(1) [OF ok Some [unfolded found]]
    show ?thesis
    proof (cases "applicant_may_self_withdraw (ap_status_of a)")
      case True
      then have valid: "is_valid_application_transition (ap_status_of a) Withdrawn"
        by (auto simp: applicant_may_self_withdraw_def)
      show ?thesis using moves_transition [OF row valid] True
        by (simp add: withdraw_my_application_def at_require Some found)
    qed (simp add: withdraw_my_application_def at_require Some found fail_def)
  qed
qed (simp add: org_moves_def)

lemma moves_update_application: "org_moves adm L now s (snd (update_application_route officer aid status notes now s))"
  using moves_transition [of s aid _ status adm L now]
  by (auto simp: update_application_route_def at_require get_application_def fail_def split: option.split)

subsection \<open>Every request\<close>

lemma snd_answer: "snd (answer f h s) = snd (h s)"
  by (simp add: answer_def and_then_def ret_def split: prod.split sum.split)

lemma moves_entering:
  "(\<And>x. gate = Inr x \<Longrightarrow> org_moves adm L now s (snd (h x s))) \<Longrightarrow> org_moves adm L now s (snd (entering gate h s))"
  by (auto simp: entering_def fail_def split: sum.split)

definition by_admin :: "http_error + string \<Rightarrow> instant \<Rightarrow> org \<Rightarrow> bool" where
  "by_admin who now s \<longleftrightarrow> (case admin_user (caller_of who now s) of Inl _ \<Rightarrow> False | Inr _ \<Rightarrow> True)"

fun liftable :: "org_request \<Rightarrow> string set" where
  "liftable (LiftModeration aid) = {aid}"
| "liftable _ = {}"

lemma admin_entered:
  "admin_user (caller_of who now s) = Inr m \<Longrightarrow> by_admin who now s"
  "officer_user (caller_of who now s) = Inr m \<Longrightarrow> mb_role m = Admin \<longrightarrow> by_admin who now s"
  "org_member (caller_of who now s) = Inr m \<Longrightarrow> mb_role m = Admin \<longrightarrow> by_admin who now s"
  by (auto simp: by_admin_def officer_user_iff admin_user_iff split: sum.split)
    (metis admin_user_iff sum.distinct(1))+

lemma serve_org_moves:
  "org_moves (by_admin who now s) (liftable req) now s (snd (serve_org who now req s))"
  by (cases req)
    (auto simp: snd_answer intro!: moves_entering moves_update_member moves_change_role moves_create_moderation
       moves_lift_moderation moves_submit_application moves_withdraw moves_update_application
       dest: admin_entered)

end
