(* ===== verification/MembershipSafety.thy ===== *)
theory MembershipSafety
  imports MembershipSteps
begin

text \<open>
  What the rules of membership guarantee over any sequence of requests: an administrator remains, ranks
  are safe from below, a suspension holds until it is lifted or runs out, and a user has one open application
  at most.
\<close>

subsection \<open>Sequences of requests\<close>

type_synonym org_call = "(http_error + string) \<times> instant \<times> org_request"

definition serve_org_all :: "org_call list \<Rightarrow> org \<Rightarrow> org" where
  "serve_org_all = fold (\<lambda>(who, now, req) s. snd (serve_org who now req s))"

lemma serve_org_all_simps [simp]:
  "serve_org_all [] s = s"
  "serve_org_all (c # cs) s = serve_org_all cs (case c of (who, now, req) \<Rightarrow> snd (serve_org who now req s))"
  by (simp_all add: serve_org_all_def split_def)

text \<open>An invariant of the steps is an invariant of a request, and of a sequence.\<close>

lemma moves_invariant:
  assumes "org_moves adm L now s s'" and "odb_ok (org_db s)" and "Q (org_db s)"
    and "\<And>db db'. org_step adm L now db db' \<Longrightarrow> odb_ok db \<Longrightarrow> Q db \<Longrightarrow> Q db'"
  shows "odb_ok (org_db s')" "Q (org_db s')"
proof -
  have "(org_step adm L now)\<^sup>*\<^sup>* (org_db s) (org_db s')" using assms(1,2) by (simp add: org_moves_def)
  then have "odb_ok (org_db s') \<and> Q (org_db s')"
    by (induction rule: rtranclp_induct) (use assms odb_ok_step in blast)+
  then show "odb_ok (org_db s')" "Q (org_db s')" by auto
qed

lemma serve_ok: "odb_ok (org_db s) \<Longrightarrow> odb_ok (org_db (snd (serve_org who now req s)))"
  using serve_org_moves [of who now s req] by (simp add: org_moves_def)

lemma serve_all_invariant:
  assumes "odb_ok (org_db s)" and "Q (org_db s)"
    and "\<And>who now req adm db db'. (who, now, req) \<in> set cs \<Longrightarrow> org_step adm (liftable req) now db db' \<Longrightarrow>
      odb_ok db \<Longrightarrow> Q db \<Longrightarrow> Q db'"
  shows "odb_ok (org_db (serve_org_all cs s)) \<and> Q (org_db (serve_org_all cs s))"
  using assms
proof (induction cs arbitrary: s)
  case (Cons c cs)
  obtain who now req where c: "c = (who, now, req)" by (cases c)
  let ?s = "snd (serve_org who now req s)"
  have keep: "\<forall>db db'. org_step (by_admin who now s) (liftable req) now db db' \<longrightarrow> odb_ok db \<longrightarrow> Q db \<longrightarrow> Q db'"
    using Cons.prems(3) [of who now req "by_admin who now s"] by (simp add: c)
  have "odb_ok (org_db ?s)" "Q (org_db ?s)"
    using moves_invariant [where Q = Q, OF serve_org_moves Cons.prems(1,2)] keep by blast+
  note one = this
  have rest: "Q db'" if "(who', now', req') \<in> set cs" "org_step adm (liftable req') now' db db'" "odb_ok db" "Q db"
    for who' now' req' adm db db'
    using Cons.prems(3) [of who' now' req' adm db db'] that by simp
  show ?case unfolding c serve_org_all_simps prod.case by (rule Cons.IH [OF one]) (rule rest)
qed simp

subsection \<open>An administrator remains\<close>

lemma blocks_antimono: "blocks now' a \<Longrightarrow> now \<le> now' \<Longrightarrow> blocks now a"
  by (auto simp: blocks_def unexpired_def split: option.splits)

lemma actionable_ids_later:
  assumes "odb_ok db" and "now \<le> now'"
  shows "actionable_ids now db \<subseteq> actionable_ids now' db"
  using assms blocks_antimono unfolding actionable_ids_def actionable_admin_def suspended_iff [OF assms(1)] by blast

lemma step_keeps_actionable:
  assumes step: "org_step adm L now db db'" and ok: "odb_ok db" and some: "actionable_ids now db \<noteq> {}"
  shows "actionable_ids now db' \<noteq> {}"
proof -
  have ok': "odb_ok db'" by (rule odb_ok_step [OF step ok])
  have keep: "actionable_ids now db' \<noteq> {}"
    if there: "\<And>k m. k \<in> X \<Longrightarrow> rows (members db) k = Some m \<Longrightarrow> mr_is_active m \<Longrightarrow> mr_role m = Admin \<Longrightarrow>
        \<exists>m'. rows (members db') k = Some m' \<and> mr_is_active m' \<and> mr_role m' = Admin"
      and free': "\<And>aid a. rows (moderation db') aid = Some a \<Longrightarrow> blocks now a \<Longrightarrow> mo_member_id a \<in> X \<Longrightarrow>
        \<exists>aid a'. rows (moderation db) aid = Some a' \<and> blocks now a' \<and> mo_member_id a' = mo_member_id a"
      and meets: "actionable_ids now db \<inter> X \<noteq> {}" for X
  proof -
    obtain k m where "k \<in> X" "rows (members db) k = Some m" "mr_is_active m" "mr_role m = Admin"
      and free: "\<not> is_member_suspended_or_banned k now db"
      using meets by (auto simp: actionable_ids_def actionable_admin_def)
    moreover from this obtain m' where "rows (members db') k = Some m'" "mr_is_active m'" "mr_role m' = Admin"
      using there by blast
    moreover have "\<not> is_member_suspended_or_banned k now db'"
      using free' free \<open>k \<in> X\<close> unfolding suspended_iff [OF ok] suspended_iff [OF ok'] by metis
    ultimately have "k \<in> actionable_ids now db'" by (auto simp: actionable_ids_def actionable_admin_def)
    then show ?thesis by blast
  qed
  have spare: "actionable_ids now db \<inter> (- {k}) \<noteq> {}" if "spare_admin k now db" for k
    using that some by (auto simp: spare_admin_def)
  note fresh = given_fresh [OF ok]
  from step show ?thesis
  proof cases
    case (profile k m m')
    then show ?thesis using some by (intro keep [of UNIV]) (auto simp: put_member_def t_update_def)
  next
    case (deactivate k m m')
    then show ?thesis using spare [of k] by (intro keep [of "- {k}"]) (auto simp: put_member_def t_update_def)
  next
    case (role k m r)
    then consider "r = Admin" | "r \<noteq> Admin" "spare_admin k now db" by blast
    then show ?thesis
    proof cases
      case 1
      then show ?thesis using role some
        by (intro keep [of UNIV]) (auto simp: put_member_def t_update_def parse_role_def)
    next
      case 2
      then show ?thesis using role spare [of k] by (intro keep [of "- {k}"]) (auto simp: put_member_def t_update_def)
    qed
  next
    case (joined new)
    then show ?thesis using some fresh by (intro keep [of UNIV]) (auto simp: t_create_def)
  next
    case (moderated act m)
    show ?thesis
    proof (cases "blocks now act")
      case True
      then show ?thesis using moderated spare [of "mo_member_id act"]
        by (intro keep [of "- {mo_member_id act}"]) (auto simp: t_create_def split: if_splits)
    next
      case False
      then show ?thesis using moderated some
        by (intro keep [of UNIV]) (auto simp: t_create_def split: if_splits)
    qed
  next
    case (lifted aid act)
    then show ?thesis using some
      by (intro keep [of UNIV]) (auto simp: t_update_def blocks_def split: if_splits)
  next
    case (signed_out ss)
    then show ?thesis using some by (intro keep [of UNIV]) auto
  next
    case (applied app)
    then show ?thesis using some by (intro keep [of UNIV]) auto
  next
    case id_spent
    then show ?thesis using some by (intro keep [of UNIV]) auto
  next
    case (reviewed aid app app' st st')
    then show ?thesis using some by (intro keep [of UNIV]) (auto simp: put_application_def)
  qed
qed

lemma serve_keeps_actionable:
  assumes "odb_ok (org_db s)" and "actionable_ids now (org_db s) \<noteq> {}"
  shows "actionable_ids now (org_db (snd (serve_org who now req s))) \<noteq> {}"
  using moves_invariant(2) [where Q = "\<lambda>db. actionable_ids now db \<noteq> {}", OF serve_org_moves assms]
    step_keeps_actionable by blast

lemma serve_all_keeps_actionable:
  assumes "odb_ok (org_db s)" and "actionable_ids now (org_db s) \<noteq> {}"
    and "sorted (now # map (\<lambda>(_, t, _). t) cs @ [now'])"
  shows "actionable_ids now' (org_db (serve_org_all cs s)) \<noteq> {}"
  using assms
proof (induction cs arbitrary: s now)
  case Nil
  then show ?case using actionable_ids_later [of "org_db s" now now'] by auto
next
  case (Cons c cs)
  obtain who t req where c: "c = (who, t, req)" by (cases c)
  let ?s = "snd (serve_org who t req s)"
  have "actionable_ids t (org_db s) \<noteq> {}"
    using Cons.prems actionable_ids_later [of "org_db s" now t] by (auto simp: c)
  then have "actionable_ids t (org_db ?s) \<noteq> {}" by (rule serve_keeps_actionable [OF Cons.prems(1)])
  then show ?case using Cons.IH [OF serve_ok [OF Cons.prems(1)]] Cons.prems(3) by (simp add: c)
qed

subsection \<open>Ranks are safe from below\<close>

definition ranked :: "odb \<Rightarrow> string \<Rightarrow> bool" where
  "ranked db k \<longleftrightarrow> (case rows (members db) k of None \<Rightarrow> False | Some m \<Rightarrow> Officer \<le> mr_role m)"

definition sanctions :: "odb \<Rightarrow> string \<Rightarrow> (string \<times> moderation_row) set" where
  "sanctions db k = {(aid, a). rows (moderation db) aid = Some a \<and> mo_member_id a = k}"

text \<open>Same role, same sanctions, and active if it was.\<close>

definition rank_kept :: "odb \<Rightarrow> odb \<Rightarrow> string \<Rightarrow> bool" where
  "rank_kept db db' k \<longleftrightarrow> sanctions db' k = sanctions db k \<and>
     (case (rows (members db) k, rows (members db') k) of
        (Some m, Some m') \<Rightarrow> mr_org_role m' = mr_org_role m \<and> (mr_is_active m \<longrightarrow> mr_is_active m')
      | (None, None) \<Rightarrow> True | _ \<Rightarrow> False)"

lemma rank_kept_refl: "rank_kept db db k"
  by (simp add: rank_kept_def split: option.split)

lemma rank_kept_trans: "rank_kept a b k \<Longrightarrow> rank_kept b c k \<Longrightarrow> rank_kept a c k"
  by (auto simp: rank_kept_def split: option.splits)

lemma step_keeps_ranks:
  assumes step: "org_step False L now db db'" and ok: "odb_ok db"
  shows "ranked db' k = ranked db k" "ranked db k \<longrightarrow> rank_kept db db' k"
proof -
  note fresh = given_fresh [OF ok]
  from step have "ranked db' k = ranked db k \<and> (ranked db k \<longrightarrow> rank_kept db db' k)"
  proof cases
    case (role j m r)
    then show ?thesis
      by (auto simp: ranked_def rank_kept_def sanctions_def put_member_def t_update_def split: option.splits)
  next
    case (joined new)
    then show ?thesis using fresh
      by (auto simp: ranked_def rank_kept_def sanctions_def t_create_def split: option.splits)
  next
    case (moderated act m)
    then show ?thesis using fresh
      by (auto simp: ranked_def rank_kept_def sanctions_def t_create_def split: option.splits if_splits)
  qed (auto simp: ranked_def rank_kept_def sanctions_def put_member_def put_application_def t_update_def split: option.splits)
  then show "ranked db' k = ranked db k" "ranked db k \<longrightarrow> rank_kept db db' k" by auto
qed

subsection \<open>A suspension holds\<close>

text \<open>The user's member row, and a sanction on it that has neither been lifted nor run out.\<close>

definition barred :: "string \<Rightarrow> string \<Rightarrow> string \<Rightarrow> instant \<Rightarrow> odb \<Rightarrow> bool" where
  "barred uid k aid now db \<longleftrightarrow>
     (\<exists>m. rows (members db) k = Some m \<and> mr_user_id m = uid) \<and>
     (\<exists>a. rows (moderation db) aid = Some a \<and> mo_member_id a = k \<and> blocks now a)"

lemma step_keeps_barred:
  assumes step: "org_step adm L t db db'" and ok: "odb_ok db" and barred: "barred uid k aid now db" and "aid \<notin> L"
  shows "barred uid k aid now db'"
  using step barred given_fresh [OF ok] \<open>aid \<notin> L\<close>
  by cases (auto simp: barred_def put_member_def put_application_def t_update_def t_create_def)

lemma get_member_by_user_unique:
  assumes ok: "odb_ok db" and m: "rows (members db) k = Some m" "mr_user_id m = uid"
  shows "get_member_by_user uid db = Some (k, m)"
proof -
  have t: "table_ok (members db)" using ok by (simp add: odb_ok_def)
  have "(k, m) \<in> set (t_list (\<lambda>m. mr_user_id m = uid) (members db))"
    using m by (simp add: set_t_list [OF t])
  then obtain found where found: "get_member_by_user uid db = Some found"
    by (cases "t_list (\<lambda>m. mr_user_id m = uid) (members db)") (simp_all add: get_member_by_user_def)
  obtain k' m' where "found = (k', m')" by (cases found)
  then show ?thesis
    using found get_member_by_user_SomeD [OF ok, of uid k' m'] user_unique [OF ok m(1), of k' m'] m by auto
qed

fun gated :: "org_request \<Rightarrow> bool" where
  "gated (SubmitApplication _) = False"
| "gated WithdrawApplication = False"
| "gated _ = True"

lemma barred_refused:
  assumes ok: "odb_ok (org_db s)" and barred: "barred uid k aid now (org_db s)"
  shows "\<exists>msg. org_member (caller_of (Inr uid) now s) = Inl (Status 403 msg)"
proof -
  obtain m where m: "rows (members (org_db s)) k = Some m" "mr_user_id m = uid"
    and out: "is_member_suspended_or_banned k now (org_db s)"
    using barred by (auto simp: barred_def suspended_iff [OF ok])
  show ?thesis
    by (simp add: org_member_def caller_of_def get_member_auth_by_user_def get_member_by_user_unique [OF ok m] out
        to_site_member_def)
qed

lemma gated_refused:
  assumes "gated req" and "org_member (caller_of who now s) = Inl e"
  shows "serve_org who now req s = (Inl e, s)"
  using assms by (cases req) (simp_all add: entering_def admin_user_def officer_user_def fail_def)

subsection \<open>Applications\<close>

definition open_ids :: "string \<Rightarrow> odb \<Rightarrow> string set" where
  "open_ids uid db = {aid. \<exists>a. rows (applications db) aid = Some a \<and> ap_user_id a = uid \<and>
     (ap_status a = ''pending'' \<or> ap_status a = ''trial'')}"

lemma count_open:
  assumes "odb_ok db"
  shows "count_open_applications uid db = card (open_ids uid db)" "finite (open_ids uid db)"
proof -
  have ok: "table_ok (applications db)" using assms by (simp add: odb_ok_def)
  let ?P = "\<lambda>a. ap_user_id a = uid \<and> (ap_status a = ''pending'' \<or> ap_status a = ''trial'')"
  have "open_ids uid db = set (map fst (t_list ?P (applications db)))"
    by (force simp: open_ids_def set_t_list [OF ok])
  then show "count_open_applications uid db = card (open_ids uid db)" "finite (open_ids uid db)"
    using distinct_card [OF distinct_t_list [OF ok, of ?P]] by (simp_all add: count_open_applications_def)
qed

lemma transition_from_open:
  "is_valid_application_transition st st' \<Longrightarrow> st = Pending \<or> st = Trial"
  by (cases st; cases st') simp_all

lemma step_one_open:
  assumes step: "org_step adm L now db db'" and ok: "odb_ok db" and one: "count_open_applications uid db \<le> 1"
  shows "count_open_applications uid db' \<le> 1"
proof -
  have ok': "odb_ok db'" by (rule odb_ok_step [OF step ok])
  have sub: "?thesis" if "open_ids uid db' \<subseteq> open_ids uid db"
    using card_mono [OF count_open(2) [OF ok] that] one by (simp add: count_open [OF ok] count_open [OF ok'])
  have same: "?thesis" if "applications db' = applications db"
    using sub that by (simp add: open_ids_def)
  from step show ?thesis
  proof cases
    case (applied app)
    show ?thesis
    proof (cases "ap_user_id app = uid")
      case True
      then have "open_ids uid db = {}" using applied(2) count_open [OF ok, of uid] by simp
      then have "open_ids uid db' \<subseteq> {given_id db}"
        by (auto simp: applied(1) open_ids_def t_create_def split: if_splits)
      then show ?thesis using card_mono [of "{given_id db}"] by (force simp: count_open [OF ok'])
    next
      case False
      then show ?thesis by (intro sub) (auto simp: applied(1) open_ids_def t_create_def split: if_splits)
    qed
  next
    case (reviewed aid app app' st st')
    have "ap_status app = ''pending'' \<or> ap_status app = ''trial''"
      using transition_from_open [OF reviewed(6)] reviewed(4) by auto
    then show ?thesis using reviewed
      by (intro sub) (auto simp: open_ids_def put_application_def t_update_def split: if_splits)
  qed (rule same, simp add: put_member_def)+
qed

text \<open>A decision is final: the status of a closed application never changes.\<close>

definition decided :: "string \<Rightarrow> application_row \<Rightarrow> odb \<Rightarrow> bool" where
  "decided aid a db \<longleftrightarrow> rows (applications db) aid = Some a \<and> ap_status a \<in> {''accepted'', ''rejected'', ''withdrawn''}"

lemma step_keeps_decided:
  assumes step: "org_step adm L now db db'" and ok: "odb_ok db" and decided: "decided aid a db"
  shows "decided aid a db'"
  using step
proof cases
  case (reviewed aid' app app' st st')
  have "ap_status app = ''pending'' \<or> ap_status app = ''trial''"
    using transition_from_open [OF reviewed(6)] reviewed(4) by auto
  then have "aid' \<noteq> aid" using decided reviewed(2) by (auto simp: decided_def)
  then show ?thesis using decided reviewed(1) by (simp add: decided_def put_application_def t_update_def)
qed (use decided given_fresh [OF ok] in \<open>auto simp: decided_def put_member_def t_create_def\<close>)

end
