(* ===== verification/MembershipProps.thy ===== *)
theory MembershipProps
  imports MembershipSafety
begin

text \<open>
  The properties of the membership routes, and a sample organisation on which they are applied.
\<close>

subsection \<open>Acceptance\<close>

lemma transition_result:
  assumes ok: "odb_ok (org_db s)" and app: "rows (applications (org_db s)) aid = Some existing"
    and run: "apply_application_transition aid existing to actor notes now s = (Inr (aid', a), s')"
    and to: "application_status_ensures_member to"
  shows "has_membership (ap_user_id a) (org_db s')" "rows (applications (org_db s')) aid = Some a"
    "ap_status a = application_status_to_string to" "aid' = aid" "ap_user_id a = ap_user_id existing"
proof -
  let ?ensure = "ensure_member_for_application (ap_user_id existing) (ap_status_of existing) to now"
  have stays: "\<not> application_status_deactivates_member to"
    using to by (auto simp: application_status_ensures_member_def application_status_deactivates_member_def)
  obtain r s1 where e: "?ensure s = (r, s1)" by (cases "?ensure s")
  note ens = ensured [OF ok e, of undefined undefined, unfolded ensures_def]
  obtain x where r: "r = Inr x"
    using run to by (cases r) (auto simp: apply_application_transition_def and_then_def e)
  let ?upd = "update_application_status aid (ap_status_of existing) to actor notes now"
  have "?upd (org_db s1) = (Inr (aid', a), org_db s')"
    using run to stays unfolding apply_application_transition_def and_then_def
    by (auto simp: e r ret_def org_call_def audit_def split: prod.splits sum.splits)
  moreover have "rows (applications (org_db s1)) aid = Some existing" using ens app by simp
  ultimately have "aid' = aid" "org_db s' = put_application aid a (org_db s1)"
    "ap_status a = application_status_to_string to" "ap_user_id a = ap_user_id existing"
    by (auto simp: update_application_status_def Let_def split: if_splits)
  then show "has_membership (ap_user_id a) (org_db s')" "rows (applications (org_db s')) aid = Some a"
    "ap_status a = application_status_to_string to" "aid' = aid" "ap_user_id a = ap_user_id existing"
    using ens r by (auto simp: has_membership_def put_application_def t_update_def)
qed

subsection \<open>A sample organisation\<close>

text \<open>An administrator, an officer, a member under a ban, and an applicant.\<close>

definition sample_member :: "string \<Rightarrow> org_role \<Rightarrow> membership_row" where
  "sample_member uid role =
     \<lparr>mr_user_id = uid, mr_org_role = role_to_string role, mr_display_name = uid,
      mr_display_name_key = Some uid, mr_bio = None, mr_avatar_url = None, mr_timezone = None,
      mr_pronouns = None, mr_availability_status = None, mr_nostr_pubkey = None,
      mr_nostr_key_mode = None, mr_nostr_secret = None, mr_joined_at = 0, mr_is_active = True,
      mr_main_role = None, mr_twitch = None, mr_twitter = None\<rparr>"

definition sample_ban :: moderation_row where
  "sample_ban = \<lparr>mo_member_id = ''rbb'', mo_action_type = ''ban'', mo_reason = ''spam'', mo_issued_by = ''r'',
     mo_expires_at = Some 50, mo_is_active = True, mo_created_at = 0\<rparr>"

definition sample_application :: application_row where
  "sample_application = \<lparr>ap_user_id = ''dee'', ap_status = ''pending'', ap_preferred_games = [],
     ap_preferred_roles = [], ap_message = None, ap_reviewed_by = None, ap_review_notes = None,
     ap_trial_started_at = None, ap_trial_ends_at = None, ap_mentor_id = None, ap_created_at = 0, ap_updated_at = 0\<rparr>"

definition sample_old_application :: application_row where
  "sample_old_application = sample_application\<lparr>ap_status := ''rejected''\<rparr>"

definition sample_org :: org where
  "sample_org = \<lparr>audit_log = [], org_db =
     \<lparr>next_id = (\<lambda>n. ''r'' @ replicate n (CHR ''b'')), ids_given = 6, key_of_name = Some,
      new_keypair = (\<lambda>_. None), usernames = [''dee'' \<mapsto> ''Dee''], recruitment_open = True, sessions = [],
      members = \<lparr>scan = [''r'', ''rb'', ''rbb''], rows = [''r'' \<mapsto> sample_member ''ann'' Admin,
        ''rb'' \<mapsto> sample_member ''bob'' Officer, ''rbb'' \<mapsto> sample_member ''cid'' Member]\<rparr>,
      applications = \<lparr>scan = [''rbbb'', ''rbbbb''], rows = [''rbbb'' \<mapsto> sample_old_application,
        ''rbbbb'' \<mapsto> sample_application]\<rparr>,
      moderation = \<lparr>scan = [''rbbbbb''], rows = [''rbbbbb'' \<mapsto> sample_ban]\<rparr>\<rparr>\<rparr>"

lemma sample_ok: "odb_ok (org_db sample_org)"
proof -
  have "inj (next_id (org_db sample_org))" by (auto simp: sample_org_def inj_def)
  moreover have "given_ids (org_db sample_org) = {''r'', ''rb'', ''rbb'', ''rbbb'', ''rbbbb'', ''rbbbbb''}"
    by (simp add: given_ids_def sample_org_def lessThan_nat_numeral insert_commute numeral_eq_Suc lessThan_Suc)
  ultimately show ?thesis
    by (auto simp: odb_ok_def table_ok_def sample_org_def inj_on_def sample_member_def split: if_splits)
qed

subsection \<open>Properties\<close>

text \<open>
  C24: the membership routes refine the rules. Whatever request is served, with whatever session, in a
  well-formed organisation, the database moves by steps that the rules allow to that caller at that time
  (administrator or not, lifting at most the moderation action the request names), and it stays well-formed.
\<close>

theorem requests_follow_rules:
  assumes "odb_ok (org_db s)" and "s' = snd (serve_org who now req s)"
  shows "odb_ok (org_db s') \<and> (org_step (by_admin who now s) (liftable req) now)\<^sup>*\<^sup>* (org_db s) (org_db s')"
  using serve_org_moves [of who now s req] assms by (simp add: org_moves_def)

theorem requests_follow_rules_witness:
  "odb_ok (org_db (snd (serve_org (Inr ''ann'') 1 (ChangeRole ''rb'' Member) sample_org)))"
  using requests_follow_rules [OF sample_ok refl] by blast

text \<open>
  C5: an administrator remains. From a well-formed organisation with an administrator who can act (active,
  neither suspended nor banned), no sequence of membership requests, by whomever, in the order of their times,
  leaves the organisation without one, at its end or at any later time.
\<close>

theorem admin_remains:
  assumes "odb_ok (org_db s)" and "0 < count_actionable_admins now (org_db s)"
    and "sorted (now # map (\<lambda>(_, t, _). t) cs @ [now'])"
  shows "0 < count_actionable_admins now' (org_db (serve_org_all cs s))"
proof -
  have "actionable_ids now (org_db s) \<noteq> {}" using assms(2) by (auto simp: count_actionable(1) [OF assms(1)])
  then have "actionable_ids now' (org_db (serve_org_all cs s)) \<noteq> {}"
    by (rule serve_all_keeps_actionable [OF assms(1) _ assms(3)])
  moreover have "odb_ok (org_db (serve_org_all cs s))"
    using serve_all_invariant [of s "\<lambda>_. True" cs] assms(1) by simp
  ultimately show ?thesis using count_actionable card_gt_0_iff by metis
qed

theorem admin_remains_witness:
  "0 < count_actionable_admins 9 (org_db (serve_org_all
     [(Inr ''ann'', 1, ChangeRole ''rb'' Admin), (Inr ''bob'', 2, ChangeRole ''r'' Member),
      (Inr ''bob'', 3, ChangeRole ''rb'' Member)] sample_org))"
proof (rule admin_remains [OF sample_ok])
  show "0 < count_actionable_admins 0 (org_db sample_org)"
    by (simp add: count_actionable_admins_def blocked_ids_def t_list_def sample_org_def sample_member_def
        sample_ban_def blocks_def unexpired_def)
qed simp

text \<open>
  C6: ranks are safe from below. A request that does not come from an administrator makes nobody an officer or
  administrator and takes nobody out of those ranks; and everybody of those ranks keeps their role, stays active,
  and has the same moderation actions, lifted or not, as before.
\<close>

theorem ranks_safe_from_below:
  assumes "odb_ok (org_db s)" and "\<not> by_admin who now s" and "s' = snd (serve_org who now req s)"
  shows "ranked (org_db s') k = ranked (org_db s) k \<and>
    (ranked (org_db s) k \<longrightarrow> rank_kept (org_db s) (org_db s') k)"
proof -
  let ?Q = "\<lambda>db. ranked db k = ranked (org_db s) k \<and> (ranked (org_db s) k \<longrightarrow> rank_kept (org_db s) db k)"
  have "org_moves False (liftable req) now s s'" using serve_org_moves [of who now s req] assms(2,3) by simp
  then show ?thesis
    using moves_invariant(2) [where Q = ?Q, of False "liftable req" now s s'] assms(1) step_keeps_ranks
      rank_kept_refl rank_kept_trans by blast
qed

theorem ranks_safe_from_below_witness:
  "ranked (org_db (snd (serve_org (Inr ''bob'') 1
     (CreateModeration \<lparr>mq_member_id = ''r'', mq_action_type = Ban, mq_reason = ''coup'', mq_expires_at = None\<rparr>)
     sample_org))) ''r''"
proof -
  have "\<not> by_admin (Inr ''bob'') 1 sample_org"
    by (simp add: by_admin_def admin_user_def org_member_def caller_of_def get_member_auth_by_user_def
        get_member_by_user_def t_list_def sample_org_def sample_member_def to_site_member_def
        is_member_suspended_or_banned_def sample_ban_def parse_role_def)
  moreover have "ranked (org_db sample_org) ''r''"
    by (simp add: ranked_def sample_org_def sample_member_def parse_role_def less_eq_org_role_def)
  ultimately show ?thesis using ranks_safe_from_below [OF sample_ok _ refl] by blast
qed

text \<open>
  C7: a suspension holds. While a suspension or ban of a user's membership has not run out, then after any
  sequence of requests none of which names it in a lift (a lift itself needs an administrator), every member,
  officer or admin route refuses that user with 403 and changes nothing.
\<close>

theorem suspension_holds:
  assumes "odb_ok (org_db s)" and "barred uid k aid now (org_db s)"
    and "list_all (\<lambda>(_, _, r). aid \<notin> liftable r) cs" and "gated req" and "s' = serve_org_all cs s"
  shows "\<exists>msg. serve_org (Inr uid) now req s' = (Inl (Status 403 msg), s')"
proof -
  have "odb_ok (org_db s') \<and> barred uid k aid now (org_db s')"
    unfolding assms(5)
    by (rule serve_all_invariant [where Q = "barred uid k aid now", OF assms(1,2)], rule step_keeps_barred)
      (use assms(3) in \<open>auto simp: list_all_iff\<close>)
  then show ?thesis using barred_refused gated_refused [OF assms(4)] by blast
qed

theorem suspension_holds_witness:
  "\<exists>msg s'. s' = serve_org_all [(Inr ''ann'', 1, UpdateMember ''rbb'' (activate_patch True))] sample_org \<and>
     serve_org (Inr ''cid'') 40 (UpdateMember ''rbb'' no_patch) s' = (Inl (Status 403 msg), s')"
proof -
  let ?s = "serve_org_all [(Inr ''ann'', 1, UpdateMember ''rbb'' (activate_patch True))] sample_org"
  have "barred ''cid'' ''rbb'' ''rbbbbb'' 40 (org_db sample_org)"
    by (simp add: barred_def sample_org_def sample_member_def sample_ban_def blocks_def unexpired_def)
  then have "\<exists>msg. serve_org (Inr ''cid'') 40 (UpdateMember ''rbb'' no_patch) ?s = (Inl (Status 403 msg), ?s)"
    by (rule suspension_holds [OF sample_ok _ _ _ refl]) simp_all
  then show ?thesis by blast
qed



text \<open>
  C26: acceptance gives a membership. When an officer's request to accept an application, or to start its trial,
  succeeds, the application has the new status and its applicant has an active membership.
\<close>

theorem accepted_is_member:
  assumes "odb_ok (org_db s)"
    and "serve_org who now (UpdateApplication aid st notes) s = (Inr (ApplicationBody code i a), s')"
    and "application_status_ensures_member st"
  shows "i = aid \<and> rows (applications (org_db s')) aid = Some a \<and> ap_status a = application_status_to_string st \<and>
    has_membership (ap_user_id a) (org_db s')"
proof -
  obtain m where "update_application_route m aid st notes now s = (Inr (i, a), s')"
    using assms(2) by (auto simp: entering_def answer_def and_then_def fail_def ret_def
        split: sum.splits prod.splits)
  then obtain e where e: "rows (applications (org_db s)) aid = Some e"
    "apply_application_transition aid e st (mb_id m) notes now s = (Inr (i, a), s')"
    by (auto simp: update_application_route_def at_require get_application_def fail_def split: option.splits if_splits)
  show ?thesis using transition_result [OF assms(1) e assms(3)] by simp
qed

theorem accepted_is_member_witness:
  "\<exists>a s'. serve_org (Inr ''bob'') 1 (UpdateApplication ''rbbbb'' Accepted None) sample_org =
      (Inr (ApplicationBody 200 ''rbbbb'' a), s') \<and> has_membership (ap_user_id a) (org_db s')"
proof -
  have "\<exists>a s'. serve_org (Inr ''bob'') 1 (UpdateApplication ''rbbbb'' Accepted None) sample_org =
      (Inr (ApplicationBody 200 ''rbbbb'' a), s')"
    by (simp add: entering_def answer_def and_then_def ret_def officer_user_def org_member_def caller_of_def
        get_member_auth_by_user_def get_member_by_user_def t_list_def sample_org_def sample_member_def
        to_site_member_def is_member_suspended_or_banned_def sample_ban_def parse_role_def is_at_least_def
        update_application_route_def org_read_def get_application_def require_def sample_application_def
        parse_application_status_def apply_application_transition_def application_status_ensures_member_def
        ensure_member_for_application_def create_member_def name_taken_def index_taken_def given_id_def
        org_call_def update_application_status_def application_status_deactivates_member_def audit_def Let_def)
  then show ?thesis
    using accepted_is_member [OF sample_ok] by (auto simp: application_status_ensures_member_def)
qed

end
