(* ===== verification/BoundaryTypes.thy ===== *)
theory BoundaryTypes
  imports Prelude
begin

text \<open>
  The data of the stat tracker's session machine: match outcomes (\<open>crates/stat-tracker/src/detect/mod.rs\<close>),
  the scoreboard counters and the gate state (\<open>capture_gate.rs\<close>), and the types of \<open>boundary.rs\<close>. A \<open>u32\<close> or
  \<open>u8\<close> is a \<open>nat\<close>, with saturation and truncation written out; an array \<open>[T; 6]\<close> is a function of the column,
  read at the columns below 6 only.
\<close>

subsection \<open>Outcomes, counters and the gate\<close>

datatype match_outcome = Victory | Defeat | Draw | Unknown

definition is_decided :: "match_outcome \<Rightarrow> bool" where
  "is_decided out \<longleftrightarrow> out \<noteq> Unknown"

text \<open>\<open>x.filter(|o| o.is_decided())\<close>.\<close>

definition decided_only :: "match_outcome option \<Rightarrow> match_outcome option" where
  "decided_only x = (case x of None \<Rightarrow> None | Some out \<Rightarrow> if is_decided out then Some out else None)"

record counters =
  elims :: nat
  assists :: nat
  deaths :: nat
  damage :: nat
  healing :: nat
  mitigation :: nat

definition no_counters :: counters where
  "no_counters = \<lparr>elims = 0, assists = 0, deaths = 0, damage = 0, healing = 0, mitigation = 0\<rparr>"

type_synonym 'a cols = "nat \<Rightarrow> 'a"

definition to_array :: "counters \<Rightarrow> nat cols" where
  "to_array c = (\<lambda>col. [elims c, assists c, deaths c, damage c, healing c, mitigation c] ! col)"

definition gate_cols :: "nat list" where
  "gate_cols = [0, 1, 2, 3, 4, 5]"

definition edd_cols :: "nat list" where
  "edd_cols = [0, 2, 3]"

record gate_state =
  accepted :: counters
  last_raw :: counters
  down_streak_len :: "nat cols"
  down_streak_last :: "nat cols"
  last_raw_suspect :: "bool cols"
  low_trust :: bool
  unconfirmed :: "bool cols"
  confirmed_floor :: "nat cols"
  has_confirmed_floor :: "bool cols"
  row_shift :: "bool cols"
  unread :: "bool cols"
  held_secs :: "nat cols"
  refused_first_read :: "bool cols"
  unsure_shown :: "nat cols"
  has_unsure_shown :: "bool cols"
  boundary_anchor :: "counters option"

definition default_gate :: gate_state where
  "default_gate = \<lparr>accepted = no_counters, last_raw = no_counters, down_streak_len = (\<lambda>_. 0),
     down_streak_last = (\<lambda>_. 0), last_raw_suspect = (\<lambda>_. False), low_trust = False,
     unconfirmed = (\<lambda>_. False), confirmed_floor = (\<lambda>_. 0), has_confirmed_floor = (\<lambda>_. False),
     row_shift = (\<lambda>_. False), unread = (\<lambda>_. False), held_secs = (\<lambda>_. 0),
     refused_first_read = (\<lambda>_. False), unsure_shown = (\<lambda>_. 0), has_unsure_shown = (\<lambda>_. False),
     boundary_anchor = None\<rparr>"

subsection \<open>The session machine's types\<close>

datatype close_reason = ByMapVote | ByHeroSelectOrBan | ByStatReset | ByStatRegression | ByEndScreenMap

record result_mark =
  rm_outcome :: match_outcome
  rm_confirmed :: bool
  rm_seen_at :: instant

datatype game_phase = Idle | LiveMatch | PostResultStreak | PostMatch | NewGameStarting

datatype start_screen = MapVote "string list" | HeroSelect | HeroBan

datatype boundary_effect =
    Ignore
  | Append
  | Seal match_outcome
  | RememberHint match_outcome
  | ClearHintAndAppend
  | Defer
  | ArmPending
  | PrimeReset
  | CountProgress
  | Split close_reason "match_outcome option" match_outcome

record board_obs =
  bo_fresh_reset :: bool
  bo_progressed :: bool
  bo_implausible :: bool
  bo_frame_outcome :: match_outcome
  bo_suspect_row :: bool

datatype map_relation = Matches | Differs | Absent

datatype map_source = TopBar | Accolade | TextFallback

definition trusted_for_board_split :: "map_source \<Rightarrow> bool" where
  "trusted_for_board_split src \<longleftrightarrow> src = TopBar \<or> src = Accolade"

datatype observation =
    ConfirmedWord match_outcome
  | UnconfirmedWord match_outcome map_relation
  | StartScreenObs start_screen bool
  | BoardObs board_obs
  | GapObs match_outcome
  | EndScreenDifferentMap match_outcome string
  | HintedDifferentMap match_outcome

record boundary_state =
  bs_map :: "string option"
  bs_outcome :: match_outcome
  bs_outcome_at :: "instant option"
  bs_result :: "result_mark option"
  bs_reset_streak :: nat
  bs_reset_baseline :: "gate_state option"
  bs_baseline_row :: "nat option"
  bs_last_board_at :: "instant option"
  bs_pending_boundary :: bool
  bs_progressed_boards :: nat
  bs_baseline_at :: "instant option"
  bs_awaiting_first_board :: bool
  bs_hero :: "string option"
  bs_deferred :: "counters option"
  bs_gate :: "gate_state option"
  bs_text_fallback_locked :: bool

definition new_boundary :: "string option \<Rightarrow> boundary_state" where
  "new_boundary m = \<lparr>bs_map = m, bs_outcome = Unknown, bs_outcome_at = None, bs_result = None,
     bs_reset_streak = 0, bs_reset_baseline = None, bs_baseline_row = None, bs_last_board_at = None,
     bs_pending_boundary = False, bs_progressed_boards = 0, bs_baseline_at = None,
     bs_awaiting_first_board = False, bs_hero = None, bs_deferred = None, bs_gate = None,
     bs_text_fallback_locked = False\<rparr>"

end
