(* ===== verification/BoundaryStep.thy ===== *)
theory BoundaryStep
  imports BoundaryTypes
begin

text \<open>
  The one transition of the stat tracker's session machine (\<open>phase_of\<close>, \<open>transition\<close> and their helpers in
  \<open>crates/stat-tracker/src/boundary.rs\<close>), and the table of its module documentation.
\<close>

subsection \<open>The transition\<close>

definition sealable_hint :: "boundary_state \<Rightarrow> match_outcome option" where
  "sealable_hint st =
     (case bs_result st of
        None \<Rightarrow> None
      | Some mark \<Rightarrow> if \<not> rm_confirmed mark \<and> is_decided (rm_outcome mark) then Some (rm_outcome mark) else None)"

definition phase_of :: "boundary_state \<Rightarrow> game_phase" where
  "phase_of st =
     (if is_decided (bs_outcome st) then PostMatch
      else if bs_awaiting_first_board st then NewGameStarting
      else if (case bs_result st of None \<Rightarrow> False | Some mark \<Rightarrow> \<not> rm_confirmed mark \<and> is_decided (rm_outcome mark))
      then PostResultStreak
      else if bs_gate st \<noteq> None \<or> bs_map st \<noteq> None \<or> bs_hero st \<noteq> None then LiveMatch
      else Idle)"

definition confirmed_word :: "game_phase \<Rightarrow> match_outcome \<Rightarrow> boundary_effect" where
  "confirmed_word ph out = (if ph = PostMatch then Ignore else Seal out)"

fun unconfirmed_replaces :: "bool \<Rightarrow> map_relation \<Rightarrow> bool" where
  "unconfirmed_replaces pending Matches = True"
| "unconfirmed_replaces pending Differs = False"
| "unconfirmed_replaces pending Absent = (\<not> pending)"

definition unconfirmed_word ::
  "boundary_state \<Rightarrow> game_phase \<Rightarrow> match_outcome \<Rightarrow> map_relation \<Rightarrow> boundary_effect" where
  "unconfirmed_word st ph out relation =
     (if \<not> unconfirmed_replaces (bs_pending_boundary st) relation then Ignore
      else if ph = PostMatch then Ignore else RememberHint out)"

fun screen_reason :: "start_screen \<Rightarrow> close_reason \<times> string list" where
  "screen_reason (MapVote candidates) = (ByMapVote, candidates)"
| "screen_reason HeroSelect = (ByHeroSelectOrBan, [])"
| "screen_reason HeroBan = (ByHeroSelectOrBan, [])"

fun start_screen_effect :: "boundary_state \<Rightarrow> game_phase \<Rightarrow> start_screen \<Rightarrow> bool \<Rightarrow> boundary_effect" where
  "start_screen_effect st PostMatch screen blocked =
     (case screen of
        MapVote _ \<Rightarrow> if blocked then Ignore else Split (fst (screen_reason screen)) None Unknown
      | _ \<Rightarrow> Split (fst (screen_reason screen)) None Unknown)"
| "start_screen_effect st PostResultStreak screen blocked =
     (case screen of
        MapVote _ \<Rightarrow> if blocked then Ignore else Split (fst (screen_reason screen)) (sealable_hint st) Unknown
      | HeroBan \<Rightarrow> Split (fst (screen_reason screen)) (sealable_hint st) Unknown
      | HeroSelect \<Rightarrow> if bs_gate st \<noteq> None then ArmPending
          else Split (fst (screen_reason screen)) (sealable_hint st) Unknown)"
| "start_screen_effect st NewGameStarting screen blocked =
     (case screen of
        HeroSelect \<Rightarrow> Ignore
      | _ \<Rightarrow> if blocked then Ignore else Split (fst (screen_reason screen)) None Unknown)"
| "start_screen_effect st ph screen blocked =
     (case screen of
        MapVote _ \<Rightarrow> if blocked then Ignore else Split (fst (screen_reason screen)) None Unknown
      | HeroBan \<Rightarrow> if bs_deferred st \<noteq> None then Ignore else Split (fst (screen_reason screen)) None Unknown
      | HeroSelect \<Rightarrow> if bs_deferred st \<noteq> None then Ignore else PrimeReset)"

definition gap_effect :: "boundary_state \<Rightarrow> game_phase \<Rightarrow> match_outcome \<Rightarrow> boundary_effect" where
  "gap_effect st ph frame_outcome =
     (if ph = LiveMatch \<or> ph = PostResultStreak
      then Split ByStatRegression (sealable_hint st) (if is_decided frame_outcome then frame_outcome else Unknown)
      else Ignore)"

definition end_screen :: "boundary_state \<Rightarrow> game_phase \<Rightarrow> match_outcome \<Rightarrow> boundary_effect" where
  "end_screen st ph out =
     (if ph = LiveMatch \<or> ph = PostResultStreak then Split ByEndScreenMap (sealable_hint st) out else Ignore)"

definition reset_commits :: "boundary_state \<Rightarrow> board_obs \<Rightarrow> bool" where
  "reset_commits st board \<longleftrightarrow>
     (if bo_suspect_row board then 2 \<le> bs_reset_streak st \<or> bs_deferred st \<noteq> None
      else 1 \<le> bs_reset_streak st \<or> bs_pending_boundary st)"

definition board_effect :: "boundary_state \<Rightarrow> board_obs \<Rightarrow> boundary_effect" where
  "board_effect st board =
     (if bo_fresh_reset board
      then (if reset_commits st board then Split ByStatReset (sealable_hint st) Unknown else Defer)
      else if (sealable_hint st \<noteq> None \<and> \<not> is_decided (bs_outcome st)) \<and> bo_progressed board \<and>
          \<not> bo_implausible board \<and> \<not> is_decided (bo_frame_outcome board)
      then (if bs_pending_boundary st \<or> 1 \<le> bs_progressed_boards st then ClearHintAndAppend else CountProgress)
      else Append)"

fun transition_effect :: "boundary_state \<Rightarrow> observation \<Rightarrow> boundary_effect" where
  "transition_effect st (ConfirmedWord out) = confirmed_word (phase_of st) out"
| "transition_effect st (UnconfirmedWord out relation) = unconfirmed_word st (phase_of st) out relation"
| "transition_effect st (StartScreenObs screen blocked) = start_screen_effect st (phase_of st) screen blocked"
| "transition_effect st (BoardObs board) = board_effect st board"
| "transition_effect st (GapObs frame_outcome) = gap_effect st (phase_of st) frame_outcome"
| "transition_effect st (EndScreenDifferentMap out m) = end_screen st (phase_of st) out"
| "transition_effect st (HintedDifferentMap frame_outcome) = gap_effect st (phase_of st) frame_outcome"

definition transition :: "boundary_state \<Rightarrow> observation \<Rightarrow> boundary_effect \<times> game_phase" where
  "transition st obs = (transition_effect st obs, phase_of st)"

subsection \<open>Phases\<close>

lemma phase_simps:
  "phase_of st = PostMatch \<longleftrightarrow> is_decided (bs_outcome st)"
  "phase_of st = NewGameStarting \<longleftrightarrow> \<not> is_decided (bs_outcome st) \<and> bs_awaiting_first_board st"
  "phase_of st = PostResultStreak \<longleftrightarrow>
     \<not> is_decided (bs_outcome st) \<and> \<not> bs_awaiting_first_board st \<and> sealable_hint st \<noteq> None"
  by (auto simp: phase_of_def sealable_hint_def split: option.splits)

end
