(* ===== verification/BoundaryPoll.thy ===== *)
theory BoundaryPoll
  imports BoundaryStep
begin

text \<open>
  One poll tick of the session machine: \<open>decide_poll\<close> and \<open>commit_poll\<close> of
  \<open>crates/stat-tracker/src/boundary.rs\<close> with their helpers, on the fields of an open session.
\<close>

record poll_input =
  pi_outcome :: match_outcome
  pi_result :: "result_mark option"
  pi_pending_boundary :: bool
  pi_awaiting_first_board :: bool
  pi_has_board :: bool
  pi_reset_streak :: nat
  pi_map :: "string option"
  pi_map_trusted :: bool
  pi_hero :: "string option"
  pi_signal :: "match_outcome option"
  pi_signal_confirmed :: bool
  pi_accolade_map :: "string option"
  pi_start_screen :: "start_screen option"
  pi_block_map_vote :: bool
  pi_deferred :: bool
  pi_text_fallback_locked :: bool
  pi_now :: instant

record open_new =
  on_reason :: close_reason
  on_seal_outcome :: "match_outcome option"
  on_new_outcome :: match_outcome
  on_new_map :: "string option"
  on_candidates :: "string list"
  on_new_result :: "result_mark option"

record update_current =
  uc_record_outcome :: "match_outcome option"
  uc_adopt_map :: "string option"
  uc_result :: "result_mark option"
  uc_arm_pending :: bool
  uc_arm_reset :: bool
  uc_clear_awaiting :: bool

datatype poll_decision =
    Keep
  | IgnoreContradictory match_outcome match_outcome
  | Update update_current
  | Open open_new

subsection \<open>Maps\<close>

definition named_map :: "string option \<Rightarrow> string option" where
  "named_map m =
     (case m of
        None \<Rightarrow> None
      | Some s \<Rightarrow> let t = trim s in
          if t \<noteq> [] \<and> \<not> eq_ignore_ascii_case t ''unknown'' then Some t else None)"

definition map_relation_of :: "string option \<Rightarrow> string option \<Rightarrow> map_relation" where
  "map_relation_of session accolade =
     (case (named_map session, named_map accolade) of
        (Some s, Some a) \<Rightarrow> if eq_ignore_ascii_case s a then Matches else Differs
      | _ \<Rightarrow> Absent)"

definition trusted_session_map :: "poll_input \<Rightarrow> string option" where
  "trusted_session_map inp = (if pi_map_trusted inp then pi_map inp else None)"

definition text_fallback_open_for_accolade :: "poll_input \<Rightarrow> bool" where
  "text_fallback_open_for_accolade inp =
     (if pi_text_fallback_locked inp \<or> pi_pending_boundary inp \<or> pi_start_screen inp \<noteq> None \<or>
         pi_deferred inp \<or> 0 < pi_reset_streak inp \<or> is_decided (pi_outcome inp)
      then False
      else case (pi_result inp, decided_only (pi_signal inp)) of
        (Some hint, Some signal) \<Rightarrow>
          \<not> (\<not> rm_confirmed hint \<and> is_decided (rm_outcome hint) \<and> rm_outcome hint \<noteq> signal)
      | _ \<Rightarrow> True)"

definition adopt_map :: "poll_input \<Rightarrow> string option" where
  "adopt_map inp =
     (case named_map (pi_accolade_map inp) of
        None \<Rightarrow> None
      | Some accolade \<Rightarrow>
          if named_map (trusted_session_map inp) \<noteq> None then None
          else if pi_map inp \<noteq> None \<and> \<not> text_fallback_open_for_accolade inp then None
          else Some accolade)"

subsection \<open>The decision\<close>

text \<open>When the current mark of this outcome was first seen, or now.\<close>

definition mark_seen :: "poll_input \<Rightarrow> match_outcome \<Rightarrow> instant" where
  "mark_seen inp out =
     (case pi_result inp of
        None \<Rightarrow> pi_now inp
      | Some mark \<Rightarrow> if rm_outcome mark = out then rm_seen_at mark else pi_now inp)"

definition confirmed_mark :: "poll_input \<Rightarrow> match_outcome \<Rightarrow> result_mark" where
  "confirmed_mark inp out = \<lparr>rm_outcome = out, rm_confirmed = True, rm_seen_at = mark_seen inp out\<rparr>"

definition packed_state :: "poll_input \<Rightarrow> boundary_state" where
  "packed_state inp = (new_boundary (pi_map inp))\<lparr>bs_outcome := pi_outcome inp, bs_result := pi_result inp,
     bs_pending_boundary := pi_pending_boundary inp, bs_awaiting_first_board := pi_awaiting_first_board inp,
     bs_reset_streak := pi_reset_streak inp, bs_hero := pi_hero inp,
     bs_gate := (if pi_has_board inp then Some default_gate else None),
     bs_deferred := (if pi_deferred inp then Some no_counters else None)\<rparr>"

text \<open>The observation of a tick, if it has a start screen or a result word.\<close>

definition observed :: "poll_input \<Rightarrow> observation option" where
  "observed inp =
     (case pi_start_screen inp of
        Some screen \<Rightarrow> Some (StartScreenObs screen (pi_block_map_vote inp))
      | None \<Rightarrow>
          (case decided_only (pi_signal inp) of
             None \<Rightarrow> None
           | Some signal \<Rightarrow>
               let relation = map_relation_of (trusted_session_map inp) (pi_accolade_map inp) in
               Some (if relation = Differs \<and> pi_signal_confirmed inp
                     then EndScreenDifferentMap signal
                       (case named_map (pi_accolade_map inp) of None \<Rightarrow> [] | Some m \<Rightarrow> m)
                     else if pi_signal_confirmed inp then ConfirmedWord signal
                     else UnconfirmedWord signal relation)))"

definition plain_update :: "poll_input \<Rightarrow> update_current" where
  "plain_update inp = \<lparr>uc_record_outcome = None, uc_adopt_map = None, uc_result = pi_result inp,
     uc_arm_pending = False, uc_arm_reset = False, uc_clear_awaiting = False\<rparr>"

definition adopt_or :: "poll_decision \<Rightarrow> poll_input \<Rightarrow> poll_decision" where
  "adopt_or other inp =
     (case adopt_map inp of None \<Rightarrow> other | Some m \<Rightarrow> Update ((plain_update inp)\<lparr>uc_adopt_map := Some m\<rparr>))"

definition kept_outcome :: "poll_input \<Rightarrow> match_outcome option" where
  "kept_outcome inp =
     (if is_decided (pi_outcome inp) then Some (pi_outcome inp)
      else case pi_result inp of None \<Rightarrow> None
        | Some mark \<Rightarrow> if is_decided (rm_outcome mark) then Some (rm_outcome mark) else None)"

definition ignored :: "poll_input \<Rightarrow> observation \<Rightarrow> poll_decision" where
  "ignored inp obs =
     (if (case obs of UnconfirmedWord _ relation \<Rightarrow> \<not> unconfirmed_replaces (pi_pending_boundary inp) relation
          | _ \<Rightarrow> False)
      then Keep
      else adopt_or
        (case (decided_only (pi_signal inp), kept_outcome inp) of
           (Some signal, Some kept) \<Rightarrow> if kept \<noteq> signal then IgnoreContradictory kept signal else Keep
         | _ \<Rightarrow> Keep) inp)"

definition remembered :: "poll_input \<Rightarrow> match_outcome \<Rightarrow> poll_decision" where
  "remembered inp out =
     (let mark = \<lparr>rm_outcome = out, rm_confirmed = False, rm_seen_at = mark_seen inp out\<rparr> in
      if pi_result inp = Some mark \<and> \<not> pi_awaiting_first_board inp then Keep
      else Update ((plain_update inp)\<lparr>uc_adopt_map := adopt_map inp, uc_result := Some mark, uc_clear_awaiting := True\<rparr>))"

definition opened :: "poll_input \<Rightarrow> observation \<Rightarrow> close_reason \<Rightarrow> match_outcome option \<Rightarrow> match_outcome \<Rightarrow> open_new"
where
  "opened inp obs reason seal new_outcome =
     (let (reason', candidates) =
        (if reason = ByStatReset then (reason, [])
         else case pi_start_screen inp of Some screen \<Rightarrow> screen_reason screen | None \<Rightarrow> (reason, []))
      in \<lparr>on_reason = reason', on_seal_outcome = seal, on_new_outcome = new_outcome,
          on_new_map = (case obs of EndScreenDifferentMap _ m \<Rightarrow> named_map (Some m) | _ \<Rightarrow> None),
          on_candidates = candidates, on_new_result = None\<rparr>)"

definition decide_poll :: "poll_input \<Rightarrow> poll_decision" where
  "decide_poll inp =
     (case observed inp of
        None \<Rightarrow> adopt_or Keep inp
      | Some obs \<Rightarrow>
          (case fst (transition (packed_state inp) obs) of
             Ignore \<Rightarrow> ignored inp obs
           | Seal out \<Rightarrow> Update ((plain_update inp)\<lparr>uc_record_outcome := Some out, uc_adopt_map := adopt_map inp,
               uc_result := Some (confirmed_mark inp out), uc_clear_awaiting := True\<rparr>)
           | RememberHint out \<Rightarrow> remembered inp out
           | ArmPending \<Rightarrow> Update ((plain_update inp)\<lparr>uc_arm_pending := True\<rparr>)
           | PrimeReset \<Rightarrow> Update ((plain_update inp)\<lparr>uc_arm_reset := True\<rparr>)
           | Split reason seal new_outcome \<Rightarrow> Open (opened inp obs reason seal new_outcome)
           | _ \<Rightarrow> Keep))"

subsection \<open>Applying it\<close>

definition outcome_sealed_on_close :: "match_outcome \<Rightarrow> match_outcome option \<Rightarrow> match_outcome option" where
  "outcome_sealed_on_close stored seal = (if is_decided stored then None else decided_only seal)"

record close_record =
  cr_reason :: close_reason
  cr_seal :: "match_outcome option"

record poll_commit =
  pc_recorded_outcome :: "match_outcome option"
  pc_adopted_map :: "string option"
  pc_closed :: "close_record option"

definition arm :: "bool \<Rightarrow> bool \<Rightarrow> boundary_state \<Rightarrow> boundary_state" where
  "arm pending reset st =
     (let st = (if pending
            then st\<lparr>bs_pending_boundary := True,
              bs_reset_streak := (if bs_deferred st = None then max (bs_reset_streak st) 1 else bs_reset_streak st)\<rparr>
            else st)
      in if reset \<and> bs_deferred st = None then st\<lparr>bs_reset_streak := max (bs_reset_streak st) 1\<rparr> else st)"

definition put_mark :: "result_mark option \<Rightarrow> boundary_state \<Rightarrow> boundary_state" where
  "put_mark new st =
     (case new of
        None \<Rightarrow> st
      | Some mark \<Rightarrow>
          let locks = (case bs_result st of None \<Rightarrow> False
                | Some prev \<Rightarrow> is_decided (rm_outcome prev) \<and> rm_outcome prev \<noteq> rm_outcome mark);
              replaced = (case bs_result st of None \<Rightarrow> True
                | Some prev \<Rightarrow> rm_outcome prev \<noteq> rm_outcome mark \<or> rm_confirmed prev \<noteq> rm_confirmed mark)
          in st\<lparr>bs_text_fallback_locked := (locks \<or> bs_text_fallback_locked st),
               bs_progressed_boards := (if replaced then 0 else bs_progressed_boards st),
               bs_result := Some mark\<rparr>)"

definition record_outcome :: "match_outcome option \<Rightarrow> instant \<Rightarrow> boundary_state \<Rightarrow> match_outcome option \<times> boundary_state"
where
  "record_outcome out now st =
     (case out of
        None \<Rightarrow> (None, st)
      | Some outcome \<Rightarrow>
          if is_decided outcome \<and> \<not> is_decided (bs_outcome st)
          then (Some outcome, st\<lparr>bs_outcome := outcome, bs_outcome_at := Some now,
                 bs_pending_boundary := False, bs_awaiting_first_board := False\<rparr>)
          else (None, st))"

definition open_session :: "open_new \<Rightarrow> instant \<Rightarrow> boundary_state" where
  "open_session new now = (new_boundary (on_new_map new))\<lparr>bs_outcome := on_new_outcome new,
     bs_outcome_at := (if is_decided (on_new_outcome new) then Some now else None),
     bs_result := on_new_result new,
     bs_awaiting_first_board := (\<not> is_decided (on_new_outcome new) \<and>
       (on_reason new = ByMapVote \<or> on_reason new = ByHeroSelectOrBan))\<rparr>"

fun commit_poll :: "boundary_state \<Rightarrow> poll_decision \<Rightarrow> instant \<Rightarrow> poll_commit \<times> boundary_state" where
  "commit_poll st Keep now = (\<lparr>pc_recorded_outcome = None, pc_adopted_map = None, pc_closed = None\<rparr>, st)"
| "commit_poll st (IgnoreContradictory kept out) now =
     (\<lparr>pc_recorded_outcome = None, pc_adopted_map = None, pc_closed = None\<rparr>, st)"
| "commit_poll st (Update u) now =
     (let armed = arm (uc_arm_pending u) (uc_arm_reset u) st;
          woken = (if uc_clear_awaiting u then armed\<lparr>bs_awaiting_first_board := False\<rparr> else armed);
          (recorded, st') = record_outcome (uc_record_outcome u) now (put_mark (uc_result u) woken)
      in (\<lparr>pc_recorded_outcome = recorded, pc_adopted_map = uc_adopt_map u, pc_closed = None\<rparr>,
          case uc_adopt_map u of None \<Rightarrow> st' | Some m \<Rightarrow> st'\<lparr>bs_map := Some m\<rparr>))"
| "commit_poll st (Open new) now =
     (\<lparr>pc_recorded_outcome = None, pc_adopted_map = None,
        pc_closed = Some \<lparr>cr_reason = on_reason new,
          cr_seal = outcome_sealed_on_close (bs_outcome st) (on_seal_outcome new)\<rparr>\<rparr>,
      open_session new now)"

text \<open>The poll input that the daemon builds from the open session's fields.\<close>

record poll_tick =
  tk_signal :: "match_outcome option"
  tk_signal_confirmed :: bool
  tk_accolade_map :: "string option"
  tk_start_screen :: "start_screen option"
  tk_block_map_vote :: bool
  tk_now :: instant
  tk_replaced_map :: "string option"

text \<open>A text-fallback name that was replaced is the session's own map.\<close>

definition accolade_for_session :: "string option \<Rightarrow> string option \<Rightarrow> string \<Rightarrow> string" where
  "accolade_for_session replaced session read =
     (case (replaced, session) of
        (Some old, Some m) \<Rightarrow> if eq_ignore_ascii_case (trim read) (trim old) then m else read
      | _ \<Rightarrow> read)"

definition poll_input_of :: "boundary_state \<Rightarrow> bool \<Rightarrow> poll_tick \<Rightarrow> poll_input" where
  "poll_input_of st map_trusted tk =
     \<lparr>pi_outcome = bs_outcome st, pi_result = bs_result st, pi_pending_boundary = bs_pending_boundary st,
      pi_awaiting_first_board = bs_awaiting_first_board st, pi_has_board = (bs_gate st \<noteq> None),
      pi_reset_streak = bs_reset_streak st, pi_map = bs_map st, pi_map_trusted = map_trusted,
      pi_hero = bs_hero st, pi_signal = tk_signal tk, pi_signal_confirmed = tk_signal_confirmed tk,
      pi_accolade_map = map_option (accolade_for_session (tk_replaced_map tk) (bs_map st)) (tk_accolade_map tk), pi_start_screen = tk_start_screen tk,
      pi_block_map_vote = tk_block_map_vote tk, pi_deferred = (bs_deferred st \<noteq> None),
      pi_text_fallback_locked = bs_text_fallback_locked st, pi_now = tk_now tk\<rparr>"

end
