(* ===== verification/BoundaryCapture.thy ===== *)
theory BoundaryCapture
  imports BoundaryPoll
begin

text \<open>
  One scoreboard capture of the session machine (\<open>crates/stat-tracker/src/boundary.rs\<close>): the comparisons of two
  boards, \<open>plan_capture_held\<close>, \<open>note_accepted_capture\<close>, and the late Tab of a finished game.
\<close>

subsection \<open>Comparing two boards\<close>

definition reset_min_age :: duration where
  "reset_min_age = from_secs 45"

definition short_all_increase :: duration where
  "short_all_increase = from_secs 60"

definition abs_diff :: "nat \<Rightarrow> nat \<Rightarrow> nat" where
  "abs_diff a b = (if a \<le> b then b - a else a - b)"

definition corroborates :: "nat \<Rightarrow> nat \<Rightarrow> bool" where
  "corroborates prev_raw cur \<longleftrightarrow> abs_diff prev_raw cur \<le> max 2 (cur div 10)"

definition raw_dropped :: "nat \<Rightarrow> nat \<Rightarrow> bool" where
  "raw_dropped prev_raw cur \<longleftrightarrow> cur < prev_raw \<and> \<not> corroborates prev_raw cur"

definition sharp_vote :: "nat \<Rightarrow> nat \<Rightarrow> nat \<Rightarrow> bool \<Rightarrow> bool \<Rightarrow> bool" where
  "sharp_vote acc raw cur cur_suspect raw_suspect =
     (if cur_suspect \<or> acc < 4 \<or> acc \<le> sat_mul cur 2 then False
      else if raw_suspect then True else raw_dropped raw cur)"

definition post_result_stat_reset :: "gate_state \<Rightarrow> counters \<Rightarrow> bool cols \<Rightarrow> bool" where
  "post_result_stat_reset prev cur cur_suspect =
     (let sharp = (\<lambda>col. sharp_vote (to_array (accepted prev) col) (to_array (last_raw prev) col)
            (to_array cur col) (cur_suspect col) (last_raw_suspect prev col))
      in 2 \<le> length (filter sharp edd_cols) \<or> 3 \<le> length (filter sharp gate_cols))"

definition known_cols :: "gate_state \<Rightarrow> bool cols \<Rightarrow> bool cols" where
  "known_cols prev held = (\<lambda>col. \<not> held col \<and> \<not> unread prev col)"

definition uniform_two_to_four_times :: "counters \<Rightarrow> counters \<Rightarrow> bool cols \<Rightarrow> bool" where
  "uniform_two_to_four_times prev cur known =
     (let comparable = filter (\<lambda>col. \<not> (to_array prev col < 4 \<or> \<not> known col)) gate_cols
      in list_all (\<lambda>col. sat_mul (to_array prev col) 2 \<le> to_array cur col \<and>
           to_array cur col \<le> sat_mul (to_array prev col) 4) comparable \<and> 3 \<le> length comparable)"

definition growth_ceiling :: "nat \<Rightarrow> nat \<Rightarrow> nat" where
  "growth_ceiling col secs =
     (if col \<le> 2 then sat_add (as_u32 (secs div 5)) 8
      else sat_add (sat_mul (as_u32 secs) 80) 2500)"

definition implausible_growth :: "gate_state \<Rightarrow> counters \<Rightarrow> bool cols \<Rightarrow> duration \<Rightarrow> bool" where
  "implausible_growth prev cur held elapsed =
     (let known = known_cols prev held; acc = to_array (accepted prev); now = to_array cur in
      elapsed < short_all_increase \<and> uniform_two_to_four_times (accepted prev) cur known \<or>
      list_ex (\<lambda>col. known col \<and> acc col < now col \<and>
          growth_ceiling col (min (as_secs elapsed + held_secs prev col) u64_max) < now col - acc col) gate_cols)"

definition counters_progressed :: "counters \<Rightarrow> counters \<Rightarrow> bool cols \<Rightarrow> bool" where
  "counters_progressed prev cur known \<longleftrightarrow>
     list_ex (\<lambda>col. known col \<and> to_array prev col < to_array cur col) gate_cols \<and>
     \<not> list_ex (\<lambda>col. known col \<and> to_array cur col < to_array prev col) edd_cols"

definition mature_board :: "counters \<Rightarrow> bool cols \<Rightarrow> bool" where
  "mature_board prev known \<longleftrightarrow> known 0 \<and> 4 \<le> elims prev \<or> known 3 \<and> 400 \<le> damage prev"

definition under_fresh_match :: "counters \<Rightarrow> counters \<Rightarrow> bool cols \<Rightarrow> bool" where
  "under_fresh_match prev cur known \<longleftrightarrow>
     (\<not> known 0 \<or> elims cur \<le> max 2 (elims prev div 4)) \<and>
     (\<not> known 2 \<or> deaths cur \<le> max 1 (deaths prev div 4)) \<and>
     (\<not> known 3 \<or> damage cur \<le> damage prev div 4)"

definition edd_clean :: "bool cols \<Rightarrow> bool cols \<Rightarrow> bool" where
  "edd_clean suspect held \<longleftrightarrow> list_all (\<lambda>col. \<not> suspect col \<or> held col) edd_cols"

definition same_baseline_row :: "nat option \<Rightarrow> nat option \<Rightarrow> bool" where
  "same_baseline_row baseline_row row_id \<longleftrightarrow> baseline_row \<noteq> None \<and> baseline_row = row_id"

subsection \<open>The plan\<close>

record plan_input =
  ci_prev_gate :: "gate_state option"
  ci_baseline :: "gate_state option"
  ci_streak :: nat
  ci_cur :: counters
  ci_suspect :: "bool cols"
  ci_create_session :: bool
  ci_suppress_same_unfinished :: bool
  ci_age :: "duration option"
  ci_min_gap :: duration
  ci_classic_regressed :: bool
  ci_row_counts :: bool
  ci_row_id :: "nat option"
  ci_baseline_row :: "nat option"
  ci_confirmed_end :: bool
  ci_inherited_outcome :: match_outcome
  ci_frame_outcome :: match_outcome
  ci_session_hero :: "string option"
  ci_hint :: "match_outcome option"
  ci_baseline_age :: "duration option"
  ci_progressed_boards :: nat
  ci_pending_boundary :: bool
  ci_awaiting_first_board :: bool
  ci_session_map :: "string option"
  ci_session_map_source :: "map_source option"
  ci_incoming_map :: "string option"

record capture_plan =
  cp_split :: bool
  cp_defer :: bool
  cp_ignore_row :: bool
  cp_skip_store :: bool
  cp_clear_hint :: bool
  cp_reset_streak :: nat
  cp_reset_baseline :: "gate_state option"
  cp_baseline_row :: "nat option"
  cp_refresh_baseline :: bool
  cp_count_progress :: bool
  cp_stored_outcome :: match_outcome
  cp_deferred_counters :: "counters option"
  cp_seal :: "match_outcome option"
  cp_close_reason :: "close_reason option"

record board_doubt =
  bd_held :: "bool cols"
  bd_suspect_row :: bool
  bd_board_deferred :: bool

definition no_doubt :: board_doubt where
  "no_doubt = \<lparr>bd_held = (\<lambda>_. False), bd_suspect_row = False, bd_board_deferred = False\<rparr>"

definition or_option :: "'a option \<Rightarrow> 'a option \<Rightarrow> 'a option" where
  "or_option x y = (case x of None \<Rightarrow> y | Some _ \<Rightarrow> x)"

definition at_least :: "duration option \<Rightarrow> duration \<Rightarrow> bool" where
  "at_least age limit = (case age of None \<Rightarrow> False | Some d \<Rightarrow> limit \<le> d)"

definition hinted_different_map :: "plan_input \<Rightarrow> bool" where
  "hinted_different_map inp =
     (if ci_confirmed_end inp \<or> decided_only (ci_hint inp) = None then False
      else case (named_map (ci_session_map inp), named_map (ci_incoming_map inp)) of
        (Some session, Some incoming) \<Rightarrow>
          if eq_ignore_ascii_case session incoming then False
          else if ci_prev_gate inp = None then True
          else (case ci_session_map_source inp of None \<Rightarrow> False | Some src \<Rightarrow> trusted_for_board_split src) \<and>
            at_least (ci_age inp) (ci_min_gap inp)
      | _ \<Rightarrow> False)"

definition compare_age :: "plan_input \<Rightarrow> duration option" where
  "compare_age inp =
     (if ci_baseline inp \<noteq> None then or_option (ci_baseline_age inp) (ci_age inp) else ci_age inp)"

definition is_fresh_reset :: "plan_input \<Rightarrow> bool cols \<Rightarrow> gate_state option \<Rightarrow> bool \<Rightarrow> bool" where
  "is_fresh_reset inp held compare implausible =
     (case compare of
        None \<Rightarrow> False
      | Some prev \<Rightarrow>
          let known = known_cols prev held in
          same_baseline_row (ci_baseline_row inp) (ci_row_id inp) \<and> ci_row_counts inp \<and>
          edd_clean (ci_suspect inp) held \<and> 2 \<le> length (filter known edd_cols) \<and> \<not> implausible \<and>
          mature_board (accepted prev) known \<and> at_least (compare_age inp) reset_min_age \<and>
          under_fresh_match (accepted prev) (ci_cur inp) known)"

text \<open>The state of the session as the plan packs it; the hint's time is not read.\<close>

definition plan_state :: "plan_input \<Rightarrow> board_doubt \<Rightarrow> instant \<Rightarrow> boundary_state" where
  "plan_state inp doubt t = (new_boundary None)\<lparr>
     bs_deferred := (if bd_board_deferred doubt then Some no_counters else None),
     bs_outcome := ci_inherited_outcome inp, bs_reset_streak := ci_streak inp,
     bs_reset_baseline := ci_baseline inp, bs_baseline_row := ci_baseline_row inp, bs_gate := ci_prev_gate inp,
     bs_hero := ci_session_hero inp, bs_pending_boundary := ci_pending_boundary inp,
     bs_progressed_boards := ci_progressed_boards inp,
     bs_awaiting_first_board := ci_awaiting_first_board inp,
     bs_result := (case decided_only (ci_hint inp) of None \<Rightarrow> None
        | Some out \<Rightarrow> if ci_confirmed_end inp then None
            else Some \<lparr>rm_outcome = out, rm_confirmed = False, rm_seen_at = t\<rparr>)\<rparr>"

definition reset_shaped :: "plan_input \<Rightarrow> bool cols \<Rightarrow> bool" where
  "reset_shaped inp held \<longleftrightarrow>
     same_baseline_row (ci_baseline_row inp) (ci_row_id inp) \<and>
     (case or_option (ci_baseline inp) (ci_prev_gate inp) of
        None \<Rightarrow> False
      | Some gate \<Rightarrow> mature_board (accepted gate) (known_cols gate held) \<and>
          under_fresh_match (accepted gate) (ci_cur inp) (known_cols gate held))"

definition fresh_shaped :: "plan_input \<Rightarrow> bool cols \<Rightarrow> bool" where
  "fresh_shaped inp held =
     (case or_option (ci_baseline inp) (ci_prev_gate inp) of
        None \<Rightarrow> False
      | Some gate \<Rightarrow> under_fresh_match (accepted gate) (ci_cur inp) (known_cols gate held))"

definition refreshes :: "plan_input \<Rightarrow> board_doubt \<Rightarrow> bool \<Rightarrow> bool" where
  "refreshes inp doubt implausible \<longleftrightarrow>
     ci_row_id inp \<noteq> None \<and> ci_row_counts inp \<and> \<not> implausible \<and> \<not> reset_shaped inp (bd_held doubt) \<and>
     ((ci_baseline_row inp = None \<or> same_baseline_row (ci_baseline_row inp) (ci_row_id inp)) \<or>
      \<not> fresh_shaped inp (bd_held doubt) \<and> \<not> bd_suspect_row doubt)"

definition stored_if_stay :: "plan_input \<Rightarrow> match_outcome" where
  "stored_if_stay inp =
     (if is_decided (ci_inherited_outcome inp) then ci_inherited_outcome inp else ci_frame_outcome inp)"

text \<open>The plan of a board that is stored; \<open>None\<close> where the code is unreachable.\<close>

definition stored_plan :: "plan_input \<Rightarrow> board_doubt \<Rightarrow> boundary_effect \<Rightarrow> bool \<Rightarrow> capture_plan" where
  "stored_plan inp doubt eff implausible =
     (let refresh = refreshes inp doubt implausible;
          counts = (ci_row_counts inp \<and> \<not> bd_suspect_row doubt);
          counted_progress = (counts \<and> (eff = CountProgress \<or> eff = ClearHintAndAppend))
      in \<lparr>cp_split = False, cp_defer = False, cp_ignore_row = False, cp_skip_store = False,
          cp_clear_hint = (eff = ClearHintAndAppend \<and> counts),
          cp_reset_streak = (if refresh \<or> counted_progress then 0 else ci_streak inp),
          cp_reset_baseline = (if refresh then None else ci_baseline inp),
          cp_baseline_row = (if refresh then ci_row_id inp else ci_baseline_row inp),
          cp_refresh_baseline = refresh,
          cp_count_progress = (eff = CountProgress \<and> counts),
          cp_stored_outcome = stored_if_stay inp, cp_deferred_counters = None,
          cp_seal = None, cp_close_reason = None\<rparr>)"

definition deferred_plan :: "plan_input \<Rightarrow> board_doubt \<Rightarrow> capture_plan" where
  "deferred_plan inp doubt =
     \<lparr>cp_split = False, cp_defer = True, cp_ignore_row = False, cp_skip_store = True, cp_clear_hint = False,
      cp_reset_streak = sat_add (ci_streak inp) 1,
      cp_reset_baseline = or_option (ci_baseline inp) (ci_prev_gate inp),
      cp_baseline_row = or_option (ci_baseline_row inp) (ci_row_id inp),
      cp_refresh_baseline = False, cp_count_progress = False, cp_stored_outcome = stored_if_stay inp,
      cp_deferred_counters = (if \<not> list_ex (bd_held doubt) gate_cols \<and> \<not> bd_suspect_row doubt
        then Some (ci_cur inp) else None),
      cp_seal = None, cp_close_reason = None\<rparr>"

definition split_plan :: "plan_input \<Rightarrow> close_reason \<Rightarrow> match_outcome option \<Rightarrow> match_outcome \<Rightarrow> capture_plan" where
  "split_plan inp reason seal new_outcome =
     \<lparr>cp_split = True, cp_defer = False, cp_ignore_row = False, cp_skip_store = False, cp_clear_hint = False,
      cp_reset_streak = 0, cp_reset_baseline = None, cp_baseline_row = ci_row_id inp,
      cp_refresh_baseline = False, cp_count_progress = False, cp_stored_outcome = new_outcome,
      cp_deferred_counters = None, cp_seal = seal, cp_close_reason = Some reason\<rparr>"

definition plan_from_effect ::
  "plan_input \<Rightarrow> board_doubt \<Rightarrow> boundary_effect \<Rightarrow> bool \<Rightarrow> capture_plan option" where
  "plan_from_effect inp doubt eff implausible =
     (case eff of
        Append \<Rightarrow> Some (stored_plan inp doubt eff implausible)
      | ClearHintAndAppend \<Rightarrow> Some (stored_plan inp doubt eff implausible)
      | CountProgress \<Rightarrow> Some (stored_plan inp doubt eff implausible)
      | Defer \<Rightarrow> Some (deferred_plan inp doubt)
      | Split reason seal new_outcome \<Rightarrow> Some (split_plan inp reason seal new_outcome)
      | _ \<Rightarrow> None)"

definition implausible_board :: "plan_input \<Rightarrow> bool cols \<Rightarrow> bool" where
  "implausible_board inp held =
     (case or_option (ci_baseline inp) (ci_prev_gate inp) of
        None \<Rightarrow> False
      | Some gate \<Rightarrow> implausible_growth gate (ci_cur inp) held
          (case or_option (ci_baseline_age inp) (ci_age inp) of None \<Rightarrow> 0 | Some d \<Rightarrow> d))"

definition board_seen :: "plan_input \<Rightarrow> board_doubt \<Rightarrow> board_obs" where
  "board_seen inp doubt =
     (let held = bd_held doubt; compare = or_option (ci_baseline inp) (ci_prev_gate inp);
          implausible = implausible_board inp held
      in \<lparr>bo_fresh_reset = is_fresh_reset inp held compare implausible,
          bo_progressed = (\<not> implausible \<and> (case compare of None \<Rightarrow> False
            | Some gate \<Rightarrow> counters_progressed (accepted gate) (ci_cur inp) (known_cols gate held))),
          bo_implausible = implausible, bo_frame_outcome = ci_frame_outcome inp,
          bo_suspect_row = bd_suspect_row doubt\<rparr>)"

definition gap_applies :: "plan_input \<Rightarrow> bool" where
  "gap_applies inp \<longleftrightarrow>
     \<not> ci_confirmed_end inp \<and> \<not> ci_suppress_same_unfinished inp \<and> at_least (ci_age inp) (ci_min_gap inp) \<and>
     ci_classic_regressed inp \<and> \<not> ci_create_session inp \<and> \<not> ci_awaiting_first_board inp"

definition is_split :: "boundary_effect \<Rightarrow> bool" where
  "is_split eff = (case eff of Split _ _ _ \<Rightarrow> True | _ \<Rightarrow> False)"

definition plan_capture_held :: "plan_input \<Rightarrow> board_doubt \<Rightarrow> instant \<Rightarrow> capture_plan option" where
  "plan_capture_held inp doubt t =
     (let st = plan_state inp doubt t;
          mapped = fst (transition st (HintedDifferentMap (ci_frame_outcome inp)));
          gapped = fst (transition st (GapObs (ci_frame_outcome inp)))
      in if hinted_different_map inp \<and> is_split mapped then plan_from_effect inp doubt mapped False
         else if gap_applies inp \<and> is_split gapped then plan_from_effect inp doubt gapped False
         else plan_from_effect inp doubt (fst (transition st (BoardObs (board_seen inp doubt))))
                (implausible_board inp (bd_held doubt)))"

definition plan_capture :: "plan_input \<Rightarrow> instant \<Rightarrow> capture_plan option" where
  "plan_capture inp t = plan_capture_held inp no_doubt t"

subsection \<open>Folding an accepted capture\<close>

text \<open>The gate without its anchor, and the baseline that the anchor or the gate itself gives.\<close>

definition monotonic_gate :: "gate_state \<Rightarrow> gate_state" where
  "monotonic_gate gate = gate\<lparr>boundary_anchor := None\<rparr>"

definition anchor_gate :: "gate_state \<Rightarrow> gate_state" where
  "anchor_gate gate =
     (case boundary_anchor gate of
        None \<Rightarrow> monotonic_gate gate
      | Some raw \<Rightarrow> default_gate\<lparr>accepted := raw, last_raw := raw\<rparr>)"

definition note_accepted_capture :: "boundary_state \<Rightarrow> capture_plan \<Rightarrow> gate_state \<Rightarrow> instant \<Rightarrow> boundary_state" where
  "note_accepted_capture st plan gate now =
     (if cp_ignore_row plan then st
      else if cp_defer plan
      then st\<lparr>bs_baseline_at := (if bs_reset_baseline st = None \<and> cp_reset_baseline plan \<noteq> None
              then bs_last_board_at st else bs_baseline_at st),
            bs_reset_streak := cp_reset_streak plan, bs_reset_baseline := cp_reset_baseline plan,
            bs_baseline_row := cp_baseline_row plan, bs_deferred := cp_deferred_counters plan\<rparr>
      else
        let st' = st\<lparr>bs_deferred := (if cp_refresh_baseline plan \<or> cp_count_progress plan \<or> cp_clear_hint plan
                then None else bs_deferred st),
              bs_gate := Some (monotonic_gate gate), bs_reset_streak := cp_reset_streak plan,
              bs_reset_baseline := (if cp_refresh_baseline plan then Some (anchor_gate gate)
                else cp_reset_baseline plan),
              bs_baseline_row := cp_baseline_row plan, bs_last_board_at := Some now,
              bs_awaiting_first_board := False,
              bs_baseline_at := (if cp_refresh_baseline plan then Some now else bs_baseline_at st),
              bs_progressed_boards := (if cp_count_progress plan then min (bs_progressed_boards st + 1) 255
                else bs_progressed_boards st)\<rparr>;
            confirmed = (is_decided (bs_outcome st') \<or>
              (case bs_result st' of None \<Rightarrow> False | Some mark \<Rightarrow> rm_confirmed mark))
        in if cp_clear_hint plan \<and> \<not> confirmed
           then st'\<lparr>bs_result := None, bs_pending_boundary := False, bs_progressed_boards := 0,
             bs_text_fallback_locked := False\<rparr>
           else st')"

subsection \<open>A late Tab of a finished game\<close>

datatype finished_tab = NewGame | SameBoard | StillPlaying

definition probe_mature :: "counters \<Rightarrow> bool cols \<Rightarrow> bool" where
  "probe_mature prev known \<longleftrightarrow>
     known 0 \<and> known 2 \<and> known 3 \<and> 4 \<le> elims prev \<and> 2 \<le> deaths prev \<and> 1500 \<le> damage prev"

definition small_step :: "nat \<Rightarrow> nat \<Rightarrow> nat \<Rightarrow> bool" where
  "small_step col before now =
     (if col \<le> 2 then before - now \<le> 1 else sat_mul (before - now) 10 \<le> before)"

definition finished_game_tab ::
  "gate_state \<Rightarrow> string option \<Rightarrow> string option \<Rightarrow> counters \<Rightarrow> bool cols \<Rightarrow> bool cols \<Rightarrow> bool \<Rightarrow> duration \<Rightarrow> bool
     \<Rightarrow> finished_tab" where
  "finished_game_tab prev session_map incoming_map cur suspect held own_row_trusted elapsed board_after_result =
     (let same_map = (case (named_map session_map, named_map incoming_map) of
            (Some session, Some incoming) \<Rightarrow> eq_ignore_ascii_case session incoming | _ \<Rightarrow> False);
          known = (\<lambda>col. \<not> held col \<and> \<not> suspect col \<and> \<not> unread prev col \<and> \<not> unconfirmed prev col);
          before = to_array (accepted prev); now = to_array cur;
          fell = filter (\<lambda>col. known col \<and> now col < before col) gate_cols;
          grew = length (filter (\<lambda>col. known col \<and> before col < now col) gate_cols)
      in if \<not> same_map \<or> \<not> own_row_trusted then NewGame
         else if \<not> probe_mature (accepted prev) known then NewGame
         else if 1 < length fell \<or> list_ex (\<lambda>col. \<not> small_step col (before col) (now col)) fell then NewGame
         else if implausible_growth prev cur (\<lambda>col. \<not> known col) elapsed then NewGame
         else if 2 \<le> grew then (if board_after_result then StillPlaying else NewGame)
         else if fell = [] then SameBoard else NewGame)"

end
