(* ===== verification/BoundaryRules.thy ===== *)
theory BoundaryRules
  imports BoundaryCapture
begin

text \<open>
  The session machine of the stat tracker against its documentation: the table of \<open>boundary.rs\<close> as a
  relation, well-formed sessions, and the runs of an open session over polls and captures.
\<close>

subsection \<open>The documented table\<close>

abbreviation hears_words :: "boundary_state \<Rightarrow> bool" where
  "hears_words st \<equiv> phase_of st \<in> {Idle, LiveMatch, PostResultStreak}"

abbreviation before_result :: "boundary_state \<Rightarrow> bool" where
  "before_result st \<equiv> phase_of st \<in> {Idle, LiveMatch}"

text \<open>One rule for each row; a row about a map that is not trusted carries the map relation of the read.\<close>

inductive documented :: "boundary_state \<Rightarrow> observation \<Rightarrow> boundary_effect \<Rightarrow> bool" where
  seals: "hears_words st \<or> phase_of st = NewGameStarting \<Longrightarrow> documented st (ConfirmedWord out) (Seal out)"
| remembers: "hears_words st \<Longrightarrow> rel = Matches \<or> rel = Absent \<and> \<not> bs_pending_boundary st \<Longrightarrow>
    documented st (UnconfirmedWord out rel) (RememberHint out)"
| other_map: "hears_words st \<Longrightarrow> rel = Differs \<or> rel = Absent \<and> bs_pending_boundary st \<Longrightarrow>
    documented st (UnconfirmedWord out rel) Ignore"
| starting_remembers: "phase_of st = NewGameStarting \<Longrightarrow> rel \<noteq> Differs \<Longrightarrow>
    documented st (UnconfirmedWord out rel) (RememberHint out)"
| starting_other_map: "phase_of st = NewGameStarting \<Longrightarrow> rel = Differs \<Longrightarrow>
    documented st (UnconfirmedWord out rel) Ignore"
| finished_word: "phase_of st = PostMatch \<Longrightarrow> documented st (ConfirmedWord out) Ignore"
| finished_unconfirmed: "phase_of st = PostMatch \<Longrightarrow> documented st (UnconfirmedWord out rel) Ignore"
| vote_blocked: "documented st (StartScreenObs (MapVote cs) True) Ignore"
| vote: "before_result st \<Longrightarrow> documented st (StartScreenObs (MapVote cs) False) (Split ByMapVote None Unknown)"
| ban: "before_result st \<Longrightarrow> bs_deferred st = None \<Longrightarrow>
    documented st (StartScreenObs HeroBan blocked) (Split ByHeroSelectOrBan None Unknown)"
| ban_deferred: "before_result st \<Longrightarrow> bs_deferred st \<noteq> None \<Longrightarrow> documented st (StartScreenObs HeroBan blocked) Ignore"
| select: "before_result st \<Longrightarrow> bs_deferred st = None \<Longrightarrow>
    documented st (StartScreenObs HeroSelect blocked) PrimeReset"
| select_deferred: "before_result st \<Longrightarrow> bs_deferred st \<noteq> None \<Longrightarrow>
    documented st (StartScreenObs HeroSelect blocked) Ignore"
| streak_vote: "phase_of st = PostResultStreak \<Longrightarrow>
    documented st (StartScreenObs (MapVote cs) False) (Split ByMapVote (sealable_hint st) Unknown)"
| streak_ban: "phase_of st = PostResultStreak \<Longrightarrow>
    documented st (StartScreenObs HeroBan blocked) (Split ByHeroSelectOrBan (sealable_hint st) Unknown)"
| streak_select: "phase_of st = PostResultStreak \<Longrightarrow> bs_gate st = None \<Longrightarrow>
    documented st (StartScreenObs HeroSelect blocked) (Split ByHeroSelectOrBan (sealable_hint st) Unknown)"
| streak_arms: "phase_of st = PostResultStreak \<Longrightarrow> bs_gate st \<noteq> None \<Longrightarrow>
    documented st (StartScreenObs HeroSelect blocked) ArmPending"
| finished_vote: "phase_of st = PostMatch \<Longrightarrow>
    documented st (StartScreenObs (MapVote cs) False) (Split ByMapVote None Unknown)"
| finished_screen: "phase_of st = PostMatch \<Longrightarrow> screen = HeroSelect \<or> screen = HeroBan \<Longrightarrow>
    documented st (StartScreenObs screen blocked) (Split ByHeroSelectOrBan None Unknown)"
| starting_select: "phase_of st = NewGameStarting \<Longrightarrow> documented st (StartScreenObs HeroSelect blocked) Ignore"
| starting_vote: "phase_of st = NewGameStarting \<Longrightarrow>
    documented st (StartScreenObs (MapVote cs) False) (Split ByMapVote None Unknown)"
| starting_ban: "phase_of st = NewGameStarting \<Longrightarrow>
    documented st (StartScreenObs HeroBan False) (Split ByHeroSelectOrBan None Unknown)"
| starting_ban_early: "phase_of st = NewGameStarting \<Longrightarrow> documented st (StartScreenObs HeroBan True) Ignore"
| first_board: "phase_of st = Idle \<or> phase_of st = NewGameStarting \<Longrightarrow> documented st (BoardObs b) Append"
| live_split: "phase_of st = LiveMatch \<Longrightarrow> bo_fresh_reset b \<Longrightarrow> 1 \<le> bs_reset_streak st \<Longrightarrow>
    documented st (BoardObs b) (Split ByStatReset None Unknown)"
| live_defer: "phase_of st = LiveMatch \<Longrightarrow> bo_fresh_reset b \<Longrightarrow> bs_reset_streak st = 0 \<Longrightarrow>
    documented st (BoardObs b) Defer"
| live_board: "phase_of st = LiveMatch \<Longrightarrow> \<not> bo_fresh_reset b \<Longrightarrow> documented st (BoardObs b) Append"
| streak_split: "phase_of st = PostResultStreak \<Longrightarrow> bo_fresh_reset b \<Longrightarrow>
    1 \<le> bs_reset_streak st \<or> bs_pending_boundary st \<Longrightarrow>
    documented st (BoardObs b) (Split ByStatReset (sealable_hint st) Unknown)"
| streak_defer: "phase_of st = PostResultStreak \<Longrightarrow> bo_fresh_reset b \<Longrightarrow> bs_reset_streak st = 0 \<Longrightarrow>
    \<not> bs_pending_boundary st \<Longrightarrow> documented st (BoardObs b) Defer"
| streak_progress: "phase_of st = PostResultStreak \<Longrightarrow> \<not> bo_fresh_reset b \<Longrightarrow> bo_progressed b \<Longrightarrow>
    \<not> bo_implausible b \<Longrightarrow> \<not> is_decided (bo_frame_outcome b) \<Longrightarrow> bs_progressed_boards st = 0 \<Longrightarrow>
    \<not> bs_pending_boundary st \<Longrightarrow> documented st (BoardObs b) CountProgress"
| streak_over: "phase_of st = PostResultStreak \<Longrightarrow> \<not> bo_fresh_reset b \<Longrightarrow> bo_progressed b \<Longrightarrow>
    \<not> bo_implausible b \<Longrightarrow> \<not> is_decided (bo_frame_outcome b) \<Longrightarrow>
    1 \<le> bs_progressed_boards st \<or> bs_pending_boundary st \<Longrightarrow> documented st (BoardObs b) ClearHintAndAppend"
| streak_same: "phase_of st = PostResultStreak \<Longrightarrow> \<not> bo_fresh_reset b \<Longrightarrow>
    \<not> bo_progressed b \<or> bo_implausible b \<or> is_decided (bo_frame_outcome b) \<Longrightarrow> documented st (BoardObs b) Append"
| finished_board: "phase_of st = PostMatch \<Longrightarrow> \<not> bo_fresh_reset b \<Longrightarrow> documented st (BoardObs b) Append"
| finished_defer: "phase_of st = PostMatch \<Longrightarrow> bo_fresh_reset b \<Longrightarrow> bs_reset_streak st = 0 \<Longrightarrow>
    documented st (BoardObs b) Defer"
| finished_split: "phase_of st = PostMatch \<Longrightarrow> bo_fresh_reset b \<Longrightarrow> 1 \<le> bs_reset_streak st \<Longrightarrow>
    documented st (BoardObs b) (Split ByStatReset None Unknown)"
| no_gap: "phase_of st \<in> {Idle, NewGameStarting, PostMatch} \<Longrightarrow> documented st (GapObs hdr) Ignore"
| live_gap: "phase_of st = LiveMatch \<Longrightarrow> documented st (GapObs hdr) (Split ByStatRegression None hdr)"
| streak_gap: "phase_of st = PostResultStreak \<Longrightarrow>
    documented st (GapObs hdr) (Split ByStatRegression (sealable_hint st) hdr)"
| no_end: "phase_of st \<in> {Idle, NewGameStarting, PostMatch} \<Longrightarrow> documented st (EndScreenDifferentMap out m) Ignore"
| live_end: "phase_of st = LiveMatch \<Longrightarrow>
    documented st (EndScreenDifferentMap out m) (Split ByEndScreenMap None out)"
| streak_end: "phase_of st = PostResultStreak \<Longrightarrow>
    documented st (EndScreenDifferentMap out m) (Split ByEndScreenMap (sealable_hint st) out)"
| streak_hinted: "phase_of st = PostResultStreak \<Longrightarrow>
    documented st (HintedDifferentMap hdr) (Split ByStatRegression (sealable_hint st) hdr)"

subsection \<open>Well-formed sessions\<close>

definition session_ok :: "boundary_state \<Rightarrow> bool" where
  "session_ok st \<longleftrightarrow>
     (is_decided (bs_outcome st) \<longrightarrow> sealable_hint st = None \<and> \<not> bs_pending_boundary st) \<and>
     (bs_pending_boundary st \<longrightarrow> sealable_hint st \<noteq> None) \<and>
     (case bs_result st of None \<Rightarrow> True
      | Some mark \<Rightarrow> is_decided (rm_outcome mark) \<and> (rm_confirmed mark \<longrightarrow> is_decided (bs_outcome st))) \<and>
     (bs_awaiting_first_board st \<longrightarrow> bs_gate st = None \<and> bs_reset_baseline st = None \<and> bs_reset_streak st = 0 \<and>
        sealable_hint st = None) \<and>
     (bs_reset_baseline st \<noteq> None \<longrightarrow> bs_gate st \<noteq> None)"

text \<open>What the callers observe: a reset needs a board to fall from, a hinted Tab needs a hint.\<close>

definition observable :: "boundary_state \<Rightarrow> observation \<Rightarrow> bool" where
  "observable st obs =
     (case obs of
        BoardObs b \<Rightarrow> \<not> bo_suspect_row b \<and> (bo_fresh_reset b \<longrightarrow> bs_gate st \<noteq> None)
      | HintedDifferentMap _ \<Rightarrow> phase_of st = PostResultStreak
      | _ \<Rightarrow> True)"

lemma hint_phase: "sealable_hint st = None \<Longrightarrow> phase_of st \<noteq> PostResultStreak"
  by (simp add: phase_simps)

lemma no_hint:
  "session_ok st \<Longrightarrow> phase_of st \<noteq> PostResultStreak \<Longrightarrow> sealable_hint st = None"
  by (auto simp: session_ok_def phase_simps)

lemma no_pending:
  "session_ok st \<Longrightarrow> phase_of st \<noteq> PostResultStreak \<Longrightarrow> \<not> bs_pending_boundary st"
  by (auto simp: session_ok_def phase_simps)

lemma idle_no_gate: "phase_of st = Idle \<Longrightarrow> bs_gate st = None"
  by (auto simp: phase_of_def split: if_splits)

lemma starting_no_gate: "session_ok st \<Longrightarrow> phase_of st = NewGameStarting \<Longrightarrow> bs_gate st = None"
  by (auto simp: session_ok_def phase_simps)

inductive_simps documented_word [simp]:
  "documented st (ConfirmedWord out) e" "documented st (UnconfirmedWord out rel) e"

inductive_simps documented_screen [simp]:
  "documented st (StartScreenObs (MapVote cs) blocked) e" "documented st (StartScreenObs HeroSelect blocked) e"
  "documented st (StartScreenObs HeroBan blocked) e"

inductive_simps documented_board [simp]:
  "documented st (BoardObs b) e" "documented st (GapObs hdr) e"
  "documented st (EndScreenDifferentMap out m) e" "documented st (HintedDifferentMap hdr) e"

lemma streak_board:
  assumes "phase_of st = PostResultStreak"
  shows "documented st (BoardObs b) e \<longleftrightarrow> e = (if bo_fresh_reset b
      then (if 1 \<le> bs_reset_streak st \<or> bs_pending_boundary st then Split ByStatReset (sealable_hint st) Unknown else Defer)
      else if bo_progressed b \<and> \<not> bo_implausible b \<and> \<not> is_decided (bo_frame_outcome b)
      then (if bs_pending_boundary st \<or> 1 \<le> bs_progressed_boards st then ClearHintAndAppend else CountProgress)
      else Append)"
  unfolding documented_board using assms
  by (cases "bo_fresh_reset b"; cases "bs_reset_streak st"; cases "bs_pending_boundary st";
      cases "bs_progressed_boards st"; cases "bo_progressed b"; cases "bo_implausible b";
      cases "is_decided (bo_frame_outcome b)") simp_all

lemma documented_boards:
  assumes ok: "session_ok st" and obs: "observable st (BoardObs b)"
  shows "documented st (BoardObs b) e \<longleftrightarrow> e = board_effect st b"
proof (cases "phase_of st = PostResultStreak")
  case True
  moreover from this have "sealable_hint st \<noteq> None \<and> \<not> is_decided (bs_outcome st)" by (simp add: phase_simps)
  ultimately show ?thesis
    using obs by (simp only: streak_board board_effect_def reset_commits_def) (simp add: observable_def)
next
  case False
  note none = no_hint [OF ok False] no_pending [OF ok False]
  show ?thesis
  proof (cases "bo_fresh_reset b")
    case True
    then have "phase_of st \<noteq> Idle" "phase_of st \<noteq> NewGameStarting"
      using obs idle_no_gate [of st] starting_no_gate [OF ok] by (auto simp: observable_def)
    then have "phase_of st = LiveMatch \<or> phase_of st = PostMatch" using False by (cases "phase_of st") auto
    then show ?thesis using True none obs
      by (cases "bs_reset_streak st") (auto simp: board_effect_def reset_commits_def observable_def)
  next
    case no_reset: False
    then show ?thesis using none False by (cases "phase_of st") (auto simp: board_effect_def)
  qed
qed

lemma documented_transition:
  assumes ok: "session_ok st" and obs: "observable st obs"
  shows "documented st obs e \<longleftrightarrow> e = transition_effect st obs"
proof (cases obs)
  case (ConfirmedWord out)
  then show ?thesis by (cases "phase_of st") (auto simp: confirmed_word_def)
next
  case (UnconfirmedWord out rel)
  then show ?thesis using no_pending [OF ok]
    by (cases "phase_of st"; cases rel) (auto simp: unconfirmed_word_def)
next
  case (StartScreenObs screen blocked)
  then show ?thesis using no_hint [OF ok]
    by (cases "phase_of st"; cases screen; cases blocked) auto
next
  case (BoardObs b)
  then show ?thesis using documented_boards [OF ok] obs by simp
next
  case (GapObs hdr)
  then show ?thesis using no_hint [OF ok]
    by (cases "phase_of st") (auto simp: gap_effect_def is_decided_def)
next
  case (EndScreenDifferentMap out m)
  then show ?thesis using no_hint [OF ok] by (cases "phase_of st") (auto simp: end_screen_def)
next
  case (HintedDifferentMap hdr)
  then show ?thesis using obs by (auto simp: gap_effect_def is_decided_def observable_def)
qed

end
