(* ===== verification/BoundaryRuns.thy ===== *)
theory BoundaryRuns
  imports BoundaryRules
begin

text \<open>
  Runs of the session machine as the daemon drives it (\<open>apply_poll_decision\<close> and \<open>apply_capture_report\<close> of
  \<open>crates/stat-tracker/src/main.rs\<close>): polls with any screen content, captures with any board, and results
  read off a frame. A capture is folded into the session that it was planned on. A run remembers the outcomes of the
  sessions it closed and counts the reset signals of the open one.
\<close>

subsection \<open>What is packed for a decision\<close>

lemma packed_fields [simp]:
  "bs_outcome (packed_state inp) = pi_outcome inp" "bs_result (packed_state inp) = pi_result inp"
  "bs_pending_boundary (packed_state inp) = pi_pending_boundary inp"
  "bs_awaiting_first_board (packed_state inp) = pi_awaiting_first_board inp"
  "bs_gate (packed_state inp) = None \<longleftrightarrow> \<not> pi_has_board inp" "bs_map (packed_state inp) = pi_map inp"
  "bs_hero (packed_state inp) = pi_hero inp" "bs_deferred (packed_state inp) = None \<longleftrightarrow> \<not> pi_deferred inp"
  by (simp_all add: packed_state_def new_boundary_def)

lemma poll_input_fields [simp]:
  "pi_outcome (poll_input_of st trusted tk) = bs_outcome st" "pi_result (poll_input_of st trusted tk) = bs_result st"
  "pi_pending_boundary (poll_input_of st trusted tk) = bs_pending_boundary st"
  "pi_awaiting_first_board (poll_input_of st trusted tk) = bs_awaiting_first_board st"
  "pi_has_board (poll_input_of st trusted tk) = (bs_gate st \<noteq> None)"
  "pi_map (poll_input_of st trusted tk) = bs_map st" "pi_hero (poll_input_of st trusted tk) = bs_hero st"
  "pi_deferred (poll_input_of st trusted tk) = (bs_deferred st \<noteq> None)"
  by (simp_all add: poll_input_of_def)

lemma packed_phase:
  "phase_of (packed_state (poll_input_of st trusted tk)) = phase_of st"
  "sealable_hint (packed_state (poll_input_of st trusted tk)) = sealable_hint st"
  by (simp_all add: phase_of_def sealable_hint_def)

lemma start_screen_cong:
  assumes "sealable_hint p = sealable_hint st" and "bs_gate p = None \<longleftrightarrow> bs_gate st = None"
    and "bs_deferred p = None \<longleftrightarrow> bs_deferred st = None"
  shows "start_screen_effect p ph screen blocked = start_screen_effect st ph screen blocked"
  using assms by (cases ph) (auto split: start_screen.split)

lemma packed_transition:
  "(\<And>b. obs \<noteq> BoardObs b) \<Longrightarrow>
    transition (packed_state (poll_input_of st trusted tk)) obs = transition st obs"
proof -
  assume no_board: "\<And>b. obs \<noteq> BoardObs b"
  let ?p = "packed_state (poll_input_of st trusted tk)"
  have fields: "bs_gate ?p = None \<longleftrightarrow> bs_gate st = None" "bs_deferred ?p = None \<longleftrightarrow> bs_deferred st = None"
    "bs_pending_boundary ?p = bs_pending_boundary st"
    by simp_all
  have "start_screen_effect ?p ph screen blocked = start_screen_effect st ph screen blocked" for ph screen blocked
    by (rule start_screen_cong) (rule packed_phase fields)+
  then show ?thesis
  proof (cases obs)
    case (BoardObs b)
    then show ?thesis using no_board by blast
  qed (simp_all add: transition_def packed_phase unconfirmed_word_def gap_effect_def end_screen_def)
qed

lemma observed_no_board: "observed inp = Some obs \<Longrightarrow> obs \<noteq> BoardObs b"
  by (auto simp: observed_def Let_def split: option.splits if_splits)

text \<open>The fields of the session that a capture's plan is built from.\<close>

definition plan_fits :: "boundary_state \<Rightarrow> bool \<Rightarrow> plan_input \<Rightarrow> board_doubt \<Rightarrow> bool" where
  "plan_fits st imported inp doubt \<longleftrightarrow>
     ci_prev_gate inp = bs_gate st \<and> (ci_age inp = None \<longleftrightarrow> bs_gate st = None) \<and>
     ci_baseline inp = bs_reset_baseline st \<and> ci_streak inp = bs_reset_streak st \<and>
     ci_baseline_row inp = bs_baseline_row st \<and> ci_confirmed_end inp = is_decided (bs_outcome st) \<and>
     ci_inherited_outcome inp = bs_outcome st \<and> ci_session_hero inp = bs_hero st \<and> ci_hint inp = sealable_hint st \<and>
     ci_progressed_boards inp = bs_progressed_boards st \<and> ci_pending_boundary inp = bs_pending_boundary st \<and>
     ci_awaiting_first_board inp = bs_awaiting_first_board st \<and> ci_session_map inp = bs_map st \<and>
     bd_board_deferred doubt = (bs_deferred st \<noteq> None \<and> \<not> imported)"

lemma decided_hint: "decided_only (sealable_hint st) = sealable_hint st"
  by (simp add: decided_only_def sealable_hint_def split: option.split)

lemma plan_state_fields:
  assumes "plan_fits st imported inp doubt" and ok: "session_ok st"
  shows "sealable_hint (plan_state inp doubt t) = sealable_hint st"
    "bs_outcome (plan_state inp doubt t) = bs_outcome st" "bs_gate (plan_state inp doubt t) = bs_gate st"
    "bs_pending_boundary (plan_state inp doubt t) = bs_pending_boundary st"
    "bs_reset_streak (plan_state inp doubt t) = bs_reset_streak st"
    "bs_progressed_boards (plan_state inp doubt t) = bs_progressed_boards st"
    "bs_awaiting_first_board (plan_state inp doubt t) = bs_awaiting_first_board st"
    "bs_deferred (plan_state inp doubt t) = None \<longleftrightarrow> bs_deferred st = None \<or> imported"
proof -
  have "is_decided (bs_outcome st) \<Longrightarrow> sealable_hint st = None" using ok by (simp add: session_ok_def)
  moreover have "is_decided x" if "sealable_hint st = Some x" for x
    using that by (auto simp: sealable_hint_def split: option.splits if_splits)
  ultimately show "sealable_hint (plan_state inp doubt t) = sealable_hint st"
    using assms(1) by (auto simp: plan_fits_def plan_state_def sealable_hint_def [of "_ \<lparr>bs_result := _\<rparr>"] decided_hint
        split: option.split)
qed (use assms in \<open>auto simp: plan_fits_def plan_state_def new_boundary_def\<close>)

subsection \<open>Runs\<close>

record tracker =
  tr_closed :: "match_outcome list"
  tr_state :: boundary_state
  tr_imported :: bool
  tr_signals :: nat

definition final_outcome :: "boundary_state \<Rightarrow> match_outcome option \<Rightarrow> match_outcome" where
  "final_outcome st seal =
     (case outcome_sealed_on_close (bs_outcome st) seal of None \<Rightarrow> bs_outcome st | Some out \<Rightarrow> out)"

fun arms :: "poll_decision \<Rightarrow> bool" where
  "arms (Update u) = (uc_arm_pending u \<or> uc_arm_reset u)"
| "arms _ = False"

fun opens :: "poll_decision \<Rightarrow> bool" where
  "opens (Open _) = True"
| "opens _ = False"

text \<open>The session that a split opens on the board that committed it.\<close>

definition opened_by_split ::
  "match_outcome \<Rightarrow> string option \<Rightarrow> string option \<Rightarrow> gate_state option \<Rightarrow> nat option \<Rightarrow> instant \<Rightarrow> boundary_state"
where
  "opened_by_split out hero m gate row now = (new_boundary m)\<lparr>bs_outcome := out,
     bs_outcome_at := (if out \<noteq> Unknown then Some now else None), bs_gate := gate, bs_last_board_at := Some now,
     bs_baseline_at := (if gate = None then None else Some now), bs_reset_baseline := gate,
     bs_baseline_row := row, bs_hero := hero\<rparr>"

definition result_read :: "match_outcome \<Rightarrow> instant \<Rightarrow> instant \<Rightarrow> boundary_state \<Rightarrow> boundary_state" where
  "result_read out seen now st = st\<lparr>bs_outcome := out, bs_outcome_at := Some now,
     bs_result := Some \<lparr>rm_outcome = out, rm_confirmed = True, rm_seen_at = seen\<rparr>, bs_pending_boundary := False\<rparr>"

inductive tracker_step :: "tracker \<Rightarrow> tracker \<Rightarrow> bool" where
  polled: "d = decide_poll (poll_input_of (tr_state tr) trusted tk) \<Longrightarrow> \<not> opens d \<Longrightarrow>
    st = snd (commit_poll (tr_state tr) d (tk_now tk)) \<Longrightarrow>
    tracker_step tr (tr\<lparr>tr_state := st, tr_imported := (tr_imported tr \<and> bs_deferred st \<noteq> None),
      tr_signals := tr_signals tr + (if arms d then 1 else 0)\<rparr>)"
| poll_split: "decide_poll (poll_input_of (tr_state tr) trusted tk) = Open new \<Longrightarrow>
    tracker_step tr \<lparr>tr_closed = tr_closed tr @ [final_outcome (tr_state tr) (on_seal_outcome new)],
      tr_state = (snd (commit_poll (tr_state tr) (Open new) (tk_now tk)))\<lparr>bs_deferred := bs_deferred (tr_state tr)\<rparr>,
      tr_imported = (bs_deferred (tr_state tr) \<noteq> None), tr_signals = 0\<rparr>"
| captured: "plan_fits (tr_state tr) (tr_imported tr) inp doubt \<Longrightarrow>
    plan_capture_held inp doubt t = Some plan \<Longrightarrow> \<not> cp_split plan \<Longrightarrow>
    st = note_accepted_capture (tr_state tr) plan gate now \<Longrightarrow>
    tracker_step tr (tr\<lparr>tr_state := st, tr_imported := (tr_imported tr \<and> \<not> cp_defer plan \<and> bs_deferred st \<noteq> None),
      tr_signals := tr_signals tr + (if cp_defer plan then 1 else 0)\<rparr>)"
| capture_split: "plan_fits (tr_state tr) (tr_imported tr) inp doubt \<Longrightarrow>
    plan_capture_held inp doubt t = Some plan \<Longrightarrow> cp_split plan \<Longrightarrow>
    tracker_step tr \<lparr>tr_closed = tr_closed tr @ [final_outcome (tr_state tr) (cp_seal plan)],
      tr_state = opened_by_split (cp_stored_outcome plan) hero m gate (cp_baseline_row plan) now,
      tr_imported = False, tr_signals = 0\<rparr>"
| import_written: "tr_imported tr \<Longrightarrow>
    tracker_step tr (tr\<lparr>tr_state := (tr_state tr)\<lparr>bs_deferred := None\<rparr>, tr_imported := False\<rparr>)"
| frame_result: "\<not> is_decided (bs_outcome (tr_state tr)) \<Longrightarrow> is_decided out \<Longrightarrow>
    tracker_step tr (tr\<lparr>tr_state := result_read out seen now (tr_state tr)\<rparr>)"
| relabelled: "tracker_step tr (tr\<lparr>tr_state := (tr_state tr)\<lparr>bs_map := m, bs_hero := h\<rparr>\<rparr>)"

subsection \<open>What a poll may do to a session\<close>

lemma signal_decided: "decided_only x = Some out \<Longrightarrow> is_decided out"
  by (auto simp: decided_only_def split: option.splits if_splits)

lemma sealable_decided: "sealable_hint st = Some out \<Longrightarrow> is_decided out"
  by (auto simp: sealable_hint_def split: option.splits if_splits)

inductive poll_update :: "boundary_state \<Rightarrow> update_current \<Rightarrow> bool" for st where
  adopted: "uc_record_outcome u = None \<Longrightarrow> uc_result u = bs_result st \<Longrightarrow> \<not> arms (Update u) \<Longrightarrow>
    \<not> uc_clear_awaiting u \<Longrightarrow> poll_update st u"
| sealed: "uc_record_outcome u = Some out \<Longrightarrow> uc_result u = Some \<lparr>rm_outcome = out, rm_confirmed = True, rm_seen_at = seen\<rparr> \<Longrightarrow>
    \<not> arms (Update u) \<Longrightarrow> is_decided out \<Longrightarrow> \<not> is_decided (bs_outcome st) \<Longrightarrow> poll_update st u"
| hinted: "uc_record_outcome u = None \<Longrightarrow> uc_result u = Some \<lparr>rm_outcome = out, rm_confirmed = False, rm_seen_at = seen\<rparr> \<Longrightarrow>
    \<not> arms (Update u) \<Longrightarrow> is_decided out \<Longrightarrow> \<not> is_decided (bs_outcome st) \<Longrightarrow> uc_clear_awaiting u \<Longrightarrow>
    poll_update st u"
| armed: "uc_record_outcome u = None \<Longrightarrow> uc_result u = bs_result st \<Longrightarrow> arms (Update u) \<Longrightarrow>
    \<not> uc_clear_awaiting u \<Longrightarrow> (uc_arm_pending u \<longrightarrow> phase_of st = PostResultStreak) \<Longrightarrow>
    (uc_arm_reset u \<longrightarrow> phase_of st \<in> {Idle, LiveMatch}) \<Longrightarrow> poll_update st u"

lemma adopt_or_cases: "adopt_or other inp = other \<or> (\<exists>m. adopt_or other inp = Update ((plain_update inp)\<lparr>uc_adopt_map := Some m\<rparr>))"
  by (cases "adopt_map inp") (auto simp: adopt_or_def)

lemma transition_split: "fst (transition st obs) = transition_effect st obs"
  by (simp add: transition_def)

lemma effect_seal:
  assumes "transition_effect st obs = Seal out"
  shows "obs = ConfirmedWord out" "\<not> is_decided (bs_outcome st)"
proof -
  have "obs = ConfirmedWord out \<and> phase_of st \<noteq> PostMatch"
    using assms by (cases obs; cases "phase_of st")
      (auto simp: confirmed_word_def unconfirmed_word_def gap_effect_def end_screen_def board_effect_def
        split: if_splits start_screen.splits)
  then show "obs = ConfirmedWord out" "\<not> is_decided (bs_outcome st)" by (auto simp: phase_simps)
qed

lemma effect_hint:
  assumes "transition_effect st obs = RememberHint out"
  shows "\<exists>rel. obs = UnconfirmedWord out rel" "\<not> is_decided (bs_outcome st)"
proof -
  have "(\<exists>rel. obs = UnconfirmedWord out rel) \<and> phase_of st \<noteq> PostMatch"
    using assms by (cases obs; cases "phase_of st")
      (auto simp: confirmed_word_def unconfirmed_word_def gap_effect_def end_screen_def board_effect_def
        split: if_splits start_screen.splits)
  then show "\<exists>rel. obs = UnconfirmedWord out rel" "\<not> is_decided (bs_outcome st)" by (auto simp: phase_simps)
qed

lemma effect_arm:
  "transition_effect st obs = ArmPending \<Longrightarrow> phase_of st = PostResultStreak"
  "transition_effect st obs = PrimeReset \<Longrightarrow> phase_of st \<in> {Idle, LiveMatch}"
  by (cases obs; cases "phase_of st";
      auto simp: confirmed_word_def unconfirmed_word_def gap_effect_def end_screen_def board_effect_def
        split: if_splits start_screen.splits)+

lemma observed_word:
  "observed inp = Some (ConfirmedWord out) \<Longrightarrow> is_decided out"
  "observed inp = Some (UnconfirmedWord out rel) \<Longrightarrow> is_decided out"
  "observed inp = Some (EndScreenDifferentMap out m) \<Longrightarrow> is_decided out"
  by (auto simp: observed_def Let_def dest: signal_decided split: option.splits if_splits)

text \<open>Every decision of a poll comes from the effect on the session itself.\<close>

lemma decide_poll_session:
  fixes st :: boundary_state and trusted :: bool and tk :: poll_tick
  defines "inp \<equiv> poll_input_of st trusted tk"
  shows "decide_poll inp = (case observed inp of None \<Rightarrow> adopt_or Keep inp
     | Some obs \<Rightarrow> (case transition_effect st obs of
             Ignore \<Rightarrow> ignored inp obs
           | Seal out \<Rightarrow> Update ((plain_update inp)\<lparr>uc_record_outcome := Some out, uc_adopt_map := adopt_map inp,
               uc_result := Some (confirmed_mark inp out), uc_clear_awaiting := True\<rparr>)
           | RememberHint out \<Rightarrow> remembered inp out
           | ArmPending \<Rightarrow> Update ((plain_update inp)\<lparr>uc_arm_pending := True\<rparr>)
           | PrimeReset \<Rightarrow> Update ((plain_update inp)\<lparr>uc_arm_reset := True\<rparr>)
           | Split reason seal new_outcome \<Rightarrow> Open (opened inp obs reason seal new_outcome)
           | _ \<Rightarrow> Keep))"
proof (cases "observed inp")
  case (Some obs)
  then have "transition (packed_state inp) obs = transition st obs"
    unfolding inp_def using observed_no_board by (intro packed_transition) blast
  then show ?thesis using Some by (simp add: decide_poll_def transition_split)
qed (simp add: decide_poll_def)

lemma plain_adopted: "poll_update st ((plain_update (poll_input_of st trusted tk))\<lparr>uc_adopt_map := m\<rparr>)"
  by (rule poll_update.adopted) (simp_all add: plain_update_def)

lemma decided_update:
  assumes "decide_poll (poll_input_of st trusted tk) = Update u"
  shows "poll_update st u"
proof -
  let ?inp = "poll_input_of st trusted tk"
  have adopt: "poll_update st u" if "adopt_or other ?inp = Update u" "other \<noteq> Update u" for other
    using that adopt_or_cases [of other ?inp] plain_adopted [where st = st and trusted = trusted and tk = tk] by auto
  show ?thesis
  proof (cases "observed ?inp")
    case None
    then show ?thesis using assms adopt by (simp add: decide_poll_session)
  next
    case (Some obs)
    show ?thesis
    proof (cases "transition_effect st obs")
      case Ignore
      have "adopt_or d ?inp = Update u \<Longrightarrow> d \<noteq> Update u \<Longrightarrow> poll_update st u" for d by (rule adopt)
      then show ?thesis using assms Some Ignore
        by (auto simp: decide_poll_session ignored_def split: if_splits option.splits)
    next
      case (Seal out)
      note word = effect_seal [OF Seal]
      then show ?thesis using assms Some Seal observed_word(1)
        by (intro poll_update.sealed [of u out "mark_seen ?inp out"])
          (auto simp: decide_poll_session plain_update_def confirmed_mark_def)
    next
      case (RememberHint out)
      note word = effect_hint [OF RememberHint]
      then have "is_decided out" using Some observed_word(2) by auto
      then show ?thesis using assms Some RememberHint word(2)
        by (intro poll_update.hinted [of u out "mark_seen ?inp out"])
          (auto simp: decide_poll_session remembered_def plain_update_def Let_def split: if_splits)
    next
      case ArmPending
      then show ?thesis using assms Some effect_arm(1)
        by (intro poll_update.armed) (auto simp: decide_poll_session plain_update_def)
    next
      case PrimeReset
      then show ?thesis using assms Some effect_arm(2)
        by (intro poll_update.armed) (auto simp: decide_poll_session plain_update_def)
    qed (use assms Some in \<open>simp_all add: decide_poll_session\<close>)
  qed
qed

lemma effect_split:
  "transition_effect st obs = Split reason seal out \<Longrightarrow> seal = None \<or> seal = sealable_hint st"
  by (cases obs; cases "phase_of st")
    (auto simp: confirmed_word_def unconfirmed_word_def gap_effect_def end_screen_def board_effect_def
        split: if_splits start_screen.splits)

lemma decided_open:
  assumes "decide_poll (poll_input_of st trusted tk) = Open new"
  shows "on_new_result new = None" "on_seal_outcome new = None \<or> on_seal_outcome new = sealable_hint st"
proof -
  let ?inp = "poll_input_of st trusted tk"
  have not_adopt: "adopt_or d ?inp \<noteq> Open new" if "d \<noteq> Open new" for d
    using that by (auto simp: adopt_or_def split: option.split)
  obtain obs where obs: "observed ?inp = Some obs"
    using assms not_adopt by (cases "observed ?inp") (auto simp: decide_poll_session)
  have "ignored ?inp obs \<noteq> Open new" "remembered ?inp out \<noteq> Open new" for out
    using not_adopt by (auto simp: ignored_def remembered_def Let_def split: option.split)
  then obtain reason seal out where eff: "transition_effect st obs = Split reason seal out"
    using assms obs by (cases "transition_effect st obs") (auto simp: decide_poll_session)
  then have "new = opened ?inp obs reason seal out" using assms obs by (simp add: decide_poll_session)
  then show "on_new_result new = None" "on_seal_outcome new = None \<or> on_seal_outcome new = sealable_hint st"
    using effect_split [OF eff] by (auto simp: opened_def Let_def split: prod.split)
qed

subsection \<open>What a capture may do to a session\<close>

inductive capture_outcome :: "boundary_state \<Rightarrow> bool \<Rightarrow> plan_input \<Rightarrow> board_doubt \<Rightarrow> capture_plan \<Rightarrow> bool"
  for st imported inp doubt where
  stored: "plan = stored_plan inp doubt eff implausible \<Longrightarrow> eff \<in> {Append, CountProgress, ClearHintAndAppend} \<Longrightarrow>
    (eff = ClearHintAndAppend \<longrightarrow> sealable_hint st \<noteq> None) \<Longrightarrow> capture_outcome st imported inp doubt plan"
| held_off: "plan = deferred_plan inp doubt \<Longrightarrow> bs_gate st \<noteq> None \<Longrightarrow> capture_outcome st imported inp doubt plan"
| closing: "plan = split_plan inp reason seal out \<Longrightarrow> seal = None \<or> seal = sealable_hint st \<Longrightarrow>
    (reason = ByStatReset \<longrightarrow> (if bd_suspect_row doubt then 2 \<le> bs_reset_streak st \<or> bs_deferred st \<noteq> None \<and> \<not> imported
       else 1 \<le> bs_reset_streak st \<or> bs_pending_boundary st)) \<Longrightarrow>
    capture_outcome st imported inp doubt plan"

text \<open>The code's unreachable branch is not reached, and every plan is one of these.\<close>

lemma plan_outcome:
  assumes fits: "plan_fits st imported inp doubt" and ok: "session_ok st"
  shows "\<exists>plan. plan_capture_held inp doubt t = Some plan \<and> capture_outcome st imported inp doubt plan"
proof -
  let ?p = "plan_state inp doubt t"
  note fields = plan_state_fields [OF fits ok, of t]
  have gaps: "\<exists>plan. plan_from_effect inp doubt (transition_effect ?p obs) False = Some plan \<and>
      capture_outcome st imported inp doubt plan"
    if split: "is_split (transition_effect ?p obs)" and gap: "obs = GapObs hdr \<or> obs = HintedDifferentMap hdr" for obs hdr
  proof -
    obtain seal out where eff: "transition_effect ?p obs = Split ByStatRegression seal out"
      using split gap by (auto simp: gap_effect_def is_split_def split: if_splits)
    then have "seal = None \<or> seal = sealable_hint st" using effect_split [OF eff] fields(1) by simp
    then show ?thesis using eff by (auto simp: plan_from_effect_def intro: capture_outcome.closing)
  qed
  have board: "\<exists>plan. plan_from_effect inp doubt (board_effect ?p b) implausible = Some plan \<and>
      capture_outcome st imported inp doubt plan"
    if b: "bo_suspect_row b = bd_suspect_row doubt" "bo_fresh_reset b \<Longrightarrow> bs_gate st \<noteq> None" for b implausible
  proof (cases "board_effect ?p b")
    case (Split reason seal out)
    have "reason = ByStatReset" "seal = sealable_hint st" and commits: "reset_commits ?p b"
      using Split fields by (auto simp: board_effect_def split: if_splits)
    then show ?thesis using Split fields b
      by (auto simp: plan_from_effect_def reset_commits_def intro!: capture_outcome.closing split: if_splits)
  next
    case Defer
    then have "bo_fresh_reset b" by (auto simp: board_effect_def split: if_splits)
    then show ?thesis using Defer b by (auto simp: plan_from_effect_def intro!: capture_outcome.held_off)
  next
    case ClearHintAndAppend
    then have "sealable_hint st \<noteq> None" using fields by (auto simp: board_effect_def split: if_splits)
    then show ?thesis using ClearHintAndAppend by (auto simp: plan_from_effect_def intro!: capture_outcome.stored)
  qed (auto simp: plan_from_effect_def board_effect_def intro!: capture_outcome.stored split: if_splits)
  have fresh: "bo_fresh_reset (board_seen inp doubt) \<Longrightarrow> bs_gate st \<noteq> None"
    using fits ok by (auto simp: board_seen_def is_fresh_reset_def Let_def plan_fits_def session_ok_def or_option_def
        split: option.splits)
  have shown: "\<exists>plan. plan_from_effect inp doubt (transition_effect ?p (BoardObs (board_seen inp doubt)))
      (implausible_board inp (bd_held doubt)) = Some plan \<and> capture_outcome st imported inp doubt plan"
    unfolding transition_effect.simps by (rule board) (simp_all add: board_seen_def Let_def fresh [unfolded board_seen_def Let_def])
  show ?thesis
    unfolding plan_capture_held_def Let_def transition_split
    using gaps [OF _ disjI1 [OF refl]] gaps [OF _ disjI2 [OF refl]] shown by (simp split del: if_split) (simp split: if_split)
qed

end
