(* ===== verification/BoundaryProps.thy ===== *)
theory BoundaryProps
  imports BoundaryRuns
begin

text \<open>
  The properties of the session machine: it is the documented table, sessions stay well-formed, a recorded
  result stands, a reset takes two signals, and a cell without a number abstains.
\<close>

subsection \<open>Every step keeps a session well-formed\<close>

lemma is_decided_Unknown [simp]: "\<not> is_decided Unknown"
  by (simp add: is_decided_def)

lemma update_ok:
  assumes u: "poll_update st u" and ok: "session_ok st"
  shows "session_ok (snd (commit_poll st (Update u) now))"
  using u
proof cases
  case adopted
  then show ?thesis using ok
    by (auto simp: session_ok_def arm_def put_mark_def record_outcome_def sealable_hint_def Let_def
        split: option.splits)
next
  case (sealed out seen)
  then show ?thesis using ok
    by (auto simp: session_ok_def arm_def put_mark_def record_outcome_def sealable_hint_def Let_def
        split: option.splits)
next
  case (hinted out seen)
  then show ?thesis using ok
    by (auto simp: session_ok_def arm_def put_mark_def record_outcome_def sealable_hint_def Let_def
        split: option.splits)
next
  case armed
  have "uc_arm_reset u \<Longrightarrow> \<not> bs_awaiting_first_board st" "uc_arm_pending u \<Longrightarrow> \<not> bs_awaiting_first_board st"
    "uc_arm_pending u \<Longrightarrow> sealable_hint st \<noteq> None"
    using armed(5,6) by (auto simp: phase_of_def sealable_hint_def split: if_splits option.splits)
  then show ?thesis using ok armed(1-4)
    by (cases "uc_arm_pending u")
      (auto simp: session_ok_def arm_def put_mark_def record_outcome_def sealable_hint_def Let_def split: option.splits)
qed

lemma fresh_ok: "session_ok (new_boundary m)"
  by (simp add: session_ok_def new_boundary_def sealable_hint_def)

lemma open_ok:
  "on_new_result new = None \<Longrightarrow> session_ok ((open_session new now)\<lparr>bs_deferred := d\<rparr>)"
  by (simp add: session_ok_def open_session_def new_boundary_def sealable_hint_def)

lemma opened_by_split_ok: "session_ok (opened_by_split out hero m gate row now)"
  by (simp add: session_ok_def opened_by_split_def new_boundary_def sealable_hint_def)

lemma hint_same: "sealable_hint (st\<lparr>bs_deferred := d\<rparr>) = sealable_hint st"
  "bs_result st' = bs_result st \<Longrightarrow> sealable_hint st' = sealable_hint st"
  by (simp_all add: sealable_hint_def)

lemma note_ok:
  assumes out: "capture_outcome st imported inp doubt plan" and fits: "plan_fits st imported inp doubt"
    and ok: "session_ok st" and stays: "\<not> cp_split plan"
  shows "session_ok (note_accepted_capture st plan gate now)"
  using out
proof cases
  case (stored eff implausible)
  have plain: "\<not> cp_ignore_row plan" "\<not> cp_defer plan" using stored(1) by (simp_all add: stored_plan_def Let_def)
  have "bs_result st = None \<longrightarrow> \<not> bs_pending_boundary st" using ok by (auto simp: session_ok_def sealable_hint_def)
  then show ?thesis using ok plain
    by (auto simp: note_accepted_capture_def session_ok_def Let_def sealable_hint_def split: option.splits)
next
  case held_off
  then have "\<not> bs_awaiting_first_board st" using ok by (auto simp: session_ok_def)
  then show ?thesis using ok held_off(1,2)
    by (auto simp: note_accepted_capture_def session_ok_def deferred_plan_def sealable_hint_def split: option.splits)
next
  case (closing reason seal o')
  then show ?thesis using stays by (simp add: split_plan_def)
qed

lemma relabelled_ok [simp]:
  "session_ok (st\<lparr>bs_deferred := d\<rparr>) = session_ok st" "session_ok (st\<lparr>bs_map := m, bs_hero := h\<rparr>) = session_ok st"
  by (cases "bs_result st"; simp add: session_ok_def sealable_hint_def)+

subsection \<open>Runs\<close>

text \<open>The reset streak, an armed boundary and a held board all come from counted signals.\<close>

definition tracker_ok :: "tracker \<Rightarrow> bool" where
  "tracker_ok tr \<longleftrightarrow> session_ok (tr_state tr) \<and> bs_reset_streak (tr_state tr) \<le> tr_signals tr \<and>
     (bs_pending_boundary (tr_state tr) \<longrightarrow> 1 \<le> tr_signals tr) \<and>
     (bs_deferred (tr_state tr) \<noteq> None \<and> \<not> tr_imported tr \<longrightarrow> 1 \<le> tr_signals tr)"

definition fresh_tracker :: "string option \<Rightarrow> tracker" where
  "fresh_tracker m = \<lparr>tr_closed = [], tr_state = new_boundary m, tr_imported = False, tr_signals = 0\<rparr>"

lemma tracker_ok_fresh: "tracker_ok (fresh_tracker m)"
  using fresh_ok by (simp add: tracker_ok_def fresh_tracker_def) (simp add: new_boundary_def)

lemma opens_iff: "\<not> opens d \<Longrightarrow> (\<exists>u. d = Update u) \<or> (\<forall>st now. snd (commit_poll st d now) = st) \<and> \<not> arms d"
  by (cases d) auto

lemma arm_keeps:
  "bs_outcome (arm pending reset st) = bs_outcome st" "bs_deferred (arm pending reset st) = bs_deferred st"
  "bs_reset_streak (arm pending reset st) \<le> bs_reset_streak st + (if pending \<or> reset then 1 else 0)"
  "bs_pending_boundary (arm pending reset st) \<longleftrightarrow> bs_pending_boundary st \<or> pending"
  by (cases pending; cases reset; cases "bs_deferred st"; simp add: arm_def Let_def)+

lemma put_mark_keeps:
  "bs_outcome (put_mark new st) = bs_outcome st" "bs_deferred (put_mark new st) = bs_deferred st"
  "bs_reset_streak (put_mark new st) = bs_reset_streak st"
  "bs_pending_boundary (put_mark new st) = bs_pending_boundary st"
  by (cases new; simp add: put_mark_def Let_def)+

lemma record_keeps:
  "is_decided (bs_outcome st) \<Longrightarrow> bs_outcome (snd (record_outcome out now st)) = bs_outcome st"
  "bs_deferred (snd (record_outcome out now st)) = bs_deferred st"
  "bs_reset_streak (snd (record_outcome out now st)) = bs_reset_streak st"
  "bs_pending_boundary (snd (record_outcome out now st)) \<Longrightarrow> bs_pending_boundary st"
  by (cases out; simp add: record_outcome_def split: if_splits)+

text \<open>An update arms, forgets the wait for a first board, marks, records and renames, in that order.\<close>

definition woken :: "boundary_state \<Rightarrow> update_current \<Rightarrow> boundary_state" where
  "woken st u = (let armed = arm (uc_arm_pending u) (uc_arm_reset u) st
     in if uc_clear_awaiting u then armed\<lparr>bs_awaiting_first_board := False\<rparr> else armed)"

definition recorded :: "boundary_state \<Rightarrow> update_current \<Rightarrow> instant \<Rightarrow> boundary_state" where
  "recorded st u now = snd (record_outcome (uc_record_outcome u) now (put_mark (uc_result u) (woken st u)))"

lemma commit_update:
  "bs_outcome (snd (commit_poll st (Update u) now)) = bs_outcome (recorded st u now)"
  "bs_deferred (snd (commit_poll st (Update u) now)) = bs_deferred (recorded st u now)"
  "bs_reset_streak (snd (commit_poll st (Update u) now)) = bs_reset_streak (recorded st u now)"
  "bs_pending_boundary (snd (commit_poll st (Update u) now)) = bs_pending_boundary (recorded st u now)"
  by (cases "uc_adopt_map u"; simp add: recorded_def woken_def Let_def case_prod_beta)+

lemma woken_keeps:
  "bs_outcome (woken st u) = bs_outcome st" "bs_deferred (woken st u) = bs_deferred st"
  "bs_reset_streak (woken st u) \<le> bs_reset_streak st + (if arms (Update u) then 1 else 0)"
  "bs_pending_boundary (woken st u) \<longleftrightarrow> bs_pending_boundary st \<or> uc_arm_pending u"
proof -
  let ?armed = "arm (uc_arm_pending u) (uc_arm_reset u) st"
  have "bs_outcome (woken st u) = bs_outcome ?armed" "bs_deferred (woken st u) = bs_deferred ?armed"
    "bs_reset_streak (woken st u) = bs_reset_streak ?armed"
    "bs_pending_boundary (woken st u) = bs_pending_boundary ?armed"
    by (simp_all add: woken_def Let_def)
  then show "bs_outcome (woken st u) = bs_outcome st" "bs_deferred (woken st u) = bs_deferred st"
    "bs_reset_streak (woken st u) \<le> bs_reset_streak st + (if arms (Update u) then 1 else 0)"
    "bs_pending_boundary (woken st u) \<longleftrightarrow> bs_pending_boundary st \<or> uc_arm_pending u"
    using arm_keeps [of "uc_arm_pending u" "uc_arm_reset u" st] by (simp_all only: arms.simps)
qed

lemma update_signals:
  "bs_reset_streak (snd (commit_poll st (Update u) now)) \<le> bs_reset_streak st + (if arms (Update u) then 1 else 0)"
  "bs_pending_boundary (snd (commit_poll st (Update u) now)) \<longrightarrow> bs_pending_boundary st \<or> arms (Update u)"
  "bs_deferred (snd (commit_poll st (Update u) now)) = bs_deferred st"
  unfolding commit_update recorded_def record_keeps(2,3) put_mark_keeps woken_keeps(2)
  using woken_keeps(3,4) [of st u] record_keeps(4) [where st = "put_mark (uc_result u) (woken st u)"]
  by (auto simp: put_mark_keeps)

lemma outcome_stays:
  "is_decided (bs_outcome st) \<Longrightarrow> bs_outcome (snd (commit_poll st (Update u) now)) = bs_outcome st"
  unfolding commit_update recorded_def by (subst record_keeps(1)) (simp_all only: put_mark_keeps woken_keeps)

lemma note_signals:
  assumes "capture_outcome st imported inp doubt plan" and "plan_fits st imported inp doubt" "\<not> cp_split plan"
  shows "bs_reset_streak (note_accepted_capture st plan gate now) \<le> bs_reset_streak st + (if cp_defer plan then 1 else 0)"
    "bs_pending_boundary (note_accepted_capture st plan gate now) \<longrightarrow> bs_pending_boundary st"
    "\<not> cp_defer plan \<longrightarrow> bs_deferred (note_accepted_capture st plan gate now) \<in> {None, bs_deferred st}"
  using assms
  by (cases rule: capture_outcome.cases;
      auto simp: note_accepted_capture_def stored_plan_def deferred_plan_def split_plan_def sat_add_def plan_fits_def Let_def)+

lemma tracker_ok_step:
  assumes "tracker_step tr tr'" and ok: "tracker_ok tr"
  shows "tracker_ok tr'"
  using assms(1)
proof cases
  case (polled d trusted tk st)
  show ?thesis
  proof (cases "\<exists>u. d = Update u")
    case True
    then obtain u where d: "d = Update u" by blast
    note u = decided_update [OF polled(2) [symmetric, unfolded d]]
    show ?thesis using update_ok [OF u, of "tk_now tk"] update_signals [of "tr_state tr" u "tk_now tk"] ok polled(1,4)
      by (auto simp: tracker_ok_def d)
  next
    case False
    then show ?thesis using opens_iff [OF polled(3)] ok polled(1,4) by (auto simp: tracker_ok_def)
  qed
next
  case (poll_split trusted tk new)
  then show ?thesis using open_ok [OF decided_open(1) [OF poll_split(2)]]
    by (cases "bs_deferred (tr_state tr)") (simp_all add: tracker_ok_def open_session_def new_boundary_def)
next
  case (captured inp doubt t plan st gate now)
  have s: "session_ok (tr_state tr)" using ok by (simp add: tracker_ok_def)
  have out: "capture_outcome (tr_state tr) (tr_imported tr) inp doubt plan"
    using plan_outcome [OF captured(2) s, of t] captured(3) by auto
  show ?thesis
    using note_ok [OF out captured(2) s captured(4), of gate now]
      note_signals [OF out captured(2) captured(4), of gate now] ok captured(1,5)
    by (cases "cp_defer plan") (auto simp: tracker_ok_def)
next
  case (capture_split inp doubt t plan hero m gate now)
  then show ?thesis using opened_by_split_ok
    by (simp add: tracker_ok_def) (simp add: opened_by_split_def new_boundary_def)
next
  case import_written
  then show ?thesis using ok by (simp add: tracker_ok_def)
next
  case (frame_result out seen now)
  then show ?thesis using ok by (auto simp: tracker_ok_def session_ok_def result_read_def sealable_hint_def)
next
  case (relabelled m h)
  then show ?thesis using ok by (simp add: tracker_ok_def)
qed

lemma tracker_ok_run: "tracker_step\<^sup>*\<^sup>* tr tr' \<Longrightarrow> tracker_ok tr \<Longrightarrow> tracker_ok tr'"
  by (induction rule: rtranclp_induct) (auto dest: tracker_ok_step)

text \<open>What a step does to a recorded result, and what a closed session is left with.\<close>

definition result_after :: "boundary_state \<Rightarrow> match_outcome \<Rightarrow> bool" where
  "result_after st out \<longleftrightarrow>
     (if is_decided (bs_outcome st) then out = bs_outcome st else out = Unknown \<or> sealable_hint st = Some out)"

lemma final_outcome_result:
  "seal = None \<or> seal = sealable_hint st \<Longrightarrow> result_after st (final_outcome st seal)"
  by (auto simp: result_after_def final_outcome_def outcome_sealed_on_close_def decided_only_def is_decided_def
      split: option.splits)

lemma note_outcome: "bs_outcome (note_accepted_capture st plan gate now) = bs_outcome st"
  by (simp add: note_accepted_capture_def Let_def)

lemma step_results:
  assumes "tracker_step tr tr'" and ok: "tracker_ok tr"
  shows "(tr_closed tr' = tr_closed tr \<and>
      (is_decided (bs_outcome (tr_state tr)) \<longrightarrow> bs_outcome (tr_state tr') = bs_outcome (tr_state tr))) \<or>
    (\<exists>out. tr_closed tr' = tr_closed tr @ [out] \<and> result_after (tr_state tr) out)"
  using assms(1)
proof cases
  case (polled d trusted tk st)
  then show ?thesis using outcome_stays opens_iff [OF polled(3)] by auto
next
  case (poll_split trusted tk new)
  then show ?thesis using final_outcome_result [OF decided_open(2) [OF poll_split(2)]] by auto
next
  case (captured inp doubt t plan st gate now)
  then show ?thesis using note_outcome by simp
next
  case (capture_split inp doubt t plan hero m gate now)
  have "session_ok (tr_state tr)" using ok by (simp add: tracker_ok_def)
  then have "capture_outcome (tr_state tr) (tr_imported tr) inp doubt plan"
    using plan_outcome [OF capture_split(2), of t] capture_split(3) by auto
  then have "cp_seal plan = None \<or> cp_seal plan = sealable_hint (tr_state tr)"
    using capture_split(4)
    by cases (auto simp: split_plan_def stored_plan_def deferred_plan_def Let_def)
  then show ?thesis using capture_split(1) final_outcome_result by auto
qed (auto simp: result_read_def)

end
