(* ===== verification/BoundaryHeld.thy ===== *)
theory BoundaryHeld
  imports BoundaryProps
begin

text \<open>
  A held cell of a capture (a number that was not read, or not trusted) abstains: the plan of
  \<open>plan_capture_held\<close> (\<open>crates/stat-tracker/src/boundary.rs\<close>) does not read it.
\<close>

subsection \<open>Boards that agree where a number was read\<close>

definition agree :: "bool cols \<Rightarrow> counters \<Rightarrow> counters \<Rightarrow> bool" where
  "agree held a b \<longleftrightarrow> list_all (\<lambda>col. held col \<or> to_array a col = to_array b col) gate_cols"

lemma column_cells [simp]:
  "to_array c 0 = elims c" "to_array c (Suc 0) = assists c" "to_array c 2 = deaths c" "to_array c 3 = damage c"
  "to_array c 4 = healing c" "to_array c 5 = mitigation c"
  by (simp_all add: to_array_def eval_nat_numeral)

lemma agree_known:
  assumes "agree held a b" and "known_cols prev held col" and "col \<in> set gate_cols"
  shows "to_array a col = to_array b col"
  using assms by (auto simp: agree_def known_cols_def list_all_iff)

lemma agree_all:
  assumes "agree held a b" and "\<not> list_ex held gate_cols"
  shows "a = b"
proof -
  have "\<forall>col\<in>set gate_cols. to_array a col = to_array b col"
    using assms by (auto simp: agree_def list_all_iff list_ex_iff)
  then show ?thesis by (simp add: gate_cols_def)
qed

subsection \<open>The comparisons read no held cell\<close>

lemma edd_gate: "col \<in> set edd_cols \<Longrightarrow> col \<in> set gate_cols"
  by (auto simp: edd_cols_def gate_cols_def)

lemma filter_agree: "(\<And>x. x \<in> set xs \<Longrightarrow> p x = q x) \<Longrightarrow> filter p xs = filter q xs"
  by (rule filter_cong) auto

lemma list_ex_agree: "(\<And>x. x \<in> set xs \<Longrightarrow> p x = q x) \<Longrightarrow> list_ex p xs = list_ex q xs"
  by (auto simp: list_ex_iff)

lemma list_all_agree: "(\<And>x. x \<in> set xs \<Longrightarrow> p x = q x) \<Longrightarrow> list_all p xs = list_all q xs"
  by (auto simp: list_all_iff)

lemma progressed_agree:
  assumes "agree held a b"
  shows "counters_progressed prev a (known_cols g held) = counters_progressed prev b (known_cols g held)"
proof -
  note same = agree_known [OF assms, of g]
  have "list_ex (\<lambda>col. known_cols g held col \<and> to_array prev col < to_array a col) gate_cols =
      list_ex (\<lambda>col. known_cols g held col \<and> to_array prev col < to_array b col) gate_cols"
    by (rule list_ex_agree) (auto dest: same)
  moreover have "list_ex (\<lambda>col. known_cols g held col \<and> to_array a col < to_array prev col) edd_cols =
      list_ex (\<lambda>col. known_cols g held col \<and> to_array b col < to_array prev col) edd_cols"
    by (rule list_ex_agree) (use same edd_gate in auto)
  ultimately show ?thesis by (simp add: counters_progressed_def)
qed

lemma under_agree:
  assumes "agree held a b"
  shows "under_fresh_match prev a (known_cols g held) = under_fresh_match prev b (known_cols g held)"
  using agree_known [OF assms, of g 0] agree_known [OF assms, of g 2] agree_known [OF assms, of g 3]
  by (auto simp: under_fresh_match_def gate_cols_def)

lemma uniform_agree:
  assumes "agree held a b"
  shows "uniform_two_to_four_times prev a (known_cols g held) = uniform_two_to_four_times prev b (known_cols g held)"
  unfolding uniform_two_to_four_times_def Let_def
  by (rule arg_cong2 [where f = "(\<and>)"], rule list_all_agree) (auto dest: agree_known [OF assms])

lemma growth_agree:
  assumes "agree held a b"
  shows "implausible_growth g a held age = implausible_growth g b held age"
proof -
  let ?fast = "\<lambda>c col. known_cols g held col \<and> to_array (accepted g) col < to_array c col \<and>
    growth_ceiling col (min (as_secs age + held_secs g col) u64_max) < to_array c col - to_array (accepted g) col"
  have "list_ex (?fast a) gate_cols = list_ex (?fast b) gate_cols"
    by (rule list_ex_agree) (auto dest: agree_known [OF assms])
  then show ?thesis using uniform_agree [OF assms] by (simp add: implausible_growth_def Let_def)
qed

lemma clean_agree:
  "list_all (\<lambda>col. held col \<or> s col = s' col) edd_cols \<Longrightarrow> edd_clean s held = edd_clean s' held"
  unfolding edd_clean_def by (rule list_all_agree) (auto simp: list_all_iff)

subsection \<open>The plan reads no held cell\<close>

text \<open>The same capture with other numbers and doubts in its cells.\<close>

abbreviation reread :: "plan_input \<Rightarrow> counters \<Rightarrow> bool cols \<Rightarrow> plan_input" where
  "reread inp cur suspect \<equiv> inp\<lparr>ci_cur := cur, ci_suspect := suspect\<rparr>"

lemma reread_board:
  assumes cur: "agree (bd_held doubt) cur (ci_cur inp)"
    and suspect: "list_all (\<lambda>col. bd_held doubt col \<or> suspect col = ci_suspect inp col) edd_cols"
  shows "implausible_board (reread inp cur suspect) (bd_held doubt) = implausible_board inp (bd_held doubt)"
    "is_fresh_reset (reread inp cur suspect) (bd_held doubt) c i = is_fresh_reset inp (bd_held doubt) c i"
    "board_seen (reread inp cur suspect) doubt = board_seen inp doubt"
    "reset_shaped (reread inp cur suspect) (bd_held doubt) = reset_shaped inp (bd_held doubt)"
    "fresh_shaped (reread inp cur suspect) (bd_held doubt) = fresh_shaped inp (bd_held doubt)"
proof -
  show implausible: "implausible_board (reread inp cur suspect) (bd_held doubt) = implausible_board inp (bd_held doubt)"
    using growth_agree [OF cur] by (simp add: implausible_board_def cong: option.case_cong)
  show reset: "is_fresh_reset (reread inp cur suspect) (bd_held doubt) c i = is_fresh_reset inp (bd_held doubt) c i" for c i
    using under_agree [OF cur] clean_agree [OF suspect] by (simp add: is_fresh_reset_def compare_age_def Let_def cong: option.case_cong)
  show "board_seen (reread inp cur suspect) doubt = board_seen inp doubt"
    using implausible reset progressed_agree [OF cur] by (simp add: board_seen_def Let_def cong: option.case_cong)
  show "reset_shaped (reread inp cur suspect) (bd_held doubt) = reset_shaped inp (bd_held doubt)"
    "fresh_shaped (reread inp cur suspect) (bd_held doubt) = fresh_shaped inp (bd_held doubt)"
    using under_agree [OF cur] by (simp_all add: reset_shaped_def fresh_shaped_def cong: option.case_cong)
qed

lemma reread_effect:
  assumes cur: "agree (bd_held doubt) cur (ci_cur inp)"
    and suspect: "list_all (\<lambda>col. bd_held doubt col \<or> suspect col = ci_suspect inp col) edd_cols"
  shows "plan_from_effect (reread inp cur suspect) doubt eff i = plan_from_effect inp doubt eff i"
proof -
  note same = reread_board(4,5) [OF cur suspect]
  have "stored_plan (reread inp cur suspect) doubt eff i = stored_plan inp doubt eff i"
    by (simp add: stored_plan_def refreshes_def stored_if_stay_def Let_def same cong: if_cong)
  moreover have "deferred_plan (reread inp cur suspect) doubt = deferred_plan inp doubt"
    using agree_all [OF cur] by (auto simp: deferred_plan_def stored_if_stay_def)
  moreover have "split_plan (reread inp cur suspect) r s out = split_plan inp r s out" for r s out
    by (simp add: split_plan_def)
  ultimately show ?thesis by (cases eff) (simp_all add: plan_from_effect_def)
qed

lemma reread_plan:
  assumes cur: "agree (bd_held doubt) cur (ci_cur inp)"
    and suspect: "list_all (\<lambda>col. bd_held doubt col \<or> suspect col = ci_suspect inp col) edd_cols"
  shows "plan_capture_held (reread inp cur suspect) doubt t = plan_capture_held inp doubt t"
proof -
  have "plan_state (reread inp cur suspect) doubt t = plan_state inp doubt t"
    "hinted_different_map (reread inp cur suspect) = hinted_different_map inp"
    "gap_applies (reread inp cur suspect) = gap_applies inp"
    by (simp_all add: plan_state_def hinted_different_map_def gap_applies_def cong: option.case_cong if_cong)
  then show ?thesis
    using reread_board [OF cur suspect] reread_effect [OF cur suspect] by (simp add: plan_capture_held_def Let_def)
qed

end
