(* ===== verification/BoundaryClaims.thy ===== *)
theory BoundaryClaims
  imports BoundaryHeld
begin

text \<open>
  The properties of the stat tracker's session machine. A run starts at a fresh session and takes any polls,
  captures and results (\<open>tracker_step\<close>).
\<close>

subsection \<open>Concrete sessions\<close>

definition hinted_session :: boundary_state where
  "hinted_session = (new_boundary (Some ''Ilios''))\<lparr>
     bs_result := Some \<lparr>rm_outcome = Victory, rm_confirmed = False, rm_seen_at = 7\<rparr>\<rparr>"

definition ban_tick :: poll_tick where
  "ban_tick = \<lparr>tk_signal = None, tk_signal_confirmed = False, tk_accolade_map = None,
     tk_start_screen = Some HeroBan, tk_block_map_vote = False, tk_now = 9, tk_replaced_map = None\<rparr>"

subsection \<open>The table\<close>



subsection \<open>Results\<close>

lemma closed_grows: "tracker_step\<^sup>*\<^sup>* tr tr' \<Longrightarrow> tracker_ok tr \<Longrightarrow> \<exists>more. tr_closed tr' = tr_closed tr @ more"
proof (induction rule: rtranclp_induct)
  case (step y z)
  then show ?case using step_results [OF step(2)] tracker_ok_run [OF step(1)] by force
qed simp

lemma result_carried:
  assumes "tracker_step\<^sup>*\<^sup>* tr tr'" and "tracker_ok tr" and "is_decided (bs_outcome (tr_state tr))"
  shows "\<exists>more. tr_closed tr' = tr_closed tr @ more \<and>
    (case more of [] \<Rightarrow> bs_outcome (tr_state tr') = bs_outcome (tr_state tr) | out # _ \<Rightarrow> out = bs_outcome (tr_state tr))"
  using assms
proof (induction rule: rtranclp_induct)
  case (step y z)
  then obtain more where more: "tr_closed y = tr_closed tr @ more"
    "case more of [] \<Rightarrow> bs_outcome (tr_state y) = bs_outcome (tr_state tr) | out # _ \<Rightarrow> out = bs_outcome (tr_state tr)"
    by blast
  from step_results [OF step(2) tracker_ok_run [OF step(1,4)]] show ?case
  proof
    assume same: "tr_closed z = tr_closed y \<and>
      (is_decided (bs_outcome (tr_state y)) \<longrightarrow> bs_outcome (tr_state z) = bs_outcome (tr_state y))"
    then show ?thesis using more step(5) by (intro exI [of _ more]) (cases more; simp)
  next
    assume "\<exists>out. tr_closed z = tr_closed y @ [out] \<and> result_after (tr_state y) out"
    then obtain out where "tr_closed z = tr_closed y @ [out]" "result_after (tr_state y) out" by blast
    then show ?thesis using more step(5)
      by (intro exI [of _ "more @ [out]"]) (cases more; simp add: result_after_def)
  qed
qed simp


text \<open>A run: a session reads a confirmed victory, and the next hero ban closes it.\<close>

definition won :: tracker where
  "won = (fresh_tracker None)\<lparr>tr_state := result_read Victory 7 8 (new_boundary None)\<rparr>"

definition next_game :: tracker where
  "next_game = \<lparr>tr_closed = [Victory], tr_state = (new_boundary None)\<lparr>bs_awaiting_first_board := True\<rparr>,
     tr_imported = False, tr_signals = 0\<rparr>"

lemma won_run: "tracker_step\<^sup>*\<^sup>* (fresh_tracker None) won"
proof -
  have "tracker_step (fresh_tracker None)
      ((fresh_tracker None)\<lparr>tr_state := result_read Victory 7 8 (tr_state (fresh_tracker None))\<rparr>)"
    by (rule frame_result) (simp_all add: fresh_tracker_def new_boundary_def is_decided_def)
  then have "tracker_step (fresh_tracker None) won" by (simp add: won_def fresh_tracker_def)
  then show ?thesis by (rule r_into_rtranclp)
qed

lemma won_decided: "is_decided (bs_outcome (tr_state won))"
  by (simp add: won_def result_read_def is_decided_def)

lemma ban_opens:
  "decide_poll (poll_input_of (tr_state won) False ban_tick) = Open \<lparr>on_reason = ByHeroSelectOrBan, on_seal_outcome = None,
     on_new_outcome = Unknown, on_new_map = None, on_candidates = [], on_new_result = None\<rparr>"
proof -
  let ?inp = "poll_input_of (tr_state won) False ban_tick"
  have "observed ?inp = Some (StartScreenObs HeroBan False)" "pi_start_screen ?inp = Some HeroBan"
    by (simp_all add: observed_def ban_tick_def poll_input_of_def)
  moreover have "transition_effect (tr_state won) (StartScreenObs HeroBan False) = Split ByHeroSelectOrBan None Unknown"
    by (simp add: won_def result_read_def phase_of_def is_decided_def)
  ultimately show ?thesis by (simp add: decide_poll_session opened_def)
qed

lemma next_game_step: "tracker_step won next_game"
  using poll_split [OF ban_opens]
  by (simp add: next_game_def won_def fresh_tracker_def result_read_def new_boundary_def open_session_def
      final_outcome_def outcome_sealed_on_close_def is_decided_def ban_tick_def)


text \<open>
  C34: A session that closes without a recorded result closes undecided or with the unconfirmed result that it
  remembers; no result is made up, and none is taken from the next match.
\<close>

theorem closes_with_own_result:
  assumes "tracker_step\<^sup>*\<^sup>* (fresh_tracker m) tr" and "tracker_step tr tr'" and "tr_closed tr' \<noteq> tr_closed tr"
  shows "\<exists>out. tr_closed tr' = tr_closed tr @ [out] \<and>
    (if is_decided (bs_outcome (tr_state tr)) then out = bs_outcome (tr_state tr)
     else out = Unknown \<or> sealable_hint (tr_state tr) = Some out)"
  using step_results [OF assms(2) tracker_ok_run [OF assms(1) tracker_ok_fresh]] assms(3)
  by (auto simp: result_after_def)

lemma closes_with_own_result_witness: "\<exists>out. tr_closed next_game = tr_closed won @ [out] \<and> out = bs_outcome (tr_state won)"
proof -
  have "tr_closed next_game \<noteq> tr_closed won" by (simp add: next_game_def won_def fresh_tracker_def)
  then show ?thesis using closes_with_own_result [OF won_run next_game_step] won_decided by simp
qed

subsection \<open>Resets\<close>

text \<open>
  C14: One board that looks like a new match closes nothing. A capture closes the session for a stat reset only after
  an earlier signal of the same session (a board held back, or a hero select), and a capture whose row is in doubt
  only after two of them or over a board that is still held back.
\<close>

theorem resets_need_two_signals:
  assumes "tracker_step\<^sup>*\<^sup>* (fresh_tracker m) tr" and "plan_fits (tr_state tr) (tr_imported tr) inp doubt"
    and "plan_capture_held inp doubt t = Some plan" and "cp_close_reason plan = Some ByStatReset"
  shows "1 \<le> tr_signals tr \<and>
    (bd_suspect_row doubt \<longrightarrow> 2 \<le> tr_signals tr \<or> bs_deferred (tr_state tr) \<noteq> None \<and> \<not> tr_imported tr)"
proof -
  have ok: "tracker_ok tr" using tracker_ok_run [OF assms(1) tracker_ok_fresh] .
  then have "session_ok (tr_state tr)" by (simp add: tracker_ok_def)
  then have "capture_outcome (tr_state tr) (tr_imported tr) inp doubt plan"
    using plan_outcome [OF assms(2), of t] assms(3) by auto
  then have "if bd_suspect_row doubt
      then 2 \<le> bs_reset_streak (tr_state tr) \<or> bs_deferred (tr_state tr) \<noteq> None \<and> \<not> tr_imported tr
      else 1 \<le> bs_reset_streak (tr_state tr) \<or> bs_pending_boundary (tr_state tr)"
    using assms(4) by cases (simp_all add: stored_plan_def deferred_plan_def split_plan_def Let_def)
  then show ?thesis using ok by (auto simp: tracker_ok_def split: if_splits)
qed

text \<open>A run: a board of a game, a hero select, and a board near zero.\<close>

definition seen_board :: "boundary_state \<Rightarrow> counters \<Rightarrow> plan_input" where
  "seen_board st cur = \<lparr>ci_prev_gate = bs_gate st, ci_baseline = bs_reset_baseline st, ci_streak = bs_reset_streak st,
     ci_cur = cur, ci_suspect = (\<lambda>_. False), ci_create_session = False, ci_suppress_same_unfinished = False,
     ci_age = (if bs_gate st = None then None else Some (from_secs 90)), ci_min_gap = from_secs 45,
     ci_classic_regressed = False, ci_row_counts = True, ci_row_id = Some 1, ci_baseline_row = bs_baseline_row st,
     ci_confirmed_end = is_decided (bs_outcome st), ci_inherited_outcome = bs_outcome st, ci_frame_outcome = Unknown,
     ci_session_hero = bs_hero st, ci_hint = sealable_hint st, ci_baseline_age = None,
     ci_progressed_boards = bs_progressed_boards st, ci_pending_boundary = bs_pending_boundary st,
     ci_awaiting_first_board = bs_awaiting_first_board st, ci_session_map = bs_map st,
     ci_session_map_source = None, ci_incoming_map = None\<rparr>"

lemma seen_board_fits: "bs_deferred st = None \<Longrightarrow> plan_fits st imported (seen_board st cur) no_doubt"
  by (simp add: plan_fits_def seen_board_def no_doubt_def)

definition late_board :: counters where
  "late_board = \<lparr>elims = 18, assists = 6, deaths = 5, damage = 9000, healing = 0, mitigation = 400\<rparr>"

definition late_gate :: gate_state where
  "late_gate = default_gate\<lparr>accepted := late_board, last_raw := late_board\<rparr>"

definition played :: tracker where
  "played = (fresh_tracker None)\<lparr>tr_state := (new_boundary None)\<lparr>bs_gate := Some late_gate,
     bs_reset_baseline := Some late_gate, bs_baseline_row := Some 1, bs_last_board_at := Some 1,
     bs_baseline_at := Some 1\<rparr>\<rparr>"

definition primed :: tracker where
  "primed = played\<lparr>tr_state := (tr_state played)\<lparr>bs_reset_streak := 1\<rparr>, tr_signals := 1\<rparr>"

lemma first_board_plan:
  "plan_capture_held (seen_board (new_boundary None) late_board) no_doubt 0 =
    Some (stored_plan (seen_board (new_boundary None) late_board) no_doubt Append False)"
  by (simp add: plan_capture_held_def seen_board_def no_doubt_def hinted_different_map_def gap_applies_def
      transition_def board_effect_def board_seen_def is_fresh_reset_def implausible_board_def or_option_def at_least_def
      plan_from_effect_def plan_state_def new_boundary_def sealable_hint_def decided_only_def is_decided_def)

lemma played_step: "tracker_step (fresh_tracker None) played"
proof -
  let ?st = "new_boundary None" and ?plan = "stored_plan (seen_board (new_boundary None) late_board) no_doubt Append False"
  have "tr_state (fresh_tracker None) = ?st" "\<not> tr_imported (fresh_tracker None)" "bs_deferred ?st = None"
    by (simp_all add: fresh_tracker_def new_boundary_def)
  moreover have "note_accepted_capture ?st ?plan late_gate 1 = tr_state played" "\<not> cp_split ?plan" "\<not> cp_defer ?plan"
    by (simp_all add: note_accepted_capture_def stored_plan_def refreshes_def reset_shaped_def fresh_shaped_def
        or_option_def seen_board_def no_doubt_def new_boundary_def same_baseline_row_def played_def fresh_tracker_def
        monotonic_gate_def anchor_gate_def late_gate_def default_gate_def)
  moreover have "plan_fits ?st False (seen_board ?st late_board) no_doubt"
    by (rule seen_board_fits) (simp add: new_boundary_def)
  ultimately show ?thesis
    using captured [where tr = "fresh_tracker None" and gate = late_gate and now = 1, OF _ first_board_plan]
    by (simp add: played_def fresh_tracker_def)
qed

definition select_tick :: poll_tick where
  "select_tick = ban_tick\<lparr>tk_start_screen := Some HeroSelect\<rparr>"

lemma primed_step: "tracker_step played primed"
proof -
  let ?st = "tr_state played"
  let ?inp = "poll_input_of ?st False select_tick"
  have "observed ?inp = Some (StartScreenObs HeroSelect False)"
    by (simp add: observed_def select_tick_def ban_tick_def poll_input_of_def)
  moreover have "transition_effect ?st (StartScreenObs HeroSelect False) = PrimeReset"
    by (simp add: played_def phase_of_def new_boundary_def is_decided_def)
  ultimately have "decide_poll ?inp = Update ((plain_update ?inp)\<lparr>uc_arm_reset := True\<rparr>)"
    by (simp add: decide_poll_session)
  then show ?thesis
    using polled [OF refl, of played False select_tick]
    by (simp add: primed_def played_def fresh_tracker_def arm_def put_mark_def record_outcome_def plain_update_def
        poll_input_of_def new_boundary_def)
qed

lemma primed_run: "tracker_step\<^sup>*\<^sup>* (fresh_tracker None) primed"
  using played_step primed_step by (metis r_into_rtranclp rtranclp_trans)

lemma reset_seen:
  "is_fresh_reset (seen_board (tr_state primed) no_counters) (\<lambda>_. False) (Some late_gate) False"
  by (simp add: is_fresh_reset_def seen_board_def primed_def played_def fresh_tracker_def new_boundary_def
      same_baseline_row_def edd_clean_def edd_cols_def known_cols_def late_gate_def default_gate_def mature_board_def
      at_least_def compare_age_def or_option_def reset_min_age_def from_secs_def under_fresh_match_def
      late_board_def no_counters_def)

lemma reset_plan:
  "plan_capture_held (seen_board (tr_state primed) no_counters) no_doubt 0 =
    Some (split_plan (seen_board (tr_state primed) no_counters) ByStatReset None Unknown)"
proof -
  let ?inp = "seen_board (tr_state primed) no_counters"
  have compare: "or_option (ci_baseline ?inp) (ci_prev_gate ?inp) = Some late_gate"
    by (simp add: or_option_def seen_board_def primed_def played_def fresh_tracker_def)
  have "implausible_board ?inp (\<lambda>_. False) = False"
    by (simp add: implausible_board_def compare implausible_growth_def)
      (simp add: seen_board_def late_gate_def default_gate_def late_board_def no_counters_def to_array_def gate_cols_def
        uniform_two_to_four_times_def known_cols_def sat_mul_def u32_max_def)
  then have "bo_fresh_reset (board_seen ?inp no_doubt)"
    using reset_seen by (simp add: board_seen_def no_doubt_def compare Let_def)
  moreover have "\<not> bo_suspect_row (board_seen ?inp no_doubt)" by (simp add: board_seen_def no_doubt_def Let_def)
  moreover have "\<not> hinted_different_map ?inp" "\<not> gap_applies ?inp" "bs_reset_streak (plan_state ?inp no_doubt 0) = 1"
    "sealable_hint (plan_state ?inp no_doubt 0) = None"
    by (simp_all add: hinted_different_map_def gap_applies_def plan_state_def seen_board_def primed_def played_def
        fresh_tracker_def new_boundary_def sealable_hint_def decided_only_def)
  ultimately show ?thesis
    by (simp add: plan_capture_held_def transition_def board_effect_def reset_commits_def plan_from_effect_def Let_def)
qed

lemma resets_need_two_signals_witness:
  "cp_close_reason (the (plan_capture_held (seen_board (tr_state primed) no_counters) no_doubt 0)) = Some ByStatReset \<and>
    1 \<le> tr_signals primed"
proof -
  have "plan_fits (tr_state primed) (tr_imported primed) (seen_board (tr_state primed) no_counters) no_doubt"
    by (rule seen_board_fits) (simp add: primed_def played_def new_boundary_def)
  then show ?thesis
    using resets_need_two_signals [OF primed_run _ reset_plan] reset_plan by (simp add: split_plan_def)
qed

text \<open>
  C19: Every session that a run reaches is well-formed (a confirmed result has no pending boundary, a new game has no
  board yet), and each capture of it has a plan: the branch that the code marks unreachable is not reached.
\<close>

theorem sessions_well_formed:
  assumes "tracker_step\<^sup>*\<^sup>* (fresh_tracker m) tr"
  shows "session_ok (tr_state tr) \<and>
    (plan_fits (tr_state tr) (tr_imported tr) inp doubt \<longrightarrow> plan_capture_held inp doubt t \<noteq> None)"
proof -
  have "session_ok (tr_state tr)"
    using tracker_ok_run [OF assms tracker_ok_fresh] by (simp add: tracker_ok_def)
  then show ?thesis using plan_outcome by blast
qed

lemma sessions_well_formed_witness:
  "plan_capture_held (seen_board (tr_state primed) no_counters) no_doubt 0 \<noteq> None"
proof -
  have "plan_fits (tr_state primed) (tr_imported primed) (seen_board (tr_state primed) no_counters) no_doubt"
    by (rule seen_board_fits) (simp add: primed_def played_def new_boundary_def)
  then show ?thesis using sessions_well_formed [OF primed_run] by blast
qed

text \<open>
  C33: A held cell abstains. Two captures that agree on every cell whose number was read have the same plan, whatever
  the held cells show and however doubtful they are.
\<close>

theorem held_cells_abstain:
  assumes "agree (bd_held doubt) cur (ci_cur inp)"
    and "list_all (\<lambda>col. bd_held doubt col \<or> suspect col = ci_suspect inp col) edd_cols"
  shows "plan_capture_held (inp\<lparr>ci_cur := cur, ci_suspect := suspect\<rparr>) doubt t = plan_capture_held inp doubt t"
  by (rule reread_plan [OF assms])

text \<open>The eliminations of a board near zero were not read: whatever they show, the plan is the same.\<close>

lemma held_cells_abstain_witness:
  "plan_capture_held ((seen_board (tr_state primed) no_counters)\<lparr>ci_cur := no_counters\<lparr>elims := 60\<rparr>,
      ci_suspect := (\<lambda>col. col = 0)\<rparr>) (no_doubt\<lparr>bd_held := (\<lambda>col. col = 0)\<rparr>) 0 =
    plan_capture_held (seen_board (tr_state primed) no_counters) (no_doubt\<lparr>bd_held := (\<lambda>col. col = 0)\<rparr>) 0"
  by (rule held_cells_abstain)
    (simp_all add: agree_def gate_cols_def edd_cols_def seen_board_def no_counters_def to_array_def)

end
