(* ===== verification/LoginLockout.thy ===== *)
theory LoginLockout
  imports Prelude "HOL-Library.AList" "HOL-Library.Product_Lexorder"
begin

text \<open>
  The per-account backoff of password logins: \<open>crates/site-server/src/login_lockout.rs\<close> and the handler
  \<open>local_login\<close> of \<open>routes/auth.rs\<close>. A \<open>HashMap\<close> is an association list with distinct keys; its
  iteration order is not specified, so the choice among equally good victims is an argument \<open>pick\<close>.
\<close>

subsection \<open>The store\<close>

definition failure_window :: duration where
  "failure_window = from_secs 1800"

definition max_lock :: duration where
  "max_lock = from_secs 900"

definition max_tracked_accounts :: nat where
  "max_tracked_accounts = 8192"

definition tiers :: "(nat \<times> duration) list" where
  "tiers = [(5, from_secs 30), (8, from_secs 120), (12, max_lock)]"

record lock_record =
  lr_failures :: "instant list"
  lr_locked_until :: "instant option"

type_synonym lockouts = "(string \<times> lock_record) list"

definition no_record :: lock_record where
  "no_record = \<lparr>lr_failures = [], lr_locked_until = None\<rparr>"

definition retry_secs :: "duration \<Rightarrow> nat" where
  "retry_secs d =
     (if 0 < d mod 1000000000 then max (min (as_secs d + 1) u64_max) 1 else max (as_secs d) 1)"

definition remaining :: "lock_record \<Rightarrow> instant \<Rightarrow> nat option" where
  "remaining rec now =
     (case lr_locked_until rec of
        None \<Rightarrow> None
      | Some until \<Rightarrow> if until \<le> now then None else Some (retry_secs (since until now)))"

definition recent :: "instant \<Rightarrow> instant \<Rightarrow> bool" where
  "recent now t \<longleftrightarrow> since now t < failure_window"

definition is_idle :: "lock_record \<Rightarrow> instant \<Rightarrow> bool" where
  "is_idle rec now \<longleftrightarrow> remaining rec now = None \<and> list_all (\<lambda>t. \<not> recent now t) (lr_failures rec)"

definition eviction_rank :: "lock_record \<Rightarrow> instant \<Rightarrow> bool \<times> nat \<times> instant" where
  "eviction_rank rec now =
     (let live = filter (recent now) (lr_failures rec)
      in (remaining rec now \<noteq> None, length live, case live of [] \<Rightarrow> now | t # ts \<Rightarrow> fold min ts t))"

definition evict_least_valuable :: "(string list \<Rightarrow> string) \<Rightarrow> instant \<Rightarrow> lockouts \<Rightarrow> lockouts" where
  "evict_least_valuable pick now store =
     (let least = filter (\<lambda>(k, rec). list_all (\<lambda>(k', rec'). eviction_rank rec now \<le> eviction_rank rec' now) store) store
      in if least = [] then store else AList.delete (pick (map fst least)) store)"

definition retry_after :: "string \<Rightarrow> instant \<Rightarrow> lockouts \<Rightarrow> nat option" where
  "retry_after username now store =
     (case map_of store username of None \<Rightarrow> None | Some rec \<Rightarrow> remaining rec now)"

definition make_room :: "(string list \<Rightarrow> string) \<Rightarrow> string \<Rightarrow> instant \<Rightarrow> lockouts \<Rightarrow> lockouts" where
  "make_room pick username now store =
     (if map_of store username = None \<and> max_tracked_accounts \<le> length store
      then (let kept = filter (\<lambda>(k, rec). \<not> is_idle rec now) store
            in if max_tracked_accounts \<le> length kept then evict_least_valuable pick now kept else kept)
      else store)"

definition lock_for :: "nat \<Rightarrow> duration option" where
  "lock_for n = map_option snd (find (\<lambda>(failures, _). failures \<le> n) (rev tiers))"

definition count_failure :: "instant \<Rightarrow> lock_record \<Rightarrow> lock_record" where
  "count_failure now rec =
     (let failures = filter (recent now) (lr_failures rec) @ [now]
      in \<lparr>lr_failures = failures, lr_locked_until = map_option (\<lambda>d. now + int d) (lock_for (length failures))\<rparr>)"

definition record_failure ::
  "(string list \<Rightarrow> string) \<Rightarrow> string \<Rightarrow> instant \<Rightarrow> lockouts \<Rightarrow> nat option \<times> lockouts" where
  "record_failure pick username now store =
     (case retry_after username now store of
        Some secs \<Rightarrow> (Some secs, store)
      | None \<Rightarrow>
          (let room = make_room pick username now store;
               rec = count_failure now (case map_of room username of None \<Rightarrow> no_record | Some rec \<Rightarrow> rec)
           in (map_option retry_secs (lock_for (length (lr_failures rec))), AList.update username rec room)))"

definition record_success :: "string \<Rightarrow> lockouts \<Rightarrow> lockouts" where
  "record_success username store = AList.delete username store"

subsection \<open>The handler\<close>

text \<open>
  What the handler uses of other code: \<open>str::to_lowercase\<close>, the accounts with their password hashes (the lookup
  may fail), and the password check (which can fail on a malformed hash).
\<close>

record login_env =
  le_lower :: "string \<Rightarrow> string"
  le_account :: "string \<Rightarrow> unit + (string \<times> string) option"
  le_verify :: "string \<Rightarrow> string \<Rightarrow> unit + bool"
  le_pick :: "string list \<Rightarrow> string"

datatype login_response = InvalidLogin | TooManyLogins nat | LoginDatabaseError | SignedIn string

definition validate_local_username :: "(string \<Rightarrow> string) \<Rightarrow> string \<Rightarrow> string option" where
  "validate_local_username lower raw =
     (let u = lower (trim raw)
      in if u = [] \<or> 32 < length u then None
         else if \<not> list_all (\<lambda>c. is_ascii_alphanumeric c \<or> c = CHR ''_'' \<or> c = CHR ''-'') u then None
         else Some u)"

definition too_many_logins :: "nat \<Rightarrow> login_response" where
  "too_many_logins secs = TooManyLogins (max secs 1)"

definition refused_login :: "login_env \<Rightarrow> string \<Rightarrow> instant \<Rightarrow> lockouts \<Rightarrow> login_response \<times> lockouts" where
  "refused_login env username now store =
     (case record_failure (le_pick env) username now store of
        (Some secs, store') \<Rightarrow> (too_many_logins secs, store')
      | (None, store') \<Rightarrow> (InvalidLogin, store'))"

text \<open>One request; \<open>later\<close> is the clock when the password has been checked.\<close>

definition local_login ::
  "login_env \<Rightarrow> instant \<Rightarrow> instant \<Rightarrow> string \<Rightarrow> string \<Rightarrow> lockouts \<Rightarrow> login_response \<times> lockouts" where
  "local_login env now later raw password store =
     (case validate_local_username (le_lower env) raw of
        None \<Rightarrow> (InvalidLogin, store)
      | Some username \<Rightarrow>
          (case retry_after username now store of
             Some secs \<Rightarrow> (too_many_logins secs, store)
           | None \<Rightarrow>
               (case le_account env username of
                  Inl _ \<Rightarrow> (LoginDatabaseError, store)
                | Inr None \<Rightarrow> refused_login env username later store
                | Inr (Some (user, hash)) \<Rightarrow>
                    (case le_verify env password hash of
                       Inr True \<Rightarrow> (SignedIn user, record_success username store)
                     | _ \<Rightarrow> refused_login env username later store))))"

end
