(* ===== verification/LockoutRules.thy ===== *)
theory LockoutRules
  imports LoginLockout
begin

text \<open>
  What the login backoff guarantees: how many wrong passwords one account can be tried with in any half hour,
  that a lock is short, and that a full store gives up a locked account last.
\<close>

subsection \<open>The store as a map\<close>

definition store_ok :: "lockouts \<Rightarrow> bool" where
  "store_ok store \<longleftrightarrow> distinct (map fst store)"

lemma store_ok_update [simp]: "store_ok store \<Longrightarrow> store_ok (AList.update k rec store)"
  by (simp add: store_ok_def distinct_update)

lemma store_ok_delete [simp]: "store_ok store \<Longrightarrow> store_ok (AList.delete k store)"
  by (simp add: store_ok_def distinct_delete)

lemma store_ok_filter [simp]: "store_ok store \<Longrightarrow> store_ok (filter P store)"
  by (simp add: store_ok_def distinct_map_filter)

lemma map_of_filter_keys:
  "store_ok store \<Longrightarrow> map_of (filter (\<lambda>(k, rec). P rec) store) k =
    (case map_of store k of None \<Rightarrow> None | Some rec \<Rightarrow> if P rec then Some rec else None)"
  unfolding store_ok_def by (induction store) (auto split: option.splits simp: map_of_eq_None_iff)

lemma store_ok_room [simp]: "store_ok store \<Longrightarrow> store_ok (make_room pick u now store)"
  by (simp add: make_room_def evict_least_valuable_def Let_def)

lemma store_ok_failure: "store_ok store \<Longrightarrow> store_ok (snd (record_failure pick u now store))"
  by (simp add: record_failure_def Let_def split: option.split)

subsection \<open>One failure\<close>

lemma lock_for_cases:
  "lock_for n = (if 12 \<le> n then Some max_lock else if 8 \<le> n then Some (from_secs 120)
     else if 5 \<le> n then Some (from_secs 30) else None)"
  by (simp add: lock_for_def tiers_def)

lemma remaining_None: "remaining rec now = None \<longleftrightarrow> (\<forall>until. lr_locked_until rec = Some until \<longrightarrow> until \<le> now)"
  by (simp add: remaining_def split: option.split)

lemma counted_rec:
  "lr_failures (count_failure now rec) = filter (recent now) (lr_failures rec) @ [now]"
  "lr_locked_until (count_failure now rec) =
     map_option (\<lambda>d. now + int d) (lock_for (length (filter (recent now) (lr_failures rec) @ [now])))"
  by (simp_all add: count_failure_def Let_def)

subsection \<open>Guesses\<close>

text \<open>
  The guesses of one account: the times at which a run of logins counted a failure for it. With the tiers of the
  code the gap after a twelfth recent failure is a quarter of an hour.
\<close>

definition spaced :: "instant list \<Rightarrow> bool" where
  "spaced ts \<longleftrightarrow> (\<forall>i. Suc i < length ts \<longrightarrow> 12 \<le> length (filter (recent (ts ! i)) (take (Suc i) ts)) \<longrightarrow>
     ts ! i + int max_lock \<le> ts ! Suc i)"

lemma recent_iff: "recent now t \<longleftrightarrow> now < t + int failure_window"
  by (simp add: recent_def since_less_iff failure_window_def from_secs_def)

lemma recent_take:
  assumes sorted: "sorted ts" and i: "i < length ts" and k: "k + 11 \<le> i" and near: "ts ! i < ts ! k + int failure_window"
  shows "12 \<le> length (filter (recent (ts ! i)) (take (Suc i) ts))"
proof -
  let ?seen = "take (Suc i) ts"
  have "{k..i} \<subseteq> {j. j < length ?seen \<and> recent (ts ! i) (?seen ! j)}"
  proof
    fix j assume j: "j \<in> {k..i}"
    then have "ts ! k \<le> ts ! j" using sorted i by (simp add: sorted_iff_nth_mono)
    then show "j \<in> {j. j < length ?seen \<and> recent (ts ! i) (?seen ! j)}" using j i near by (auto simp: recent_iff)
  qed
  then have "card {k..i} \<le> length (filter (recent (ts ! i)) ?seen)"
    unfolding length_filter_conv_card by (rule card_mono [rotated]) simp
  then show ?thesis using k by simp
qed

lemma window_of_spaced:
  assumes sorted: "sorted ts" and spaced: "spaced ts"
  shows "length (filter (\<lambda>t. a \<le> t \<and> t < a + int failure_window) ts) \<le> 13"
proof (rule ccontr)
  let ?I = "{i. i < length ts \<and> a \<le> ts ! i \<and> ts ! i < a + int failure_window}"
  assume "\<not> ?thesis"
  then have many: "14 \<le> card ?I" by (simp add: length_filter_conv_card)
  have fin: "finite ?I" by simp
  have ne: "?I \<noteq> {}" using many by (metis card.empty not_numeral_le_zero)
  define k where "k = Min ?I"
  define l where "l = Max ?I"
  have kl: "k \<in> ?I" "l \<in> ?I" using Min_in [OF fin ne] Max_in [OF fin ne] by (simp_all add: k_def l_def)
  have "?I \<subseteq> {k..l}" using fin by (auto simp: k_def l_def)
  then have "card ?I \<le> card {k..l}" by (rule card_mono [rotated]) simp
  then have le: "k + 13 \<le> l" using many by simp
  have within: "ts ! k \<le> ts ! i" "ts ! i \<le> ts ! l" if "k \<le> i" "i \<le> l" for i
    using that kl sorted by (simp_all add: sorted_iff_nth_mono)
  have gap: "ts ! i + int max_lock \<le> ts ! Suc i" if "k + 11 \<le> i" "Suc i \<le> l" for i
  proof -
    have "ts ! i < ts ! k + int failure_window" using within(2) [of i] that kl by simp
    then have "12 \<le> length (filter (recent (ts ! i)) (take (Suc i) ts))"
      using recent_take [OF sorted] that kl by simp
    then show ?thesis using spaced that kl by (simp add: spaced_def)
  qed
  have "ts ! (k + 11) + int max_lock \<le> ts ! (k + 12)" "ts ! (k + 12) + int max_lock \<le> ts ! (k + 13)"
    using gap [of "k + 11"] gap [of "k + 12"] le by (simp_all add: eval_nat_numeral)
  then have "ts ! (k + 11) + int failure_window \<le> ts ! (k + 13)"
    by (simp add: max_lock_def failure_window_def from_secs_def)
  moreover have "a \<le> ts ! (k + 11)" "ts ! (k + 13) < a + int failure_window"
    using within(1) [of "k + 11"] within(2) [of "k + 13"] le kl by simp_all
  ultimately show False by simp
qed

text \<open>What the record of an account knows of its guesses.\<close>

definition guesses_known :: "string \<Rightarrow> instant list \<Rightarrow> instant \<Rightarrow> lockouts \<Rightarrow> bool" where
  "guesses_known u past t store \<longleftrightarrow>
     store_ok store \<and> sorted past \<and> (\<forall>x\<in>set past. x \<le> t) \<and> spaced past \<and>
     (past \<noteq> [] \<longrightarrow> (\<exists>rec. map_of store u = Some rec \<and>
        (\<forall>now. t \<le> now \<longrightarrow> length (filter (recent now) past) \<le> length (filter (recent now) (lr_failures rec))) \<and>
        (12 \<le> length (filter (recent (last past)) past) \<longrightarrow> lr_locked_until rec = Some (last past + int max_lock))))"

lemma spaced_snoc:
  assumes "spaced past" and "past \<noteq> [] \<Longrightarrow> 12 \<le> length (filter (recent (last past)) past) \<Longrightarrow> last past + int max_lock \<le> now"
  shows "spaced (past @ [now])"
  unfolding spaced_def
proof (intro allI impI)
  fix i assume i: "Suc i < length (past @ [now])"
    and many: "12 \<le> length (filter (recent ((past @ [now]) ! i)) (take (Suc i) (past @ [now])))"
  show "(past @ [now]) ! i + int max_lock \<le> (past @ [now]) ! Suc i"
  proof (cases "Suc i < length past")
    case True
    then show ?thesis using assms(1) many by (auto simp: spaced_def nth_append)
  next
    case False
    then have "Suc i = length past" using i by simp
    then have "past \<noteq> []" "last past = past ! i" by (auto simp: last_conv_nth) (metis diff_Suc_1 last_conv_nth list.size(3) nat.distinct(1))
    then show ?thesis using assms(2) many \<open>Suc i = length past\<close> by (auto simp: nth_append)
  qed
qed

lemma guesses_later: "guesses_known u past t store \<Longrightarrow> t \<le> t' \<Longrightarrow> guesses_known u past t' store"
  by (fastforce simp: guesses_known_def)

lemma guess_counted:
  assumes known: "guesses_known u past t store" and "t \<le> now" and free: "retry_after u now store = None"
    and room: "make_room pick u now store = store"
  shows "guesses_known u (past @ [now]) now (snd (record_failure pick u now store))"
proof -
  let ?old = "case map_of store u of None \<Rightarrow> no_record | Some rec \<Rightarrow> rec"
  let ?rec = "count_failure now ?old"
  have known_now: "guesses_known u past now store" using guesses_later [OF known \<open>t \<le> now\<close>] .
  have new: "snd (record_failure pick u now store) = AList.update u ?rec store"
    using free room by (simp add: record_failure_def Let_def)
  have old: "length (filter (recent later) past) \<le> length (filter (recent later) (lr_failures ?old))" if "now \<le> later" for later
    using known_now that by (cases "past = []") (auto simp: guesses_known_def)
  have counts: "length (filter (recent later) (past @ [now])) \<le> length (filter (recent later) (lr_failures ?rec))"
    if "now \<le> later" for later
  proof -
    have "(\<lambda>x. recent now x \<and> recent later x) = recent later" using that by (auto simp: recent_iff)
    then show ?thesis using old [OF that] by (simp add: counted_rec filter_filter)
  qed
  have "length (filter (recent now) (past @ [now])) \<le> length (lr_failures ?rec)"
    using old [of now] by (simp add: counted_rec)
  then have lock: "12 \<le> length (filter (recent now) (past @ [now])) \<longrightarrow> lr_locked_until ?rec = Some (now + int max_lock)"
    by (auto simp: counted_rec lock_for_cases)
  have gap: "last past + int max_lock \<le> now" if "past \<noteq> []" "12 \<le> length (filter (recent (last past)) past)"
    using known free that by (auto simp: guesses_known_def retry_after_def remaining_None)
  have "spaced (past @ [now])" using known gap by (intro spaced_snoc) (auto simp: guesses_known_def)
  then show ?thesis
    unfolding guesses_known_def new using known_now counts lock
    by (auto simp: guesses_known_def update_conv' sorted_append)
qed

lemma guesses_kept:
  assumes "guesses_known u past t store" and "store_ok store'" and "map_of store' u = map_of store u"
  shows "guesses_known u past t store'"
  using assms by (simp add: guesses_known_def)

subsection \<open>Runs of the handler\<close>

type_synonym login_request = "instant \<times> instant \<times> string \<times> string"

fun serve_logins :: "login_env \<Rightarrow> login_request list \<Rightarrow> lockouts \<Rightarrow> lockouts" where
  "serve_logins env [] store = store"
| "serve_logins env ((now, later, raw, password) # reqs) store =
     serve_logins env reqs (snd (local_login env now later raw password store))"

text \<open>A request that has the password of \<open>u\<close> checked, and is refused.\<close>

definition wrong_password :: "login_env \<Rightarrow> string \<Rightarrow> string \<Rightarrow> bool" where
  "wrong_password env u password \<longleftrightarrow>
     (case le_account env u of
        Inl _ \<Rightarrow> False
      | Inr None \<Rightarrow> True
      | Inr (Some (user, hash)) \<Rightarrow> le_verify env password hash \<noteq> Inr True)"

definition right_password :: "login_env \<Rightarrow> string \<Rightarrow> string \<Rightarrow> bool" where
  "right_password env u password \<longleftrightarrow>
     (case le_account env u of Inr (Some (user, hash)) \<Rightarrow> le_verify env password hash = Inr True | _ \<Rightarrow> False)"

definition guesses_at :: "login_env \<Rightarrow> string \<Rightarrow> login_request \<Rightarrow> lockouts \<Rightarrow> bool" where
  "guesses_at env u req store =
     (case req of (now, later, raw, password) \<Rightarrow>
        validate_local_username (le_lower env) raw = Some u \<and> retry_after u now store = None \<and>
        wrong_password env u password)"

fun guesses :: "login_env \<Rightarrow> string \<Rightarrow> login_request list \<Rightarrow> lockouts \<Rightarrow> instant list" where
  "guesses env u [] store = []"
| "guesses env u ((now, later, raw, password) # reqs) store =
     (if guesses_at env u (now, later, raw, password) store then [later] else []) @
     guesses env u reqs (snd (local_login env now later raw password store))"

definition none_right :: "login_env \<Rightarrow> string \<Rightarrow> login_request list \<Rightarrow> bool" where
  "none_right env u reqs \<longleftrightarrow>
     list_all (\<lambda>(_, _, raw, password). validate_local_username (le_lower env) raw = Some u \<longrightarrow> \<not> right_password env u password) reqs"

fun in_order :: "instant \<Rightarrow> login_request list \<Rightarrow> bool" where
  "in_order t [] = True"
| "in_order t ((now, later, _, _) # reqs) \<longleftrightarrow> t \<le> now \<and> now \<le> later \<and> in_order later reqs"

definition login_names :: "login_env \<Rightarrow> login_request list \<Rightarrow> string set" where
  "login_names env reqs =
     {u. \<exists>now later raw password. (now, later, raw, password) \<in> set reqs \<and> validate_local_username (le_lower env) raw = Some u}"

lemma room_enough:
  assumes "store_ok store" and "card (insert u (fst ` set store)) \<le> max_tracked_accounts"
  shows "make_room pick u now store = store"
proof (cases "u \<in> fst ` set store")
  case True
  then show ?thesis by (simp add: make_room_def map_of_eq_None_iff)
next
  case False
  moreover have "card (fst ` set store) = length store"
    using assms(1) distinct_card [of "map fst store"] by (simp add: store_ok_def)
  ultimately show ?thesis using assms(2) by (simp add: make_room_def)
qed

lemma failure_keys: "fst ` set (snd (record_failure pick u now store)) \<subseteq> insert u (fst ` set store)"
  if "make_room pick u now store = store"
  using that by (auto simp: record_failure_def Let_def dom_update split: option.splits)

lemma failure_other:
  assumes "make_room pick v now store = store" and "u \<noteq> v"
  shows "map_of (snd (record_failure pick v now store)) u = map_of store u"
  using assms by (simp add: record_failure_def Let_def update_conv' split: option.split)

lemma unlocked_later: "retry_after u now store = None \<Longrightarrow> now \<le> later \<Longrightarrow> retry_after u later store = None"
  by (auto simp: retry_after_def remaining_None split: option.splits)

lemma refused_store: "snd (refused_login env u now store) = snd (record_failure (le_pick env) u now store)"
  by (simp add: refused_login_def split: prod.split option.split)

text \<open>Every name that is tracked or tried fits in the store.\<close>

abbreviation room_for :: "login_env \<Rightarrow> login_request list \<Rightarrow> lockouts \<Rightarrow> bool" where
  "room_for env reqs store \<equiv>
     finite (login_names env reqs) \<and> card (fst ` set store \<union> login_names env reqs) \<le> max_tracked_accounts"

lemma finite_names: "finite (login_names env reqs)"
proof -
  have "login_names env reqs \<subseteq> the ` (\<lambda>(_, _, raw, _). validate_local_username (le_lower env) raw) ` set reqs"
    by (force simp: login_names_def image_iff)
  then show ?thesis by (rule finite_subset) simp
qed

lemma names_Cons:
  "login_names env ((now, later, raw, password) # reqs) =
    (case validate_local_username (le_lower env) raw of None \<Rightarrow> {} | Some u \<Rightarrow> {u}) \<union> login_names env reqs"
  by (auto simp: login_names_def split: option.splits)

lemma login_step:
  assumes known: "guesses_known u past t store" and times: "t \<le> now" "now \<le> later"
    and wrong: "validate_local_username (le_lower env) raw = Some u \<Longrightarrow> \<not> right_password env u password"
    and room: "card (fst ` set store \<union> login_names env [(now, later, raw, password)]) \<le> max_tracked_accounts"
  shows "guesses_known u (past @ (if guesses_at env u (now, later, raw, password) store then [later] else [])) later
      (snd (local_login env now later raw password store))"
    "fst ` set (snd (local_login env now later raw password store)) \<subseteq>
      fst ` set store \<union> login_names env [(now, later, raw, password)]"
proof -
  let ?store = "snd (local_login env now later raw password store)"
  have later: "guesses_known u past later store" by (rule guesses_later [OF known]) (use times in simp)
  have ok: "store_ok store" using known by (simp add: guesses_known_def)
  have goal: "guesses_known u (past @ (if guesses_at env u (now, later, raw, password) store then [later] else [])) later ?store \<and>
    fst ` set ?store \<subseteq> fst ` set store \<union> login_names env [(now, later, raw, password)]"
  proof (cases "validate_local_username (le_lower env) raw")
    case None
    then show ?thesis using later by (auto simp: local_login_def guesses_at_def)
  next
    case (Some v)
    then have names: "login_names env [(now, later, raw, password)] = {v}"
      by (simp add: names_Cons) (simp add: login_names_def)
    have full: "make_room (le_pick env) v later store = store"
      using room_enough [OF ok] room names by simp
    show ?thesis
    proof (cases "retry_after v now store")
      case (Some secs)
      then show ?thesis using \<open>validate_local_username (le_lower env) raw = Some v\<close> later
        by (auto simp: local_login_def guesses_at_def)
    next
      case None
      then have free: "retry_after v later store = None" by (rule unlocked_later) (rule times)
      show ?thesis
      proof (cases "wrong_password env v password")
        case True
        then have store: "?store = snd (record_failure (le_pick env) v later store)"
          using None Some
          by (auto simp: local_login_def wrong_password_def refused_store split: option.splits sum.splits bool.splits)
        have keys: "fst ` set ?store \<subseteq> fst ` set store \<union> {v}"
          using failure_keys [OF full] store by auto
        show ?thesis
        proof (cases "u = v")
          case True
          then show ?thesis
            using guess_counted [OF known _ _ full [folded True]] times free store keys names Some None
              \<open>wrong_password env v password\<close> by (simp add: guesses_at_def)
        next
          case False
          then show ?thesis
            using guesses_kept [OF later store_ok_failure [OF ok] failure_other [OF full False]] store keys names Some
            by (simp add: guesses_at_def)
        qed
      next
        case not_wrong: False
        show ?thesis
        proof (cases "right_password env v password")
        case False
        then have "?store = store" using None Some not_wrong
          by (auto simp: local_login_def wrong_password_def right_password_def split: option.splits sum.splits bool.splits)
        then show ?thesis using later Some not_wrong by (auto simp: guesses_at_def)
        next
        case True
        then have uv: "u \<noteq> v" using wrong Some by auto
        have store: "?store = record_success v store"
          using None Some True
          by (auto simp: local_login_def right_password_def split: option.splits sum.splits bool.splits)
        have "guesses_known u past later ?store"
          unfolding store record_success_def
          by (rule guesses_kept [OF later]) (simp_all add: ok delete_conv' uv)
        moreover have "fst ` set ?store \<subseteq> fst ` set store"
          by (auto simp: store record_success_def AList.delete_eq)
        ultimately show ?thesis using Some uv by (auto simp: guesses_at_def)
        qed
      qed
    qed
  qed
  then show "guesses_known u (past @ (if guesses_at env u (now, later, raw, password) store then [later] else [])) later ?store"
    "fst ` set ?store \<subseteq> fst ` set store \<union> login_names env [(now, later, raw, password)]" by blast+
qed

lemma guesses_run:
  assumes "guesses_known u past t store" and "in_order t reqs"
    and "none_right env u reqs"
    and "card (fst ` set store \<union> login_names env reqs) \<le> max_tracked_accounts"
  shows "\<exists>t'. guesses_known u (past @ guesses env u reqs store) t' (serve_logins env reqs store)"
  using assms
proof (induction env reqs store arbitrary: past t rule: serve_logins.induct)
  case (2 env now later raw password reqs store)
  let ?req = "(now, later, raw, password)" and ?store = "snd (local_login env now later raw password store)"
  have names: "login_names env (?req # reqs) = login_names env [?req] \<union> login_names env reqs"
    by (auto simp: login_names_def)
  have fin: "finite (fst ` set store \<union> login_names env (?req # reqs))" by (simp add: finite_names)
  have "card (fst ` set store \<union> login_names env [?req]) \<le> card (fst ` set store \<union> login_names env (?req # reqs))"
    by (rule card_mono [OF fin]) (auto simp: names)
  then have room: "card (fst ` set store \<union> login_names env [?req]) \<le> max_tracked_accounts" using "2.prems"(4) by simp
  note step = login_step [OF "2.prems"(1) _ _ _ room]
  have times: "t \<le> now" "now \<le> later" "in_order later reqs" using "2.prems"(2) by simp_all
  have wrong: "validate_local_username (le_lower env) raw = Some u \<Longrightarrow> \<not> right_password env u password"
    using "2.prems"(3) by (simp add: none_right_def)
  have "card (fst ` set ?store \<union> login_names env reqs) \<le> card (fst ` set store \<union> login_names env (?req # reqs))"
    by (rule card_mono [OF fin]) (use step(2) [OF times(1,2) wrong] names in auto)
  then have "card (fst ` set ?store \<union> login_names env reqs) \<le> max_tracked_accounts" using "2.prems"(4) by simp
  moreover have "none_right env u reqs" using "2.prems"(3) by (simp add: none_right_def)
  ultimately show ?case using "2.IH" [OF step(1) [OF times(1,2) wrong] times(3)] by simp
qed auto

subsection \<open>The properties\<close>

text \<open>
  C20: Guessing one password is slow. However many logins are sent, as long as no more names are tried than the store
  tracks, an account has at most 13 wrong passwords checked in any half hour (as long as no right one is sent,
  which ends the count), wherever that half hour starts.
\<close>

theorem login_guesses_bounded:
  assumes "store_ok store" and "in_order t reqs"
    and "none_right env u reqs"
    and "card (fst ` set store \<union> login_names env reqs) \<le> max_tracked_accounts"
  shows "length (filter (\<lambda>x. a \<le> x \<and> x < a + int failure_window) (guesses env u reqs store)) \<le> 13"
proof -
  have "guesses_known u [] t store" using assms(1) by (simp add: guesses_known_def spaced_def)
  then obtain t' where "guesses_known u (guesses env u reqs store) t' (serve_logins env reqs store)"
    using guesses_run [OF _ assms(2-4), of "[]"] by auto
  then show ?thesis by (intro window_of_spaced) (simp_all add: guesses_known_def)
qed

definition guessing_env :: login_env where
  "guessing_env = \<lparr>le_lower = to_ascii_lowercase, le_account = (\<lambda>_. Inr (Some (''user'', ''hash''))),
     le_verify = (\<lambda>password hash. Inr (password = ''right'')), le_pick = hd\<rparr>"

definition two_guesses :: "login_request list" where
  "two_guesses = [(1, 2, ''Boss'', ''a''), (3, 4, '' boss'', ''b'')]"

lemma boss_names:
  "validate_local_username to_ascii_lowercase ''Boss'' = Some ''boss''"
  "validate_local_username to_ascii_lowercase '' boss'' = Some ''boss''"
  by code_simp+

lemma login_guesses_bounded_witness:
  "length (filter (\<lambda>x. 0 \<le> x \<and> x < 0 + int failure_window) (guesses guessing_env ''boss'' two_guesses [])) \<le> 13"
proof (rule login_guesses_bounded)
  show "store_ok []" by (simp add: store_ok_def)
  show "in_order 0 two_guesses" by (simp add: two_guesses_def)
  show "none_right guessing_env ''boss'' two_guesses"
    by (simp add: none_right_def two_guesses_def right_password_def guessing_env_def)
  have "login_names guessing_env two_guesses = {''boss''}"
    using boss_names by (auto simp: login_names_def two_guesses_def guessing_env_def)
  then show "card (fst ` set [] \<union> login_names guessing_env two_guesses) \<le> max_tracked_accounts"
    by (simp add: max_tracked_accounts_def)
qed

lemma rank_locked: "fst (eviction_rank rec now) \<longleftrightarrow> remaining rec now \<noteq> None"
  by (simp add: eviction_rank_def Let_def)

lemma least_exists:
  assumes "store \<noteq> []"
  shows "filter (\<lambda>(k, rec). list_all (\<lambda>(k', rec'). eviction_rank rec now \<le> eviction_rank rec' now) store) store \<noteq> []"
proof -
  let ?ranks = "(\<lambda>(k, rec). eviction_rank rec now) ` set store"
  have "Min ?ranks \<in> ?ranks" using assms by (intro Min_in) simp_all
  then obtain k rec where least: "(k, rec) \<in> set store" "eviction_rank rec now = Min ?ranks" by auto
  have "eviction_rank rec now \<le> eviction_rank rec' now" if "(k', rec') \<in> set store" for k' rec'
    unfolding least(2) using that by (intro Min_le) force+
  then show ?thesis using least(1) by (auto simp: filter_empty_conv list_all_iff)
qed

text \<open>The victim is tracked, and not locked while another account is not.\<close>

lemma evicted:
  assumes ok: "store_ok store" and pick: "\<And>ks. ks \<noteq> [] \<Longrightarrow> pick ks \<in> set ks"
    and free: "map_of store w = Some free" "remaining free now = None"
  shows "\<exists>k rec. map_of store k = Some rec \<and> remaining rec now = None \<and>
    evict_least_valuable pick now store = AList.delete k store"
proof -
  let ?least = "filter (\<lambda>(k, rec). list_all (\<lambda>(k', rec'). eviction_rank rec now \<le> eviction_rank rec' now) store) store"
  have w: "(w, free) \<in> set store" using free(1) by (rule map_of_SomeD)
  then have ne: "?least \<noteq> []" by (intro least_exists) auto
  then have "pick (map fst ?least) \<in> set (map fst ?least)" by (intro pick) simp
  then obtain rec where rec: "(pick (map fst ?least), rec) \<in> set store"
    "eviction_rank rec now \<le> eviction_rank free now"
    using w by (auto simp: list_all_iff)
  have "remaining rec now = None"
    using rec(2) rank_locked [of free now] rank_locked [of rec now] free(2)
    by (cases "eviction_rank rec now"; cases "eviction_rank free now") auto
  moreover have "map_of store (pick (map fst ?least)) = Some rec"
    using ok rec(1) by (simp add: store_ok_def)
  moreover have "evict_least_valuable pick now store = AList.delete (pick (map fst ?least)) store"
    using ne unfolding evict_least_valuable_def Let_def by (rule if_not_P)
  ultimately show ?thesis by blast
qed

lemma length_update: "length (AList.update k rec store) = (if k \<in> fst ` set store then length store else Suc (length store))"
  by (induction store) auto

lemma length_delete: "map_of store k = Some rec \<Longrightarrow> length (AList.delete k store) < length store"
  unfolding AList.delete_eq by (intro length_filter_less) (auto dest: map_of_SomeD)

lemma room_made:
  assumes ok: "store_ok store" and full: "length store \<le> max_tracked_accounts"
    and pick: "\<And>ks. ks \<noteq> [] \<Longrightarrow> pick ks \<in> set ks"
    and locked: "map_of store v = Some locked" "remaining locked now \<noteq> None"
    and free: "map_of store w = Some free" "remaining free now = None"
  shows "map_of (make_room pick u now store) v = Some locked"
    "length (AList.update u rec (make_room pick u now store)) \<le> max_tracked_accounts"
proof -
  let ?kept = "filter (\<lambda>(k, rec). \<not> is_idle rec now) store" and ?room = "make_room pick u now store"
  have "map_of ?room v = Some locked \<and> (length ?room < max_tracked_accounts \<or> u \<in> fst ` set store \<and> ?room = store)"
  proof (cases "map_of store u = None \<and> max_tracked_accounts \<le> length store")
    case False
    then show ?thesis using locked(1) by (auto simp: make_room_def map_of_eq_None_iff)
  next
    case True
    have kept: "map_of ?kept v = Some locked"
      using map_of_filter_keys [OF ok, of "\<lambda>rec. \<not> is_idle rec now" v] locked by (simp add: is_idle_def)
    show ?thesis
    proof (cases "max_tracked_accounts \<le> length ?kept")
      case False
      then show ?thesis using True kept by (simp add: make_room_def)
    next
      case all: True
      then have "length ?kept = length store" using full by (meson length_filter_le le_antisym le_trans)
      then have "?kept = store" by (metis filter_id_conv length_filter_less less_irrefl)
      moreover obtain k rec where "map_of store k = Some rec" "remaining rec now = None"
        "evict_least_valuable pick now store = AList.delete k store"
        using evicted [OF ok pick free] by blast
      ultimately have "?room = AList.delete k store" "k \<noteq> v" "length (AList.delete k store) < length store"
        using True all locked length_delete by (auto simp: make_room_def Let_def)
      then show ?thesis using full locked(1) by (simp add: delete_conv')
    qed
  qed
  then show "map_of ?room v = Some locked" "length (AList.update u rec ?room) \<le> max_tracked_accounts"
    using full by (auto simp: length_update)
qed

text \<open>
  C37: The store keeps a locked account. A failed login of another name, even one that finds the store full, leaves an
  account locked, with the same deadline, as long as some tracked account is not locked; and a store within its cap
  stays within it.
\<close>

theorem locked_accounts_kept:
  assumes "store_ok store" and "length store \<le> max_tracked_accounts"
    and pick: "\<And>ks. ks \<noteq> [] \<Longrightarrow> pick ks \<in> set ks"
    and "map_of store v = Some locked" and "remaining locked now \<noteq> None" and "u \<noteq> v"
    and "map_of store w = Some free" and "remaining free now = None"
  shows "map_of (snd (record_failure pick u now store)) v = Some locked \<and>
    length (snd (record_failure pick u now store)) \<le> max_tracked_accounts"
proof (cases "retry_after u now store")
  case None
  then show ?thesis
    using room_made [OF assms(1-5) assms(7,8)] \<open>u \<noteq> v\<close> by (simp add: record_failure_def Let_def update_conv')
next
  case (Some secs)
  then show ?thesis using assms(2,4) by (simp add: record_failure_def)
qed

text \<open>One locked and one unlocked account, and a failure of a third.\<close>

definition two_accounts :: lockouts where
  "two_accounts = [(''b'', \<lparr>lr_failures = [5], lr_locked_until = Some 900\<rparr>), (''c'', \<lparr>lr_failures = [6], lr_locked_until = None\<rparr>)]"

lemma locked_accounts_kept_witness:
  "map_of (snd (record_failure hd ''a'' 10 two_accounts)) ''b'' = Some \<lparr>lr_failures = [5], lr_locked_until = Some 900\<rparr> \<and>
    length (snd (record_failure hd ''a'' 10 two_accounts)) \<le> max_tracked_accounts"
  by (rule locked_accounts_kept [where w = "''c''" and free = "\<lparr>lr_failures = [6], lr_locked_until = None\<rparr>"])
    (simp_all add: store_ok_def two_accounts_def max_tracked_accounts_def remaining_def)

end
