(* ===== verification/LinkLimits.thy ===== *)
theory LinkLimits
  imports RateWindow "HOL-Library.AList"
begin

text \<open>
  The per-address limits of the device sign-in: wrong user codes (\<open>crates/site-server/src/link_attempts.rs\<close>) and
  polls (\<open>link_poll.rs\<close>). Both maps hold at most 4096 addresses; as the iteration order of a \<open>HashMap\<close> is not
  specified, the choice among equally good victims is an argument \<open>pick\<close>. The wall clock of the polls is in
  nanoseconds like the other clocks.
\<close>

definition max_ips :: nat where
  "max_ips = 4096"

subsection \<open>Wrong codes\<close>

definition link_wrong_code_limit :: nat where
  "link_wrong_code_limit = 5"

definition code_window :: duration where
  "code_window = from_secs 600"

type_synonym 'ip code_book = "('ip \<times> instant list) list"

definition code_live :: "instant \<Rightarrow> instant \<Rightarrow> bool" where
  "code_live now t \<longleftrightarrow> since now t < code_window"

definition blocked :: "instant list \<Rightarrow> instant \<Rightarrow> nat option" where
  "blocked stamps now =
     (case filter (code_live now) stamps of
        [] \<Rightarrow> None
      | t # ts \<Rightarrow> if length (t # ts) < link_wrong_code_limit then None
          else Some (max (as_secs (code_window - since now (fold min ts t))) 1))"

definition codes_retry_after :: "'ip \<Rightarrow> instant \<Rightarrow> 'ip code_book \<Rightarrow> nat option" where
  "codes_retry_after ip now book = (case map_of book ip of None \<Rightarrow> None | Some stamps \<Rightarrow> blocked stamps now)"

text \<open>\<open>Option\<close> is ordered with \<open>None\<close> first.\<close>

definition last_le :: "instant list \<Rightarrow> instant list \<Rightarrow> bool" where
  "last_le ts us \<longleftrightarrow> ts = [] \<or> us \<noteq> [] \<and> last ts \<le> last us"

definition codes_room :: "('ip list \<Rightarrow> 'ip) \<Rightarrow> 'ip \<Rightarrow> instant \<Rightarrow> 'ip code_book \<Rightarrow> 'ip code_book" where
  "codes_room pick ip now book =
     (if max_ips \<le> length book \<and> map_of book ip = None
      then (let kept = filter (\<lambda>(_, stamps). list_ex (code_live now) stamps) book;
                oldest = filter (\<lambda>(_, ts). list_all (\<lambda>(_, us). last_le ts us) kept) kept
            in if max_ips \<le> length kept \<and> oldest \<noteq> [] then AList.delete (pick (map fst oldest)) kept else kept)
      else book)"

definition record_wrong_code :: "('ip list \<Rightarrow> 'ip) \<Rightarrow> 'ip \<Rightarrow> instant \<Rightarrow> 'ip code_book \<Rightarrow> 'ip code_book" where
  "record_wrong_code pick ip now book =
     (let room = codes_room pick ip now book;
          stamps = filter (code_live now) (case map_of room ip of None \<Rightarrow> [] | Some ts \<Rightarrow> ts)
      in AList.update ip (if length stamps < link_wrong_code_limit then stamps @ [now] else stamps) room)"

subsection \<open>Polls\<close>

definition link_poll_burst :: nat where
  "link_poll_burst = 30"

definition link_poll_refill_secs :: nat where
  "link_poll_refill_secs = 1"

record poll_bucket =
  pb_tokens :: nat
  pb_as_of :: instant

type_synonym 'ip poll_book = "('ip \<times> poll_bucket) list"

definition elapsed_ms :: "instant \<Rightarrow> instant \<Rightarrow> nat" where
  "elapsed_ms now as_of = nat (now - as_of) div 1000000"

text \<open>One poll on its bucket: the seconds to wait, or the bucket left.\<close>

definition take_cell :: "instant \<Rightarrow> poll_bucket \<Rightarrow> nat + poll_bucket" where
  "take_cell now b =
     (let refill_ms = link_poll_refill_secs * 1000;
          elapsed = elapsed_ms now (pb_as_of b);
          grown = sat_add (pb_tokens b) (as_u32 (elapsed div refill_ms));
          tokens = (if link_poll_burst \<le> grown then link_poll_burst else grown);
          leftover = (if link_poll_burst \<le> grown then 0 else elapsed mod refill_ms)
      in if tokens = 0 then Inl (max ((refill_ms - leftover + 999) div 1000) 1)
         else Inr \<lparr>pb_tokens = tokens - 1, pb_as_of = now - int (leftover * 1000000)\<rparr>)"

definition polls_room :: "('ip list \<Rightarrow> 'ip) \<Rightarrow> 'ip \<Rightarrow> 'ip poll_book \<Rightarrow> 'ip poll_book" where
  "polls_room pick ip book =
     (if max_ips \<le> length book \<and> map_of book ip = None
      then (let kept = filter (\<lambda>(_, b). pb_tokens b < link_poll_burst) book
            in if max_ips \<le> length kept \<and> kept \<noteq> [] then AList.delete (pick (map fst kept)) kept else kept)
      else book)"

text \<open>\<open>entry(ip).or_insert(..)\<close>: a full bucket for a new address.\<close>

definition bucket_at :: "'ip \<Rightarrow> instant \<Rightarrow> 'ip poll_book \<Rightarrow> poll_bucket" where
  "bucket_at ip now book =
     (case map_of book ip of None \<Rightarrow> \<lparr>pb_tokens = link_poll_burst, pb_as_of = now\<rparr> | Some b \<Rightarrow> b)"

definition poll_take :: "('ip list \<Rightarrow> 'ip) \<Rightarrow> 'ip \<Rightarrow> instant \<Rightarrow> 'ip poll_book \<Rightarrow> nat option \<times> 'ip poll_book" where
  "poll_take pick ip now book =
     (let room = polls_room pick ip book;
          b = bucket_at ip now room
      in case take_cell now b of
           Inl secs \<Rightarrow> (Some secs, AList.update ip b room)
         | Inr b' \<Rightarrow> (None, AList.update ip b' room))"

subsection \<open>Wrong codes over a run\<close>

text \<open>
  An attempt as the three code routes make it: a blocked address is refused, another one has its code looked up,
  and a wrong code is counted. The attempts come from a set of addresses that fits in the book.
\<close>

definition wrong_attempt ::
  "('ip list \<Rightarrow> 'ip) \<Rightarrow> 'ip set \<Rightarrow> 'ip \<Rightarrow> 'ip \<Rightarrow> instant \<Rightarrow> 'ip code_book \<Rightarrow> bool \<times> 'ip code_book" where
  "wrong_attempt pick clients ip x now book =
     (if x \<notin> clients \<or> codes_retry_after x now book \<noteq> None then (False, book)
      else (x = ip, record_wrong_code pick x now book))"

definition code_stamps :: "'ip \<Rightarrow> 'ip code_book \<Rightarrow> instant list" where
  "code_stamps ip book = (case map_of book ip of None \<Rightarrow> [] | Some ts \<Rightarrow> ts)"

definition codes_ok :: "'ip set \<Rightarrow> instant \<Rightarrow> 'ip code_book \<Rightarrow> bool" where
  "codes_ok clients t book \<longleftrightarrow> distinct (map fst book) \<and> fst ` set book \<subseteq> clients \<and> finite clients \<and> card clients \<le> max_ips"

lemma book_fits:
  assumes "distinct (map fst book)" and "fst ` set book \<subseteq> clients" and "finite clients" and "card clients \<le> max_ips"
    and "x \<in> clients" and "map_of book x = None"
  shows "length book < max_ips"
proof -
  have "length book = card (fst ` set book)" using distinct_card [OF assms(1)] by simp
  also have "\<dots> < card clients"
    using assms by (intro psubset_card_mono) (auto simp: map_of_eq_None_iff)
  finally show ?thesis using assms(4) by simp
qed

lemma codes_room_kept: "codes_ok clients t book \<Longrightarrow> x \<in> clients \<Longrightarrow> codes_room pick x now book = book"
  using book_fits [of book clients x] by (auto simp: codes_room_def codes_ok_def)

lemma code_live_iff: "code_live now t \<longleftrightarrow> now < t + int code_window"
  by (simp add: code_live_def since_less_iff code_window_def from_secs_def)

lemma not_blocked: "blocked stamps now = None \<longleftrightarrow> length (filter (code_live now) stamps) < link_wrong_code_limit"
  by (simp add: blocked_def link_wrong_code_limit_def split: list.split)

lemma wrong_code_counted:
  assumes "codes_ok clients t book" and "x \<in> clients" and "codes_retry_after x now book = None"
  shows "record_wrong_code pick x now book = AList.update x (filter (code_live now) (code_stamps x book) @ [now]) book"
proof -
  have "length (filter (code_live now) (code_stamps x book)) < link_wrong_code_limit"
    using assms(3) not_blocked by (auto simp: codes_retry_after_def code_stamps_def link_wrong_code_limit_def split: option.splits)
  then show ?thesis
    using codes_room_kept [OF assms(1,2)] by (simp add: record_wrong_code_def code_stamps_def Let_def)
qed

lemma codes_ok_update: "codes_ok clients t book \<Longrightarrow> x \<in> clients \<Longrightarrow> codes_ok clients t (AList.update x ts book)"
  unfolding codes_ok_def by (auto simp: distinct_update dom_update)

lemma stamps_update: "code_stamps ip (AList.update x ts book) = (if x = ip then ts else code_stamps ip book)"
  by (simp add: code_stamps_def update_conv')

lemma count_later: "now \<le> later \<Longrightarrow> count_live code_live later (filter (code_live now) ts) = count_live code_live later ts"
  unfolding count_live_def filter_filter by (rule arg_cong [where f = length], rule filter_cong) (auto simp: code_live_iff)

interpretation wrong_codes: rate_limiter "wrong_attempt pick clients ip" "code_stamps ip" code_live
  "codes_ok clients" link_wrong_code_limit
  for pick :: "'ip list \<Rightarrow> 'ip" and clients :: "'ip set" and ip :: 'ip
proof (unfold_locales, goal_cases)
  case (3 now s x b s')
  then show ?case
    using codes_ok_update [of clients now s x "filter (code_live now) (code_stamps x s) @ [now]"]
      wrong_code_counted [of clients now s x now pick]
    by (auto simp: wrong_attempt_def split: if_splits)
next
  case (4 now s x s')
  then have "codes_retry_after ip now s = None" by (auto simp: wrong_attempt_def split: if_splits)
  then have "length (filter (code_live now) (code_stamps ip s)) < link_wrong_code_limit"
    using not_blocked by (auto simp: codes_retry_after_def code_stamps_def link_wrong_code_limit_def split: option.splits)
  then show ?case by (simp add: count_live_def)
next
  case (5 now s x s' later)
  then have "s' = AList.update ip (filter (code_live now) (code_stamps ip s) @ [now]) s"
    using wrong_code_counted [of clients now s ip now pick] by (auto simp: wrong_attempt_def split: if_splits)
  then show ?case using count_later [OF 5(3), of "code_stamps ip s"] by (simp add: stamps_update)
next
  case (6 now s x s' later)
  then have "code_stamps ip s' = code_stamps ip s"
    by (cases "x \<in> clients \<and> codes_retry_after x now s = None")
      (auto simp: wrong_attempt_def stamps_update wrong_code_counted [of clients now s x now pick])
  then show ?case by simp
qed (auto simp: code_live_iff codes_ok_def)

text \<open>
  User codes cannot be guessed from one address. Over any attempts in time order, the wrong codes of an address
  that were looked up in the last ten minutes are at most five, as long as the addresses fit in the book.
\<close>

theorem wrong_codes_bounded:
  assumes "finite clients" and "card clients \<le> max_ips" and "ordered_from t attempts" and "end_time t attempts \<le> later"
  shows "count_live code_live later (accepted (wrong_attempt pick clients ip) [] attempts) \<le> link_wrong_code_limit"
  by (rule wrong_codes.accepted_window [OF _ assms(3,4)]) (simp add: codes_ok_def assms)

lemma wrong_codes_bounded_witness:
  "count_live code_live 9 (accepted (wrong_attempt hd {7 :: nat, 8} 7) [] [(7, 1), (8, 2), (7, 3)]) \<le> link_wrong_code_limit"
  by (rule wrong_codes_bounded [of _ 0]) (simp_all add: max_ips_def)

subsection \<open>Polls over a run\<close>

text \<open>The times at which a poll of an address was let through.\<close>

fun passed :: "('ip list \<Rightarrow> 'ip) \<Rightarrow> 'ip \<Rightarrow> ('ip \<times> instant) list \<Rightarrow> 'ip poll_book \<Rightarrow> instant list" where
  "passed pick ip [] book = []"
| "passed pick ip ((x, now) # rest) book =
     (if x = ip \<and> fst (poll_take pick x now book) = None then [now] else []) @
     passed pick ip rest (snd (poll_take pick x now book))"

definition polls_ok :: "'ip set \<Rightarrow> instant \<Rightarrow> 'ip poll_book \<Rightarrow> bool" where
  "polls_ok clients t book \<longleftrightarrow> distinct (map fst book) \<and> fst ` set book \<subseteq> clients \<and> finite clients \<and>
     card clients \<le> max_ips \<and> (\<forall>k b. map_of book k = Some b \<longrightarrow> pb_as_of b \<le> t)"

lemma poll_take_kept:
  assumes "polls_ok clients t book" and "x \<in> clients"
  shows "poll_take pick x now book =
    (case take_cell now (bucket_at x now book) of
       Inl secs \<Rightarrow> (Some secs, AList.update x (bucket_at x now book) book)
     | Inr b' \<Rightarrow> (None, AList.update x b' book))"
proof -
  have "polls_room pick x book = book"
    using assms book_fits [of book clients x] by (auto simp: polls_room_def polls_ok_def)
  then show ?thesis by (simp add: poll_take_def Let_def)
qed

text \<open>
  The cells that were used since a time \<open>t\<close>, the cells left and the refill time account for each other.
\<close>

definition second :: int where
  "second = 1000000000"

definition accounted :: "instant \<Rightarrow> nat \<Rightarrow> poll_bucket \<Rightarrow> bool" where
  "accounted t used b \<longleftrightarrow>
     used = 0 \<or> (int used + int (pb_tokens b)) * second \<le> int link_poll_burst * second + (pb_as_of b - t)"

lemma elapsed_bound:
  assumes "as_of \<le> now"
  shows "int (as_u32 (elapsed_ms now as_of div 1000)) * second + int (elapsed_ms now as_of mod 1000 * 1000000) \<le> now - as_of"
proof -
  let ?ms = "elapsed_ms now as_of"
  have "int ?ms = (now - as_of) div 1000000" using assms by (simp add: elapsed_ms_def zdiv_int)
  then have "int ?ms * 1000000 \<le> now - as_of" by simp
  moreover have "int (?ms div 1000) * 1000 + int (?ms mod 1000) = int ?ms" by (simp add: zdiv_int zmod_int)
  moreover have "int (as_u32 (?ms div 1000)) \<le> int (?ms div 1000)" by (simp add: as_u32_def)
  ultimately show ?thesis by (simp add: second_def)
qed

lemma take_cell_accounted:
  assumes acc: "accounted t used b" and "t \<le> now" and old: "pb_as_of b \<le> now" and taken: "take_cell now b = Inr b'"
  shows "accounted t (used + 1) b'" "pb_as_of b' \<le> now"
proof -
  let ?elapsed = "elapsed_ms now (pb_as_of b)"
  let ?gained = "as_u32 (?elapsed div 1000)" and ?rest = "int (?elapsed mod 1000 * 1000000)"
  note grown = elapsed_bound [OF old]
  have rest: "0 \<le> ?rest" "?rest < second" by (simp_all add: second_def)
  show "pb_as_of b' \<le> now"
    using taken by (auto simp: take_cell_def link_poll_refill_secs_def Let_def split: if_splits)
  show "accounted t (used + 1) b'"
  proof (cases "link_poll_burst \<le> sat_add (pb_tokens b) ?gained")
    case True
    then have b': "pb_tokens b' = 29" "pb_as_of b' = now"
      using taken by (auto simp: take_cell_def link_poll_refill_secs_def link_poll_burst_def Let_def)
    have "30 \<le> int (pb_tokens b) + int ?gained" using True by (simp add: sat_add_def link_poll_burst_def)
    then have full: "30 * second \<le> (int (pb_tokens b) + int ?gained) * second"
      by (intro mult_right_mono) (simp_all add: second_def)
    show ?thesis using acc full grown rest b' \<open>t \<le> now\<close>
      by (auto simp: accounted_def link_poll_burst_def algebra_simps)
  next
    case False
    let ?tokens = "sat_add (pb_tokens b) ?gained"
    have b': "int (pb_tokens b') + 1 = int ?tokens" "pb_as_of b' = now - ?rest"
      using taken False by (auto simp: take_cell_def link_poll_refill_secs_def Let_def split: if_splits)
    have "int ?tokens \<le> int (pb_tokens b) + int ?gained" "int ?tokens \<le> 29"
      using False by (simp_all add: sat_add_def link_poll_burst_def u32_max_def split: if_splits)
    then have few: "int ?tokens * second \<le> (int (pb_tokens b) + int ?gained) * second" "int ?tokens * second \<le> 29 * second"
      by (simp_all add: second_def)
    show ?thesis using acc few grown rest b' \<open>t \<le> now\<close>
      unfolding accounted_def link_poll_burst_def second_def by auto
  qed
qed

lemma polls_ok_take:
  assumes ok: "polls_ok clients t book" and "x \<in> clients" and "t \<le> now"
  shows "polls_ok clients now (snd (poll_take pick x now book))"
proof -
  have old: "pb_as_of (bucket_at x now book) \<le> now"
    using ok \<open>t \<le> now\<close> by (force simp: bucket_at_def polls_ok_def split: option.split)
  have put: "polls_ok clients now (AList.update x b book)" if "pb_as_of b \<le> now" for b
    using ok \<open>x \<in> clients\<close> \<open>t \<le> now\<close> that
    by (fastforce simp: polls_ok_def distinct_update dom_update update_conv')
  show ?thesis
  proof (cases "take_cell now (bucket_at x now book)")
    case (Inl secs)
    then show ?thesis using poll_take_kept [OF assms(1,2), of pick now] put [OF old] by simp
  next
    case (Inr b')
    have "pb_as_of b' \<le> now" using Inr by (auto simp: take_cell_def Let_def split: if_splits)
    then show ?thesis using poll_take_kept [OF assms(1,2), of pick now] put Inr by simp
  qed
qed

lemma passed_accounted:
  assumes "ordered_from now0 reqs" and "t \<le> now0" and "polls_ok clients now0 book" and "fst ` set reqs \<subseteq> clients"
    and "used = 0 \<or> (\<exists>b. map_of book ip = Some b \<and> accounted t used b)"
  shows "int (used + length (passed pick ip reqs book)) * second \<le> int link_poll_burst * second + (end_time now0 reqs - t)"
  using assms
proof (induction reqs arbitrary: now0 book used)
  case Nil
  show ?case
  proof (cases "used = 0")
    case False
    then obtain b where b: "map_of book ip = Some b" "accounted t used b" using Nil by blast
    then have "pb_as_of b \<le> now0" using Nil(3) by (auto simp: polls_ok_def)
    then show ?thesis using b(2) False by (simp add: accounted_def second_def)
  qed (use Nil(2) in \<open>simp add: second_def\<close>)
next
  case (Cons req reqs)
  obtain x now where req: "req = (x, now)" by force
  let ?book = "snd (poll_take pick x now book)" and ?bucket = "bucket_at x now book"
  let ?passed = "x = ip \<and> fst (poll_take pick x now book) = None"
  have facts: "now0 \<le> now" "x \<in> clients" "ordered_from now reqs" using Cons.prems req by auto
  note ok = polls_ok_take [OF Cons.prems(3) facts(2,1), of pick]
  note take = poll_take_kept [OF Cons.prems(3) facts(2), of pick now]
  have old: "pb_as_of ?bucket \<le> now"
    using Cons.prems(3) facts(1) by (force simp: bucket_at_def polls_ok_def split: option.split)
  have "used + (if ?passed then 1 else 0) = 0 \<or>
      (\<exists>b. map_of ?book ip = Some b \<and> accounted t (used + (if ?passed then 1 else 0)) b)"
  proof (cases "x = ip")
    case True
    have acc: "accounted t used ?bucket"
      using Cons.prems(5) True by (auto simp: bucket_at_def accounted_def)
    show ?thesis
    proof (cases "take_cell now ?bucket")
      case (Inl secs)
      then show ?thesis using take acc True by (simp add: update_conv')
    next
      case (Inr b')
      have "accounted t (used + 1) b'" using take_cell_accounted(1) [OF acc _ old Inr] Cons.prems(2) facts(1) by simp
      then show ?thesis using take Inr True by (simp add: update_conv')
    qed
  next
    case False
    then have "map_of ?book ip = map_of book ip" using take by (simp add: update_conv' split: sum.split)
    then show ?thesis using Cons.prems(5) False by auto
  qed
  from Cons.IH [OF facts(3) _ ok _ this] Cons.prems(2,4) facts(1)
  have "int ((used + (if ?passed then 1 else 0)) + length (passed pick ip reqs ?book)) * second \<le>
      int link_poll_burst * second + (end_time now reqs - t)" by simp
  moreover have "length (passed pick ip (req # reqs) book) = (if ?passed then 1 else 0) + length (passed pick ip reqs ?book)"
    unfolding req passed.simps by (cases ?passed) auto
  moreover have "end_time now0 (req # reqs) = end_time now reqs" by (simp add: req)
  ultimately show ?case by (simp only: add.assoc)
qed

text \<open>
  The polls of an address are limited. From any state of the buckets, the polls that one address gets through in a
  run are at most the burst plus one for each second of the run, as long as the addresses fit in the map.
\<close>

theorem link_polls_bounded:
  assumes "polls_ok clients t book" and "ordered_from t reqs" and "fst ` set reqs \<subseteq> clients"
  shows "int (length (passed pick ip reqs book)) * second \<le> int link_poll_burst * second + (end_time t reqs - t)"
  using passed_accounted [OF assms(2) order_refl assms(1,3), of 0] by simp

lemma link_polls_bounded_witness:
  "int (length (passed hd (7 :: nat) [(7, 1), (8, 2), (7, 3)] [])) * second \<le> int link_poll_burst * second + (3 - 0)"
proof -
  have "polls_ok {7 :: nat, 8} 0 []" by (simp add: polls_ok_def max_ips_def)
  from link_polls_bounded [OF this, of "[(7, 1), (8, 2), (7, 3)]" hd 7] show ?thesis
    by (simp del: passed.simps)
qed

lemma take_cell_empty: "take_cell now b = Inl secs \<Longrightarrow> pb_tokens b = 0"
  by (auto simp: take_cell_def sat_add_def u32_max_def link_poll_burst_def Let_def split: if_splits)

text \<open>
  The pruning of a full map drops nothing: a bucket is stored only after a cell was taken from it, so no stored bucket
  is full, however long ago its address polled.
\<close>

lemma full_buckets_never_stored:
  assumes "\<And>k b. map_of book k = Some b \<Longrightarrow> pb_tokens b < link_poll_burst" and "distinct (map fst book)"
    and "map_of (snd (poll_take pick x now book)) k = Some b"
  shows "pb_tokens b < link_poll_burst"
proof -
  have kept: "filter (\<lambda>(_, b). pb_tokens b < link_poll_burst) book = book"
    using assms(1,2) by (auto simp: filter_id_conv)
  have room: "pb_tokens b < link_poll_burst" if "map_of (polls_room pick x book) k = Some b" for k b
    using that assms(1) by (auto simp: polls_room_def kept delete_conv' split: if_splits)
  show ?thesis
  proof (cases "take_cell now (bucket_at x now (polls_room pick x book))")
    case (Inl secs)
    then have "bucket_at x now (polls_room pick x book) \<noteq> \<lparr>pb_tokens = link_poll_burst, pb_as_of = now\<rparr>"
      by (auto dest!: take_cell_empty simp: link_poll_burst_def)
    then have "map_of (polls_room pick x book) x = Some (bucket_at x now (polls_room pick x book))"
      by (auto simp: bucket_at_def split: option.splits)
    then show ?thesis using assms(3) Inl room by (auto simp: poll_take_def update_conv' Let_def split: if_splits)
  next
    case (Inr b')
    then have "pb_tokens b' < link_poll_burst"
      by (auto simp: take_cell_def link_poll_burst_def Let_def split: if_splits)
    then show ?thesis using assms(3) Inr room by (auto simp: poll_take_def update_conv' Let_def split: if_splits)
  qed
qed

end
