(* ===== verification/NostrLogin.thy ===== *)
theory NostrLogin
  imports RateWindow "HOL-Library.AList"
begin

text \<open>
  Signing in with a Nostr key: the challenge tokens and the freshness of events (\<open>crates/site-server/src/routes/nostr.rs\<close>),
  the store of used challenges (\<open>challenge_store.rs\<close>), and \<open>nostr_login_verify\<close> of \<open>routes/auth.rs\<close> up to
  the new session. The clock is in nanoseconds since the epoch; the checks of one request read it once.
\<close>

subsection \<open>Used challenges\<close>

type_synonym used_challenges = "(string \<times> instant) list"

definition consume :: "string \<Rightarrow> duration \<Rightarrow> instant \<Rightarrow> used_challenges \<Rightarrow> bool \<times> used_challenges" where
  "consume challenge ttl now used =
     (let live = filter (\<lambda>(_, expiry). now < expiry) used
      in if map_of live challenge \<noteq> None then (False, live)
         else (True, AList.update challenge (now + int ttl) live))"

subsection \<open>Challenge tokens\<close>

text \<open>
  What the handlers use of other code: the keyed hash and its hex form (\<open>blake3\<close>), URL-safe base64, the lower case of
  a key in hex, and \<open>Event::verify\<close>.
\<close>

record signed_event =
  se_kind :: nat
  se_content :: string
  se_pubkey :: string
  se_created_at :: nat
  se_signature :: string

record challenge_env =
  ce_mac :: "string \<Rightarrow> string"
  ce_to_hex :: "string \<Rightarrow> string"
  ce_from_hex :: "string \<Rightarrow> string option"
  ce_encode :: "string \<Rightarrow> string"
  ce_decode :: "string \<Rightarrow> string option"
  ce_verify :: "signed_event \<Rightarrow> bool"

definition challenge_ttl_secs :: nat where
  "challenge_ttl_secs = 300"

definition event_max_age_secs :: nat where
  "event_max_age_secs = challenge_ttl_secs"

definition event_future_skew_secs :: nat where
  "event_future_skew_secs = 60"

definition consumed_challenge_ttl :: duration where
  "consumed_challenge_ttl = from_secs (event_max_age_secs + event_future_skew_secs)"

definition unix_secs :: "instant \<Rightarrow> nat" where
  "unix_secs now = nat (now div 1000000000)"

definition hmac_data :: "string \<Rightarrow> string \<Rightarrow> nat \<Rightarrow> string" where
  "hmac_data challenge member expires = challenge @ '':'' @ member @ '':'' @ decimal expires"

definition sign_challenge_token :: "challenge_env \<Rightarrow> string \<Rightarrow> string \<Rightarrow> nat \<Rightarrow> string" where
  "sign_challenge_token env challenge member expires =
     ce_encode env (challenge @ ''|'' @ member @ ''|'' @ decimal expires @ ''|'' @
       ce_to_hex env (ce_mac env (hmac_data challenge member expires)))"

text \<open>\<open>s.splitn(n, c)\<close>, and \<open>str::parse::<u64>\<close>.\<close>

fun splitn :: "nat \<Rightarrow> char \<Rightarrow> string \<Rightarrow> string list" where
  "splitn 0 c s = []"
| "splitn (Suc 0) c s = [s]"
| "splitn (Suc (Suc n)) c s =
     (case split_once [c] s of None \<Rightarrow> [s] | Some (a, b) \<Rightarrow> a # splitn (Suc n) c b)"

definition is_digit :: "char \<Rightarrow> bool" where
  "is_digit c \<longleftrightarrow> 48 \<le> byte c \<and> byte c \<le> 57"

definition digits_value :: "string \<Rightarrow> nat" where
  "digits_value ds = foldl (\<lambda>v c. 10 * v + (byte c - 48)) 0 ds"

definition parse_u64 :: "string \<Rightarrow> nat option" where
  "parse_u64 s =
     (let ds = (if s \<noteq> [] \<and> hd s = CHR ''+'' then tl s else s)
      in if ds = [] \<or> \<not> list_all is_digit ds then None
         else if digits_value ds \<le> u64_max then Some (digits_value ds) else None)"

definition verify_challenge_token :: "challenge_env \<Rightarrow> instant \<Rightarrow> string \<Rightarrow> string + string \<times> string" where
  "verify_challenge_token env now token =
     (case ce_decode env token of
        None \<Rightarrow> Inl ''Invalid token encoding''
      | Some raw \<Rightarrow>
          if \<not> utf8_valid raw then Inl ''Invalid token encoding''
          else (case splitn 4 CHR ''|'' raw of
                  [challenge, member, expires, mac] \<Rightarrow>
                    (case parse_u64 expires of
                       None \<Rightarrow> Inl ''Invalid expiry''
                     | Some expires_ts \<Rightarrow>
                         if expires_ts < unix_secs now then Inl ''Challenge expired''
                         else (case ce_from_hex env mac of
                                 None \<Rightarrow> Inl ''Invalid token signature''
                               | Some provided \<Rightarrow>
                                   if ce_mac env (hmac_data challenge member expires_ts) \<noteq> provided
                                   then Inl ''Invalid token signature'' else Inr (challenge, member)))
                | _ \<Rightarrow> Inl ''Malformed token''))"

definition check_event_freshness :: "instant \<Rightarrow> nat \<Rightarrow> string + unit" where
  "check_event_freshness now created =
     (if min (unix_secs now + event_future_skew_secs) u64_max < created
      then Inl ''event timestamp is in the future (outside window)''
      else if event_max_age_secs < unix_secs now - created
      then Inl ''event too old / timestamp outside window'' else Inr ())"

subsection \<open>The handlers\<close>

definition nostr_login_subject :: string where
  "nostr_login_subject = ''@login''"

definition nostr_login_challenge :: "challenge_env \<Rightarrow> string \<Rightarrow> instant \<Rightarrow> string \<times> string" where
  "nostr_login_challenge env challenge_hex now =
     (let challenge = ''scuffedclan-login:'' @ challenge_hex
      in (challenge, sign_challenge_token env challenge nostr_login_subject (unix_secs now + challenge_ttl_secs)))"

text \<open>The checks of a signed event: the public key that it proves, or why it is refused.\<close>

definition login_proof ::
  "challenge_env \<Rightarrow> instant \<Rightarrow> string \<Rightarrow> signed_event \<Rightarrow> used_challenges \<Rightarrow> (string + string) \<times> used_challenges"
where
  "login_proof env now token event used =
     (case verify_challenge_token env now token of
        Inl e \<Rightarrow> (Inl (''Token verification failed: '' @ e), used)
      | Inr (challenge, subject) \<Rightarrow>
          if subject \<noteq> nostr_login_subject then (Inl ''Token was not issued for login'', used)
          else if se_kind event \<noteq> 22242 then (Inl ''Event must use ephemeral kind 22242'', used)
          else if se_content event \<noteq> challenge then (Inl ''Event content does not match the challenge'', used)
          else if \<not> ce_verify env event then (Inl ''Event verification failed'', used)
          else (case check_event_freshness now (se_created_at event) of
                  Inl e \<Rightarrow> (Inl e, used)
                | Inr _ \<Rightarrow>
                    (case consume challenge consumed_challenge_ttl now used of
                       (False, used') \<Rightarrow> (Inl ''challenge already used'', used')
                     | (True, used') \<Rightarrow> (Inr (se_pubkey event), used'))))"

text \<open>
  Who is signed in: the user of the member with the key, the user of the key, or a new one while recruitment is open
  (settings that cannot be read count as closed). Both lookups may fail.
\<close>

record key_accounts =
  ka_member_user :: "string \<Rightarrow> unit + string option"
  ka_key_user :: "string \<Rightarrow> unit + string option"
  ka_recruitment_open :: bool

datatype nostr_login_response =
    BadLogin string
  | NostrDatabaseError
  | RegistrationClosed
  | SignInAs string
  | RegisterAs string string

definition nostr_login_verify ::
  "challenge_env \<Rightarrow> key_accounts \<Rightarrow> instant \<Rightarrow> string \<Rightarrow> signed_event \<Rightarrow> used_challenges
    \<Rightarrow> nostr_login_response \<times> used_challenges" where
  "nostr_login_verify env accounts now token event used =
     (case login_proof env now token event used of
        (Inl e, used') \<Rightarrow> (BadLogin e, used')
      | (Inr pubkey, used') \<Rightarrow>
          ((case ka_member_user accounts pubkey of
              Inl _ \<Rightarrow> NostrDatabaseError
            | Inr (Some user) \<Rightarrow> SignInAs user
            | Inr None \<Rightarrow>
                (case ka_key_user accounts pubkey of
                   Inl _ \<Rightarrow> NostrDatabaseError
                 | Inr (Some user) \<Rightarrow> SignInAs user
                 | Inr None \<Rightarrow> if ka_recruitment_open accounts then RegisterAs pubkey (''nostr-'' @ take 12 pubkey)
                     else RegistrationClosed)), used'))"

subsection \<open>A challenge is used once\<close>

text \<open>The time at which a challenge was used, as its marker tells.\<close>

definition use_stamps :: "duration \<Rightarrow> string \<Rightarrow> used_challenges \<Rightarrow> instant list" where
  "use_stamps ttl challenge used =
     (case map_of used challenge of None \<Rightarrow> [] | Some expiry \<Rightarrow> [expiry - int ttl])"

definition use_live :: "duration \<Rightarrow> instant \<Rightarrow> instant \<Rightarrow> bool" where
  "use_live ttl now t \<longleftrightarrow> now < t + int ttl"

definition consume_step :: "duration \<Rightarrow> string \<Rightarrow> string \<Rightarrow> instant \<Rightarrow> used_challenges \<Rightarrow> bool \<times> used_challenges" where
  "consume_step ttl challenge x now used =
     (case consume x ttl now used of (ok, used') \<Rightarrow> (ok \<and> x = challenge, used'))"

definition used_ok :: "instant \<Rightarrow> used_challenges \<Rightarrow> bool" where
  "used_ok t used \<longleftrightarrow> distinct (map fst used)"

lemma map_of_live:
  "distinct (map fst used) \<Longrightarrow> map_of (filter (\<lambda>(_, expiry). now < expiry) used) k =
    (case map_of used k of None \<Rightarrow> None | Some expiry \<Rightarrow> if now < expiry then Some expiry else None)"
  by (induction used) (auto split: option.splits simp: map_of_eq_None_iff)

lemma live_stamps:
  assumes "distinct (map fst used)" and "now \<le> later"
  shows "count_live (use_live ttl) later (use_stamps ttl k (filter (\<lambda>(_, expiry). now < expiry) used)) =
    count_live (use_live ttl) later (use_stamps ttl k used)"
  using assms(2) map_of_live [OF assms(1), of now k]
  by (auto simp: use_stamps_def count_live_def use_live_def split: option.split)

interpretation single_use: rate_limiter "consume_step ttl challenge" "use_stamps ttl challenge" "use_live ttl" used_ok 1
  for ttl challenge
proof (unfold_locales, goal_cases)
  case (3 now s x b s')
  then show ?case
    by (auto simp: used_ok_def consume_step_def consume_def distinct_update distinct_map_filter Let_def split: if_splits)
next
  case (4 now s x s')
  then have "map_of (filter (\<lambda>(_, expiry). now < expiry) s) challenge = None"
    by (auto simp: consume_step_def consume_def Let_def split: if_splits)
  then have "count_live (use_live ttl) now (use_stamps ttl challenge s) = 0"
    using live_stamps [of s now now ttl challenge] 4(1) by (simp add: used_ok_def use_stamps_def)
  moreover have "count_live (use_live ttl) now [now] \<le> 1" by (simp add: count_live_def)
  ultimately show ?case by simp
next
  case (5 now s x s' later)
  then have "map_of (filter (\<lambda>(_, expiry). now < expiry) s) challenge = None"
    and s': "s' = AList.update challenge (now + int ttl) (filter (\<lambda>(_, expiry). now < expiry) s)"
    by (auto simp: consume_step_def consume_def Let_def split: if_splits)
  then have "count_live (use_live ttl) later (use_stamps ttl challenge s) = 0"
    using live_stamps [of s now later ttl challenge] 5(1,3) by (simp add: used_ok_def use_stamps_def)
  then show ?case by (simp add: s' use_stamps_def [of ttl challenge "AList.update _ _ _"] update_conv')
next
  case (6 now s x s' later)
  then have "count_live (use_live ttl) later (use_stamps ttl challenge (filter (\<lambda>(_, expiry). now < expiry) s)) =
      count_live (use_live ttl) later (use_stamps ttl challenge s)"
    by (intro live_stamps) (simp_all add: used_ok_def)
  moreover have "use_stamps ttl challenge s' = use_stamps ttl challenge (filter (\<lambda>(_, expiry). now < expiry) s)"
    using 6(2) by (auto simp: consume_step_def consume_def use_stamps_def update_conv' Let_def split: if_splits)
  ultimately show ?case by simp
qed (auto simp: use_live_def used_ok_def)

text \<open>
  Two uses of a challenge lie at least its retention apart, whatever else is used in between.
\<close>

lemma uses_apart:
  assumes "used_ok now used" and "consume c ttl now used = (True, used1)" and "ordered_from now between"
    and "consume c ttl later (final_state (consume_step ttl c) used1 between) = (True, used2)"
    and "end_time now between \<le> later"
  shows "now + int ttl \<le> later"
proof (rule ccontr)
  assume "\<not> ?thesis"
  moreover have "now \<le> end_time now between" using assms(3)
    by (induction now between rule: ordered_from.induct) auto
  ultimately have live: "use_live ttl later now" "use_live ttl later later"
    using assms(5) by (simp_all add: use_live_def)
  let ?trace = "(c, now) # between @ [(c, later)]"
  have run: "accepted (consume_step ttl c) s (xs @ ys) =
      accepted (consume_step ttl c) s xs @ accepted (consume_step ttl c) (final_state (consume_step ttl c) s xs) ys" for s xs ys
    by (induction xs arbitrary: s) (auto split: prod.split)
  have time: "ordered_from t xs \<Longrightarrow> end_time t xs \<le> later \<Longrightarrow> ordered_from t (xs @ [(c, later)])"
    "end_time t (xs @ [(c, later)]) = later" for t and xs :: "(string \<times> instant) list"
    by (induction t xs rule: ordered_from.induct) auto
  have "accepted (consume_step ttl c) used ?trace = [now] @ accepted (consume_step ttl c) used1 between @ [later]"
    using assms(2,4) run [of used1 between "[(c, later)]"] by (simp add: consume_step_def)
  moreover have "count_live (use_live ttl) later (accepted (consume_step ttl c) used ?trace) \<le> 1"
    by (rule single_use.accepted_window [OF assms(1)]) (use time assms(3,5) in simp_all)
  ultimately show False using live by (simp add: count_live_def)
qed

subsection \<open>Round trip of the tokens\<close>

lemma byte_digit: "n < 10 \<Longrightarrow> byte (char_of (48 + n)) = 48 + n"
  by (simp add: byte_def of_char_of)

lemma digits_snoc: "digits_value (ds @ [c]) = 10 * digits_value ds + (byte c - 48)"
  by (simp add: digits_value_def)

lemma decimal_digits: "decimal n \<noteq> [] \<and> list_all is_digit (decimal n) \<and> digits_value (decimal n) = n"
proof (induction n rule: decimal.induct)
  case (1 n)
  show ?case
  proof (cases "n < 10")
    case True
    then show ?thesis by (subst (1 2 3) decimal.simps) (simp add: is_digit_def byte_digit digits_value_def)
  next
    case False
    have "is_digit (char_of (48 + n mod 10))" "byte (char_of (48 + n mod 10)) - 48 = n mod 10"
      using byte_digit [of "n mod 10"] mod_less_divisor [of 10 n] by (auto simp: is_digit_def)
    then show ?thesis using 1 False by (subst (1 2 3) decimal.simps) (simp add: digits_snoc)
  qed
qed

lemma parse_decimal: "n \<le> u64_max \<Longrightarrow> parse_u64 (decimal n) = Some n"
proof -
  have "hd (decimal n) \<noteq> CHR ''+''"
    using decimal_digits [of n] by (cases "decimal n") (auto simp: is_digit_def byte_def)
  then show "n \<le> u64_max \<Longrightarrow> parse_u64 (decimal n) = Some n" using decimal_digits [of n] by (simp add: parse_u64_def)
qed

lemma decimal_no_bar: "CHR ''|'' \<notin> set (decimal n)"
  using decimal_digits [of n] by (auto simp: list_all_iff is_digit_def byte_def)

lemma token_fields:
  assumes "CHR ''|'' \<notin> set challenge" and "CHR ''|'' \<notin> set member"
  shows "splitn 4 CHR ''|'' (challenge @ ''|'' @ member @ ''|'' @ decimal n @ ''|'' @ mac) =
    [challenge, member, decimal n, mac]"
proof -
  have "split_once ''|'' (a @ CHR ''|'' # b) = Some (a, b)" if "CHR ''|'' \<notin> set a" for a b
    using split_once_first [of "CHR ''|''" a "[]" b] that by (auto simp: list_all_iff)
  from this [OF assms(1)] this [OF assms(2)] this [OF decimal_no_bar] show ?thesis by (simp add: eval_nat_numeral)
qed

lemma utf8_ascii: "list_all (\<lambda>c. byte c < 128) s \<Longrightarrow> utf8_valid s"
  by (induction s) (simp_all add: utf8_valid.simps)

lemma ascii_decimal: "list_all (\<lambda>c. byte c < 128) (decimal n)"
  using decimal_digits [of n] by (auto simp: list_all_iff is_digit_def)

text \<open>
  A login challenge verifies until it expires. The token that comes with a challenge gives that challenge back,
  for logins, at any time up to five minutes later, given that the encodings of the libraries are undone by their
  decodings.
\<close>

theorem login_challenge_verifies:
  assumes "\<And>s. ce_decode env (ce_encode env s) = Some s"
    and "\<And>s. ce_from_hex env (ce_to_hex env (ce_mac env s)) = Some (ce_mac env s) \<and>
      list_all (\<lambda>c. byte c < 128) (ce_to_hex env (ce_mac env s))"
    and "list_all is_ascii_hexdigit challenge_hex" and "0 \<le> now"
    and "unix_secs later \<le> unix_secs now + challenge_ttl_secs" and "unix_secs now + challenge_ttl_secs \<le> u64_max"
    and "nostr_login_challenge env challenge_hex now = (challenge, token)"
  shows "verify_challenge_token env later token = Inr (challenge, nostr_login_subject)"
proof -
  let ?expires = "unix_secs now + challenge_ttl_secs"
  have challenge: "challenge = ''scuffedclan-login:'' @ challenge_hex"
    and token: "token = sign_challenge_token env challenge nostr_login_subject ?expires"
    using assms(7) by (auto simp: nostr_login_challenge_def Let_def)
  have hex: "byte c < 128 \<and> c \<noteq> CHR ''|''" if "c \<in> set challenge_hex" for c
    using assms(3) that by (auto simp: list_all_iff is_ascii_hexdigit_def byte_def)
  let ?mac = "ce_to_hex env (ce_mac env (hmac_data challenge nostr_login_subject ?expires))"
  let ?raw = "challenge @ ''|'' @ nostr_login_subject @ ''|'' @ decimal ?expires @ ''|'' @ ?mac"
  have "utf8_valid ?raw"
    using assms(2) hex ascii_decimal [of ?expires]
    by (intro utf8_ascii) (auto simp: challenge nostr_login_subject_def list_all_iff byte_def)
  moreover have "splitn 4 CHR ''|'' ?raw = [challenge, nostr_login_subject, decimal ?expires, ?mac]"
    by (rule token_fields) (use hex in \<open>auto simp: challenge nostr_login_subject_def\<close>)
  ultimately show ?thesis
    using assms(1,2,5) parse_decimal [OF assms(6)]
    by (simp add: verify_challenge_token_def token sign_challenge_token_def)
qed

definition plain_env :: challenge_env where
  "plain_env = \<lparr>ce_mac = (\<lambda>s. ''m''), ce_to_hex = (\<lambda>m. m), ce_from_hex = Some, ce_encode = (\<lambda>s. s), ce_decode = Some,
     ce_verify = (\<lambda>_. True)\<rparr>"

lemma login_challenge_verifies_witness:
  "verify_challenge_token plain_env 250000000000 (snd (nostr_login_challenge plain_env ''0a'' 1000000000)) =
    Inr (''scuffedclan-login:0a'', nostr_login_subject)"
proof -
  have "verify_challenge_token plain_env 250000000000 (snd (nostr_login_challenge plain_env ''0a'' 1000000000)) =
      Inr (fst (nostr_login_challenge plain_env ''0a'' 1000000000), nostr_login_subject)"
    by (rule login_challenge_verifies [where challenge_hex = "''0a''" and now = 1000000000])
      (simp_all add: plain_env_def is_ascii_hexdigit_def byte_def unix_secs_def challenge_ttl_secs_def u64_max_def)
  then show ?thesis by (simp add: nostr_login_challenge_def Let_def)
qed

text \<open>When a token expires.\<close>

definition token_expiry :: "challenge_env \<Rightarrow> string \<Rightarrow> nat option" where
  "token_expiry env token =
     (case ce_decode env token of
        None \<Rightarrow> None
      | Some raw \<Rightarrow> (case splitn 4 CHR ''|'' raw of [_, _, expires, _] \<Rightarrow> parse_u64 expires | _ \<Rightarrow> None))"

lemma verified_before_expiry:
  assumes "verify_challenge_token env now token = Inr r" and "token_expiry env token = Some expires"
  shows "unix_secs now \<le> expires"
  using assms by (auto simp: verify_challenge_token_def token_expiry_def split: option.splits list.splits if_splits)

lemma verified_same:
  assumes "verify_challenge_token env now token = Inr r" and "verify_challenge_token env later token = Inr r'"
  shows "r' = r"
  using assms by (auto simp: verify_challenge_token_def split: option.splits list.splits if_splits)

lemma login_proof_success:
  assumes "login_proof env now token event used = (Inr pubkey, used')"
  shows "\<exists>c. verify_challenge_token env now token = Inr (c, nostr_login_subject) \<and>
    consume c consumed_challenge_ttl now used = (True, used')"
  using assms by (auto simp: login_proof_def split: sum.splits prod.splits if_splits unit.splits bool.splits)

text \<open>
  C21: A login token signs in once. After a login with a token that the server issued, no later login with the same
  token is accepted, with that event or any other, whatever challenges are used in between.
\<close>

theorem nostr_login_once:
  assumes "used_ok now used" and "0 \<le> now"
    and first: "login_proof env now token event used = (Inr pubkey, used1)"
    and issued: "token_expiry env token = Some expires" "expires \<le> unix_secs now + challenge_ttl_secs"
    and between: "ordered_from now between" "end_time now between \<le> later"
  shows "fst (login_proof env later token event' (final_state (consume_step consumed_challenge_ttl c) used1 between)) \<noteq> Inr pubkey'"
proof
  let ?used = "\<lambda>c. final_state (consume_step consumed_challenge_ttl c) used1 between"
  have any: "?used c = ?used d" for d
    by (induction between arbitrary: used1) (auto simp: consume_step_def split: prod.split)
  assume "fst (login_proof env later token event' (?used c)) = Inr pubkey'"
  then obtain used2 where "login_proof env later token event' (?used c) = (Inr pubkey', used2)"
    by (cases "login_proof env later token event' (?used c)") auto
  then obtain d where d: "verify_challenge_token env later token = Inr (d, nostr_login_subject)"
    "consume d consumed_challenge_ttl later (?used c) = (True, used2)"
    using login_proof_success by blast
  obtain e where e: "verify_challenge_token env now token = Inr (e, nostr_login_subject)"
    "consume e consumed_challenge_ttl now used = (True, used1)"
    using login_proof_success [OF first] by blast
  have "d = e" using verified_same [OF e(1) d(1)] by simp
  then have "now + int consumed_challenge_ttl \<le> later"
    using uses_apart [OF assms(1) e(2) between(1) _ between(2)] d(2) any [of e] by simp
  moreover have "unix_secs later \<le> unix_secs now + 300"
    using verified_before_expiry [OF d(1) issued(1)] issued(2) by (simp add: challenge_ttl_secs_def)
  moreover from this have "later div 1000000000 \<le> now div 1000000000 + 300"
    using assms(2) pos_imp_zdiv_nonneg_iff [of 1000000000 now] by (simp add: unix_secs_def nat_le_iff split: if_splits)
  moreover have "later < (later div 1000000000 + 1) * 1000000000" "now div 1000000000 * 1000000000 \<le> now"
    using div_mult_mod_eq [of later 1000000000] div_mult_mod_eq [of now 1000000000]
      pos_mod_bound [of 1000000000 later] pos_mod_sign [of 1000000000 now] by (simp_all add: algebra_simps)
  ultimately show False
    by (simp add: consumed_challenge_ttl_def event_max_age_secs_def challenge_ttl_secs_def
        event_future_skew_secs_def from_secs_def)
qed

definition first_login :: "(string + string) \<times> used_challenges" where
  "first_login = login_proof plain_env 2000000000 (snd (nostr_login_challenge plain_env ''0a'' 1000000000))
     \<lparr>se_kind = 22242, se_content = ''scuffedclan-login:0a'', se_pubkey = ''k'', se_created_at = 1, se_signature = []\<rparr> []"

lemma first_login_accepted: "first_login = (Inr ''k'', [(''scuffedclan-login:0a'', 362000000000)])"
proof -
  let ?token = "snd (nostr_login_challenge plain_env ''0a'' 1000000000)"
  have "verify_challenge_token plain_env 2000000000 ?token =
      Inr (fst (nostr_login_challenge plain_env ''0a'' 1000000000), nostr_login_subject)"
    by (rule login_challenge_verifies [where challenge_hex = "''0a''" and now = 1000000000])
      (simp_all add: plain_env_def is_ascii_hexdigit_def byte_def unix_secs_def challenge_ttl_secs_def u64_max_def)
  then have "verify_challenge_token plain_env 2000000000 ?token = Inr (''scuffedclan-login:0a'', nostr_login_subject)"
    by (simp add: nostr_login_challenge_def Let_def)
  then show ?thesis
    by (simp add: first_login_def login_proof_def check_event_freshness_def unix_secs_def event_future_skew_secs_def
        event_max_age_secs_def challenge_ttl_secs_def u64_max_def plain_env_def consume_def consumed_challenge_ttl_def from_secs_def)
qed

lemma nostr_login_once_witness:
  "fst (login_proof plain_env 3000000000 (snd (nostr_login_challenge plain_env ''0a'' 1000000000))
     \<lparr>se_kind = 22242, se_content = ''scuffedclan-login:0a'', se_pubkey = ''k'', se_created_at = 1, se_signature = []\<rparr>
     (final_state (consume_step consumed_challenge_ttl ''c'') (snd first_login) [])) \<noteq> Inr ''k''"
proof (rule nostr_login_once)
  show "login_proof plain_env 2000000000 (snd (nostr_login_challenge plain_env ''0a'' 1000000000))
     \<lparr>se_kind = 22242, se_content = ''scuffedclan-login:0a'', se_pubkey = ''k'', se_created_at = 1, se_signature = []\<rparr> [] =
     (Inr ''k'', snd first_login)"
    using first_login_accepted by (simp add: first_login_def)
  show "token_expiry plain_env (snd (nostr_login_challenge plain_env ''0a'' 1000000000)) = Some 301"
    using token_fields [of "''scuffedclan-login:0a''" nostr_login_subject 301 "''m''"] parse_decimal [of 301]
    by (simp add: token_expiry_def nostr_login_challenge_def sign_challenge_token_def plain_env_def nostr_login_subject_def
        unix_secs_def challenge_ttl_secs_def Let_def u64_max_def)
qed (simp_all add: used_ok_def unix_secs_def challenge_ttl_secs_def)

end
