(* ===== verification/Programs.thy ===== *)
theory Programs
  imports Prelude
begin

text \<open>
  Handlers that run at the same time. An \<open>async\<close> handler is a program over the state that all handlers share:
  it touches the memory of the process or a clock, or it runs one database statement, which is atomic but may
  fail, with or without having taken effect. A run interleaves such programs; who moves next and which
  statement fails is up to a list of events.
\<close>

datatype ('s, 'a) prog =
    Done 'a
  | Memory "'s \<Rightarrow> 's" "'s \<Rightarrow> ('s, 'a) prog"
  | Query "'s \<Rightarrow> 's" "'s \<Rightarrow> ('s, 'a) prog" "('s, 'a) prog"

primrec bind :: "('s, 'a) prog \<Rightarrow> ('a \<Rightarrow> ('s, 'b) prog) \<Rightarrow> ('s, 'b) prog" where
  "bind (Done a) k = k a"
| "bind (Memory f g) k = Memory f (\<lambda>s. bind (g s) k)"
| "bind (Query f g e) k = Query f (\<lambda>s. bind (g s) k) (bind e k)"

definition memory :: "('s \<Rightarrow> 'a \<times> 's) \<Rightarrow> ('s, 'a) prog" where
  "memory f = Memory (\<lambda>s. snd (f s)) (\<lambda>s. Done (fst (f s)))"

text \<open>A statement, with the error that the driver reports when it fails; and \<open>?\<close>.\<close>

definition query :: "'e \<Rightarrow> ('s \<Rightarrow> ('e + 'a) \<times> 's) \<Rightarrow> ('s, 'e + 'a) prog" where
  "query e f = Query (\<lambda>s. snd (f s)) (\<lambda>s. Done (fst (f s))) (Done (Inl e))"

definition try_bind :: "('s, 'e + 'a) prog \<Rightarrow> ('a \<Rightarrow> ('s, 'e + 'b) prog) \<Rightarrow> ('s, 'e + 'b) prog" where
  "try_bind p k = bind p (\<lambda>r. case r of Inl e \<Rightarrow> Done (Inl e) | Inr a \<Rightarrow> k a)"

lemma bind_memory: "bind (memory f) k = Memory (\<lambda>s. snd (f s)) (\<lambda>s. k (fst (f s)))"
  by (simp add: memory_def)

lemma bind_query: "bind (query e f) k = Query (\<lambda>s. snd (f s)) (\<lambda>s. k (fst (f s))) (k (Inl e))"
  by (simp add: query_def)

lemma bind_bind [simp]: "bind (bind p k) l = bind p (\<lambda>a. bind (k a) l)"
  by (induction p) auto

lemma bind_Done [simp]: "bind p Done = p"
  by (induction p) auto

subsection \<open>Runs\<close>

datatype outcome = Succeeds | Fails | AnswerLost

fun prog_step :: "outcome \<Rightarrow> ('s, 'a) prog \<Rightarrow> 's \<Rightarrow> ('s, 'a) prog \<times> 's" where
  "prog_step w (Done a) s = (Done a, s)"
| "prog_step w (Memory f k) s = (k s, f s)"
| "prog_step Succeeds (Query f k e) s = (k s, f s)"
| "prog_step Fails (Query f k e) s = (e, s)"
| "prog_step AnswerLost (Query f k e) s = (e, f s)"

datatype 'r event = Arrives 'r | Steps nat outcome | Ticks nat

text \<open>The state, and every request that has arrived with what is left of its handler; a finished one has its answer.\<close>

type_synonym ('s, 'r, 'a) service = "'s \<times> ('r \<times> ('s, 'a) prog) list"

fun serve_event ::
  "('r \<Rightarrow> ('s, 'a) prog) \<Rightarrow> (nat \<Rightarrow> 's \<Rightarrow> 's) \<Rightarrow> 'r event \<Rightarrow> ('s, 'r, 'a) service \<Rightarrow> ('s, 'r, 'a) service" where
  "serve_event handle tick (Arrives r) (s, pool) = (s, pool @ [(r, handle r)])"
| "serve_event handle tick (Ticks d) (s, pool) = (tick d s, pool)"
| "serve_event handle tick (Steps i w) (s, pool) =
     (if i < length pool
      then (case prog_step w (snd (pool ! i)) s of (p, s') \<Rightarrow> (s', pool[i := (fst (pool ! i), p)]))
      else (s, pool))"

definition serve_events ::
  "('r \<Rightarrow> ('s, 'a) prog) \<Rightarrow> (nat \<Rightarrow> 's \<Rightarrow> 's) \<Rightarrow> 'r event list \<Rightarrow> 's \<Rightarrow> ('s, 'r, 'a) service" where
  "serve_events handle tick events s = fold (serve_event handle tick) events (s, [])"

definition state_after where "state_after handle tick events s = fst (serve_events handle tick events s)"

definition answered :: "('s, 'r, 'a) service \<Rightarrow> 'r \<Rightarrow> 'a \<Rightarrow> bool" where
  "answered c r a \<longleftrightarrow> (r, Done a) \<in> set (snd c)"

fun arrivals :: "'r event list \<Rightarrow> 'r list" where
  "arrivals [] = []"
| "arrivals (Arrives r # es) = r # arrivals es"
| "arrivals (_ # es) = arrivals es"

text \<open>The steps of request \<open>i\<close>, counted from its arrival; \<open>n\<close> requests have arrived before.\<close>

fun own_steps :: "nat \<Rightarrow> nat \<Rightarrow> 'r event list \<Rightarrow> nat" where
  "own_steps i n [] = 0"
| "own_steps i n (Arrives r # es) = own_steps i (Suc n) es"
| "own_steps i n (Steps j w # es) = (if i = j \<and> i < n then 1 else 0) + own_steps i n es"
| "own_steps i n (Ticks d # es) = own_steps i n es"

lemma own_steps_append: "own_steps i n (es @ fs) = own_steps i n es + own_steps i (n + length (arrivals es)) fs"
  by (induction i n es rule: own_steps.induct) auto

lemma own_steps_absent: "n + length (arrivals es) \<le> i \<Longrightarrow> own_steps i n es = 0"
  by (induction i n es rule: own_steps.induct) auto

lemma serve_events_simps [simp]:
  "serve_events handle tick [] s = (s, [])"
  "serve_events handle tick (es @ [e]) s = serve_event handle tick e (serve_events handle tick es s)"
  by (simp_all add: serve_events_def)

lemma arrivals_append [simp]: "arrivals (es @ fs) = arrivals es @ arrivals fs"
  by (induction es rule: arrivals.induct) auto

lemma requests_of_pool: "map fst (snd (serve_events handle tick events s)) = arrivals events"
proof (induction events rule: rev_induct)
  case (snoc e es)
  obtain t pool where c: "serve_events handle tick es s = (t, pool)" by force
  have same: "map fst (pool[i := (fst (pool ! i), p)]) = map fst pool" if "i < length pool" for i p
    using that by (simp add: map_update list_update_same_conv)
  show ?case using snoc same by (cases e) (auto simp: c split: prod.split)
qed simp

subsection \<open>One program on its own\<close>

fun run_with :: "outcome list \<Rightarrow> ('s, 'a) prog \<Rightarrow> 's \<Rightarrow> ('s, 'a) prog \<times> 's" where
  "run_with [] p s = (p, s)"
| "run_with (w # ws) p s = (case prog_step w p s of (p', s') \<Rightarrow> run_with ws p' s')"

text \<open>A request that arrives and takes its steps before anything else happens.\<close>

definition alone :: "nat \<Rightarrow> 'r \<Rightarrow> outcome list \<Rightarrow> 'r event list" where
  "alone i r ws = Arrives r # map (Steps i) ws"

lemma arrivals_alone [simp]: "arrivals (alone i r ws) = [r]"
proof -
  have "arrivals (map (Steps i) ws) = []" by (induction ws) auto
  then show ?thesis by (simp add: alone_def)
qed

lemma steps_run_with:
  "fold (serve_event handle tick) (map (Steps (length pool)) ws) (s, pool @ [(r, p)]) =
     (case run_with ws p s of (p', s') \<Rightarrow> (s', pool @ [(r, p')]))"
  by (induction ws arbitrary: p s) (auto split: prod.split)

lemma serve_alone:
  assumes "serve_events handle tick es s = (t, pool)" and "i = length pool"
  shows "serve_events handle tick (es @ alone i r ws) s =
    (case run_with ws (handle r) t of (p', t') \<Rightarrow> (t', pool @ [(r, p')]))"
  using assms steps_run_with [of handle tick pool ws t r "handle r"] by (simp add: serve_events_def alone_def)

subsection \<open>Number of statements\<close>

primrec within :: "nat \<Rightarrow> ('s, 'a) prog \<Rightarrow> bool" where
  "within n (Done a) \<longleftrightarrow> True"
| "within n (Memory f k) \<longleftrightarrow> (0 < n \<and> (\<forall>s. within (n - 1) (k s)))"
| "within n (Query f k e) \<longleftrightarrow> (0 < n \<and> (\<forall>s. within (n - 1) (k s)) \<and> within (n - 1) e)"

lemma within_mono: "within m p \<Longrightarrow> m \<le> n \<Longrightarrow> within n p"
proof (induction p arbitrary: m n)
  case (Memory f k)
  have "within (n - 1) (k s)" for s by (rule Memory.IH [of "k s" "m - 1"]) (use Memory.prems in auto)
  then show ?case using Memory.prems by simp
next
  case (Query f k e)
  have "within (n - 1) (k s)" for s by (rule Query.IH(1) [of "k s" "m - 1"]) (use Query.prems in auto)
  moreover have "within (n - 1) e" by (rule Query.IH(2) [of "m - 1"]) (use Query.prems in auto)
  ultimately show ?case using Query.prems by simp
qed simp

lemma within_bind: "within m p \<Longrightarrow> (\<And>a. within n (k a)) \<Longrightarrow> within (m + n) (bind p k)"
proof (induction p arbitrary: m)
  case (Done a)
  then show ?case using within_mono [of n "k a" "m + n"] by simp
next
  case (Memory f g)
  have "within (m - 1 + n) (bind (g s) k)" for s by (rule Memory.IH) (use Memory.prems in auto)
  moreover have "m - 1 + n = m + n - 1" using Memory.prems by simp
  ultimately show ?case using Memory.prems by simp
next
  case (Query f g e)
  have "within (m - 1 + n) (bind (g s) k)" for s by (rule Query.IH) (use Query.prems in auto)
  moreover have "within (m - 1 + n) (bind e k)" by (rule Query.IH) (use Query.prems in auto)
  moreover have "m - 1 + n = m + n - 1" using Query.prems by simp
  ultimately show ?case using Query.prems by simp
qed

lemma within_step: "within n p \<Longrightarrow> within (n - 1) (fst (prog_step w p s))"
  by (cases p; cases w) auto

lemma within_0: "within 0 p \<Longrightarrow> \<exists>a. p = Done a"
  by (cases p) auto

lemma within_run:
  assumes "i < length (arrivals events)" and "\<And>r. r \<in> set (arrivals events) \<Longrightarrow> within n (handle r)"
  shows "within (n - own_steps i 0 events) (snd (snd (serve_events handle tick events s) ! i))"
  using assms
proof (induction events rule: rev_induct)
  case (snoc e es)
  obtain t pool where c: "serve_events handle tick es s = (t, pool)" by force
  have len: "length pool = length (arrivals es)"
    using requests_of_pool [of handle tick es s] c by (metis length_map snd_conv)
  have own: "own_steps i 0 (es @ [e]) = own_steps i 0 es + own_steps i (length pool) [e]"
    by (simp add: own_steps_append len)
  show ?case
  proof (cases "i < length pool")
    case True
    then have IH: "within (n - own_steps i 0 es) (snd (pool ! i))"
      using snoc.IH snoc.prems(2) c len by auto
    show ?thesis
    proof (cases e)
      case (Steps j w)
      then show ?thesis
        using IH c own within_step [OF IH, of w t] True by (auto simp: nth_list_update split: prod.split)
    qed (use IH c own True in \<open>auto simp: nth_append\<close>)
  next
    case False
    then obtain r where e: "e = Arrives r" and i: "i = length pool"
      using snoc.prems(1) len by (cases e) auto
    moreover have "own_steps i 0 es = 0" using i len by (intro own_steps_absent) simp
    ultimately show ?thesis using c own snoc.prems(2) by simp
  qed
qed simp

lemma answered_in_time:
  assumes "i < length (arrivals events)" and "\<And>r. r \<in> set (arrivals events) \<Longrightarrow> within n (handle r)"
    and "n \<le> own_steps i 0 events"
  shows "\<exists>a. answered (serve_events handle tick events s) (arrivals events ! i) a"
proof -
  let ?pool = "snd (serve_events handle tick events s)"
  have "within 0 (snd (?pool ! i))" using within_run [OF assms(1,2), where tick = tick and s = s] assms(3) by simp
  then obtain a where "snd (?pool ! i) = Done a" using within_0 by blast
  moreover have "i < length ?pool" "fst (?pool ! i) = arrivals events ! i"
    using requests_of_pool [where handle = handle and tick = tick and events = events and s = s] assms(1)
    by (metis length_map, metis length_map nth_map)
  ultimately show ?thesis unfolding answered_def by (metis nth_mem prod.collapse)
qed

subsection \<open>Invariants and local assertions\<close>

text \<open>
  Every statement keeps the invariant \<open>invar\<close> and moves the state along \<open>guar\<close>; whatever the others do moves it
  along the preorder \<open>grows\<close>. \<open>assured\<close>: from here on, the program does so, and leaves \<open>post\<close> with its answer.
\<close>

primrec assured ::
  "('s \<Rightarrow> bool) \<Rightarrow> ('s \<Rightarrow> 's \<Rightarrow> bool) \<Rightarrow> ('s \<Rightarrow> 's \<Rightarrow> bool) \<Rightarrow> ('a \<Rightarrow> 's \<Rightarrow> bool) \<Rightarrow> ('s, 'a) prog \<Rightarrow> 's \<Rightarrow> bool"
where
  "assured invar grows guar post (Done a) s \<longleftrightarrow> post a s"
| "assured invar grows guar post (Memory f k) s \<longleftrightarrow>
     (\<forall>t. invar t \<and> grows s t \<longrightarrow> invar (f t) \<and> guar t (f t) \<and> assured invar grows guar post (k t) (f t))"
| "assured invar grows guar post (Query f k e) s \<longleftrightarrow>
     (\<forall>t. invar t \<and> grows s t \<longrightarrow> invar (f t) \<and> guar t (f t) \<and> assured invar grows guar post (k t) (f t) \<and>
        assured invar grows guar post e t)"

lemma assured_bind:
  assumes "assured invar grows guar mid p s" and "\<And>a t. mid a t \<Longrightarrow> assured invar grows guar post (k a) t"
  shows "assured invar grows guar post (bind p k) s"
  using assms(1)
proof (induction p arbitrary: s)
  case (Done a)
  then show ?case using assms(2) by simp
qed auto

text \<open>A program that is assured from every state.\<close>

definition always_assured where
  "always_assured invar grows guar post p \<longleftrightarrow> (\<forall>s. assured invar grows guar post p s)"

lemma always_assuredD: "always_assured invar grows guar post p \<Longrightarrow> assured invar grows guar post p s"
  by (simp add: always_assured_def)

lemma always_Done: "(\<And>s. post a s) \<Longrightarrow> always_assured invar grows guar post (Done a)"
  by (simp add: always_assured_def)

lemma always_bind:
  "always_assured invar grows guar (\<lambda>_ _. True) p \<Longrightarrow> (\<And>a. always_assured invar grows guar post (k a)) \<Longrightarrow>
   always_assured invar grows guar post (bind p k)"
  unfolding always_assured_def by (blast intro: assured_bind)

lemma always_memory:
  "(\<And>s. invar s \<Longrightarrow> invar (snd (f s)) \<and> guar s (snd (f s)) \<and> post (fst (f s)) (snd (f s))) \<Longrightarrow>
   always_assured invar grows guar post (memory f)"
  by (simp add: always_assured_def memory_def)

lemma always_query:
  "(\<And>s. invar s \<Longrightarrow> invar (snd (f s)) \<and> guar s (snd (f s)) \<and> post (fst (f s)) (snd (f s))) \<Longrightarrow> (\<And>s. post (Inl e) s) \<Longrightarrow>
   always_assured invar grows guar post (query e f)"
  by (simp add: always_assured_def query_def)

lemma always_try:
  "always_assured invar grows guar (\<lambda>_ _. True) p \<Longrightarrow> (\<And>e s. post (Inl e) s) \<Longrightarrow>
   (\<And>a. always_assured invar grows guar post (k a)) \<Longrightarrow> always_assured invar grows guar post (try_bind p k)"
  unfolding try_bind_def by (rule always_bind) (auto split: sum.split intro: always_Done)

locale interleaved =
  fixes handle :: "'r \<Rightarrow> ('s, 'a) prog" and tick :: "nat \<Rightarrow> 's \<Rightarrow> 's"
    and admitted :: "'r \<Rightarrow> bool" and invar :: "'s \<Rightarrow> bool"
    and grows :: "'s \<Rightarrow> 's \<Rightarrow> bool" and guar :: "'s \<Rightarrow> 's \<Rightarrow> bool" and post :: "'r \<Rightarrow> 'a \<Rightarrow> 's \<Rightarrow> bool"
  assumes grows_refl: "grows s s"
    and grows_trans: "grows s t \<Longrightarrow> grows t u \<Longrightarrow> grows s u"
    and guar_refl: "guar s s"
    and guar_grows: "guar s t \<Longrightarrow> invar s \<Longrightarrow> grows s t"
    and ticks: "invar s \<Longrightarrow> invar (tick d s)" "guar s (tick d s)"
    and post_stable: "post r a s \<Longrightarrow> grows s t \<Longrightarrow> post r a t"
    and handlers: "admitted r \<Longrightarrow> assured invar grows guar (post r) (handle r) s"
begin

abbreviation assures where "assures r p s \<equiv> assured invar grows guar (post r) p s"

lemma assured_later: "assures r p s \<Longrightarrow> grows s t \<Longrightarrow> assures r p t"
proof (induction p arbitrary: s t)
  case (Done a)
  then show ?case using post_stable by simp
qed (auto intro: grows_trans)

lemma step_assured:
  assumes "assures r p s" and "invar s" and "prog_step w p s = (p', s')"
  shows "invar s' \<and> guar s s' \<and> assures r p' s'"
proof (cases p)
  case (Query f k e)
  have fact: "invar (f s) \<and> guar s (f s) \<and> assures r (k s) (f s) \<and> assures r e s"
    using assms(1,2) grows_refl Query by auto
  then have "assures r e (f s)" using assured_later guar_grows assms(2) by blast
  then show ?thesis using assms fact Query guar_refl by (cases w) auto
qed (use assms grows_refl guar_refl in auto)

definition all_assured where
  "all_assured c \<longleftrightarrow> invar (fst c) \<and> list_all (\<lambda>(r, p). assures r p (fst c)) (snd c)"

lemma event_assured:
  assumes "all_assured c" and "\<And>r. e = Arrives r \<Longrightarrow> admitted r"
  shows "all_assured (serve_event handle tick e c) \<and> guar (fst c) (fst (serve_event handle tick e c))"
proof -
  obtain s pool where c: "c = (s, pool)" by force
  have invar: "invar s" and pool: "\<And>q. q \<in> set pool \<Longrightarrow> assures (fst q) (snd q) s"
    using assms(1) by (auto simp: c all_assured_def list_all_iff split_def)
  show ?thesis
  proof (cases e)
    case (Arrives r)
    then show ?thesis using invar pool handlers [OF assms(2)] guar_refl
      by (auto simp: c all_assured_def list_all_iff)
  next
    case (Ticks d)
    have later: "grows s (tick d s)" using guar_grows ticks(2) invar by blast
    have "assures r p (tick d s)" if "(r, p) \<in> set pool" for r p
      using pool [OF that] assured_later later by fastforce
    then show ?thesis using Ticks invar ticks by (auto simp: c all_assured_def list_all_iff)
  next
    case (Steps i w)
    show ?thesis
    proof (cases "i < length pool")
      case True
      obtain r p where q: "pool ! i = (r, p)" by force
      obtain p' s' where step: "prog_step w p s = (p', s')" by force
      have mine: "invar s' \<and> guar s s' \<and> assures r p' s'"
        by (rule step_assured [OF _ invar step]) (use pool [of "(r, p)"] q True nth_mem in force)
      then have later: "grows s s'" using guar_grows invar by blast
      have "assures r' p0 s'" if "(r', p0) \<in> set (pool[i := (r, p')])" for r' p0
      proof (cases "(r', p0) = (r, p')")
        case False
        then have "(r', p0) \<in> set pool" using that set_update_subset_insert by fastforce
        then show ?thesis using pool assured_later later by fastforce
      qed (use mine in simp)
      then show ?thesis using Steps True q step mine by (auto simp: c all_assured_def list_all_iff)
    qed (use Steps assms(1) guar_refl in \<open>simp add: c\<close>)
  qed
qed

lemma run_assured:
  assumes "invar s" and "list_all admitted (arrivals events)"
  shows "all_assured (serve_events handle tick events s)"
  using assms(2)
proof (induction events rule: rev_induct)
  case Nil
  then show ?case using assms(1) by (simp add: all_assured_def)
next
  case (snoc e es)
  then show ?case using event_assured [of _ e] by (cases e) auto
qed

lemma run_inv: "invar s \<Longrightarrow> list_all admitted (arrivals events) \<Longrightarrow> invar (state_after handle tick events s)"
  using run_assured by (simp add: all_assured_def state_after_def)

lemma run_answer:
  "invar s \<Longrightarrow> list_all admitted (arrivals events) \<Longrightarrow> answered (serve_events handle tick events s) r a \<Longrightarrow>
   post r a (state_after handle tick events s)"
  using run_assured [of s events] by (fastforce simp: all_assured_def answered_def state_after_def list_all_iff)

lemma run_guar:
  assumes "invar s" and "list_all admitted (arrivals (events @ [e]))"
  shows "guar (state_after handle tick events s) (state_after handle tick (events @ [e]) s)"
  using event_assured [OF run_assured [of s events], of e] assms by (cases e) (auto simp: state_after_def)

lemma run_grows:
  assumes "invar s" and "list_all admitted (arrivals (es @ fs))"
  shows "grows (state_after handle tick es s) (state_after handle tick (es @ fs) s)"
  using assms(2)
proof (induction fs rule: rev_induct)
  case (snoc f fs)
  then have "grows (state_after handle tick es s) (state_after handle tick (es @ fs) s)" by simp
  moreover have "guar (state_after handle tick (es @ fs) s) (state_after handle tick (es @ fs @ [f]) s)"
    using run_guar [OF assms(1), of "es @ fs" f] snoc.prems by simp
  ultimately show ?case using guar_grows run_inv [OF assms(1), of "es @ fs"] grows_trans snoc.prems by simp
qed (simp add: grows_refl)

end

subsection \<open>Budgets\<close>

text \<open>
  A resource that handlers may pass on but not copy: the state holds \<open>held s\<close> of it, an answer \<open>paid a\<close>. A program
  affords its work with \<open>n\<close> if no statement, whatever the state, leaves more of it behind than it found.
\<close>

primrec affords ::
  "('s \<Rightarrow> bool) \<Rightarrow> ('s \<Rightarrow> nat) \<Rightarrow> ('a \<Rightarrow> nat) \<Rightarrow> nat \<Rightarrow> ('s, 'a) prog \<Rightarrow> bool"
where
  "affords invar held paid n (Done a) \<longleftrightarrow> paid a \<le> n"
| "affords invar held paid n (Memory f k) \<longleftrightarrow>
     (\<forall>s. invar s \<longrightarrow> (\<exists>m. held (f s) + m \<le> held s + n \<and> affords invar held paid m (k s)))"
| "affords invar held paid n (Query f k e) \<longleftrightarrow>
     (\<forall>s. invar s \<longrightarrow> (\<exists>m. held (f s) + m \<le> held s + n \<and> affords invar held paid m (k s)) \<and>
        (\<exists>m. held (f s) + m \<le> held s + n \<and> affords invar held paid m e)) \<and> affords invar held paid n e"

lemma affords_mono: "affords invar held paid m p \<Longrightarrow> m \<le> n \<Longrightarrow> affords invar held paid n p"
proof (induction p arbitrary: m n)
  case (Memory f k)
  have "\<exists>j. held (f s) + j \<le> held s + n \<and> affords invar held paid j (k s)" if "invar s" for s
  proof -
    obtain j where "held (f s) + j \<le> held s + m" "affords invar held paid j (k s)" using Memory.prems(1) \<open>invar s\<close> by auto
    then show ?thesis using Memory.prems(2) by (intro exI [of _ j]) simp
  qed
  then show ?case by simp
next
  case (Query f k e)
  have "(\<exists>j. held (f s) + j \<le> held s + n \<and> affords invar held paid j (k s)) \<and>
      (\<exists>j. held (f s) + j \<le> held s + n \<and> affords invar held paid j e)" if "invar s" for s
  proof -
    obtain j j' where "held (f s) + j \<le> held s + m" "affords invar held paid j (k s)"
      "held (f s) + j' \<le> held s + m" "affords invar held paid j' e" using Query.prems(1) \<open>invar s\<close> by auto
    then show ?thesis using Query.prems(2) by (intro conjI exI [of _ j] exI [of _ j']) simp_all
  qed
  moreover have "affords invar held paid n e" by (rule Query.IH(2)) (use Query.prems in auto)
  ultimately show ?case by simp
qed simp

text \<open>What the first program leaves over, the second may use.\<close>

lemma affords_bind:
  assumes "affords invar held rest n p" and "\<And>a. affords invar held paid (rest a) (k a)"
  shows "affords invar held paid n (bind p k)"
  using assms(1)
proof (induction p arbitrary: n)
  case (Done a)
  then show ?case using affords_mono assms(2) by fastforce
next
  case (Memory f g)
  then show ?case by (auto, metis rangeI)
next
  case (Query f g e)
  have "(\<exists>m. held (f s) + m \<le> held s + n \<and> affords invar held paid m (bind (g s) k)) \<and>
      (\<exists>m. held (f s) + m \<le> held s + n \<and> affords invar held paid m (bind e k))" if "invar s" for s
  proof -
    obtain m m' where "held (f s) + m \<le> held s + n" "affords invar held rest m (g s)"
      "held (f s) + m' \<le> held s + n" "affords invar held rest m' e" using Query.prems \<open>invar s\<close> by auto
    then show ?thesis using Query.IH by blast
  qed
  then show ?case using Query by simp
qed

lemma affords_memory:
  "(\<And>s. invar s \<Longrightarrow> held (snd (f s)) + paid (fst (f s)) \<le> held s + n) \<Longrightarrow> affords invar held paid n (memory f)"
  by (auto simp: memory_def)

lemma affords_query:
  "(\<And>s. invar s \<Longrightarrow> held (snd (f s)) + paid (fst (f s)) \<le> held s + n \<and> held (snd (f s)) + paid (Inl e) \<le> held s + n) \<Longrightarrow>
   paid (Inl e) \<le> n \<Longrightarrow> affords invar held paid n (query e f)"
  by (auto simp: query_def)

definition paid_out :: "('a \<Rightarrow> nat) \<Rightarrow> ('s, 'r, 'a) service \<Rightarrow> nat" where
  "paid_out paid c = (\<Sum>(r, p) \<leftarrow> snd c. case p of Done a \<Rightarrow> paid a | _ \<Rightarrow> 0)"

lemma affords_step:
  assumes "affords invar held paid n p" and "invar s" and "prog_step w p s = (p', s')"
  shows "\<exists>m. held s' + m \<le> held s + n \<and> affords invar held paid m p'"
  using assms by (cases p; cases w) auto

locale budgeted = interleaved handle tick admitted invar grows guar post
  for handle :: "'r \<Rightarrow> ('s, 'a) prog" and tick admitted invar grows guar post +
  fixes held :: "'s \<Rightarrow> nat" and paid :: "'a \<Rightarrow> nat" and cost :: "'r \<Rightarrow> nat"
  assumes cost: "admitted r \<Longrightarrow> affords invar held paid (cost r) (handle r)"
    and tick_free: "held (tick d s) \<le> held s"
begin

abbreviation covers where
  "covers ns pool \<equiv> list_all2 (\<lambda>n (r, p). affords invar held paid n p) ns pool"

lemma run_covered:
  assumes "invar s" and "list_all admitted (arrivals events)"
  shows "\<exists>ns. covers ns (snd (serve_events handle tick events s)) \<and>
    held (state_after handle tick events s) + sum_list ns \<le> held s + sum_list (map cost (arrivals events))"
  using assms(2)
proof (induction events rule: rev_induct)
  case Nil
  then show ?case by (auto simp: state_after_def)
next
  case (snoc e es)
  obtain t pool where c: "serve_events handle tick es s = (t, pool)" by force
  then obtain ns where ns: "covers ns pool"
    "held t + sum_list ns \<le> held s + sum_list (map cost (arrivals es))"
    using snoc by (auto simp: state_after_def)
  have t: "invar t" using run_inv [OF assms(1), of es] snoc.prems c by (simp add: state_after_def)
  show ?case
  proof (cases e)
    case (Arrives r)
    then have "covers (ns @ [cost r]) (pool @ [(r, handle r)])"
      using ns(1) cost [of r] snoc.prems by (auto intro: list_all2_appendI)
    then show ?thesis using ns(2) Arrives c
      by (intro exI [of _ "ns @ [cost r]"]) (simp add: state_after_def)
  next
    case (Ticks d)
    then show ?thesis using ns c tick_free [of d t] by (auto simp: state_after_def intro: order_trans)
  next
    case (Steps i w)
    show ?thesis
    proof (cases "i < length pool")
      case True
      obtain r p where q: "pool ! i = (r, p)" by force
      obtain p' t' where step: "prog_step w p t = (p', t')" by force
      have i: "i < length ns" using ns(1) True by (simp add: list_all2_lengthD)
      have "affords invar held paid (ns ! i) p" using list_all2_nthD [OF ns(1) i] q by simp
      then obtain m where m: "held t' + m \<le> held t + ns ! i" "affords invar held paid m p'"
        using affords_step [where invar = invar and s = t] t step by blast
      have "covers (ns[i := m]) (pool[i := (r, p')])"
        using ns(1) m(2) by (intro list_all2_update_cong) simp_all
      moreover have "sum_list (ns[i := m]) + ns ! i = sum_list ns + m"
        using sum_list_update [OF i, of m] member_le_sum_list [OF nth_mem [OF i]] by simp
      ultimately show ?thesis using Steps True q step c ns(2) m(1)
        by (intro exI [of _ "ns[i := m]"]) (simp add: state_after_def)
    qed (use Steps ns c in \<open>auto simp: state_after_def\<close>)
  qed
qed

lemma covers_paid: "covers ns pool \<Longrightarrow> paid_out paid (s, pool) \<le> sum_list ns"
  by (induction ns pool rule: list_all2_induct) (auto simp: paid_out_def split: prog.splits)

lemma run_budget:
  assumes "invar s" and "list_all admitted (arrivals events)"
  shows "held (state_after handle tick events s) + paid_out paid (serve_events handle tick events s) \<le>
    held s + sum_list (map cost (arrivals events))"
proof -
  obtain ns where "covers ns (snd (serve_events handle tick events s))"
    "held (state_after handle tick events s) + sum_list ns \<le> held s + sum_list (map cost (arrivals events))"
    using run_covered [OF assms] by blast
  then show ?thesis using covers_paid [of ns "snd (serve_events handle tick events s)" "fst (serve_events handle tick events s)"]
    by simp
qed

end

end
