(* ===== verification/LinkCodes.thy ===== *)
theory LinkCodes
  imports ProfileFields "HOL-Library.Word"
begin

text \<open>
  The pure part of the device sign-in (\<open>crates/site-server/src/routes/link.rs\<close>): user codes and device codes, the
  checks of labels and versions, origins, and codes in query strings. Random bytes are arguments. Strings are
  UTF-8 bytes; the percent decoding of the \<open>urlencoding\<close> crate is an argument, which fails on invalid UTF-8.
\<close>

unbundle bit_operations_syntax

subsection \<open>Codes\<close>

definition user_code_alphabet :: string where
  "user_code_alphabet = ''ABCDEFGHJKLMNPQRSTUVWXYZ23456789''"

definition user_code_len :: nat where
  "user_code_len = 8"

definition device_code_hex_len :: nat where
  "device_code_hex_len = 64"

definition to_ascii_upper_char :: "char \<Rightarrow> char" where
  "to_ascii_upper_char c = (if 97 \<le> byte c \<and> byte c \<le> 122 then char_of (byte c - 32) else c)"

fun user_code_chars :: "string \<Rightarrow> string option" where
  "user_code_chars [] = Some []"
| "user_code_chars (c # cs) =
     (if c = CHR ''-'' \<or> c = CHR 0x20 then user_code_chars cs
      else if to_ascii_upper_char c \<notin> set user_code_alphabet then None
      else map_option (Cons (to_ascii_upper_char c)) (user_code_chars cs))"

definition canonical_user_code :: "string \<Rightarrow> string option" where
  "canonical_user_code raw =
     (if 32 < length raw then None
      else case user_code_chars raw of
        None \<Rightarrow> None
      | Some out \<Rightarrow> if length out = user_code_len then Some out else None)"

definition format_user_code :: "string \<Rightarrow> string" where
  "format_user_code canonical = take 4 canonical @ ''-'' @ drop 4 canonical"

fun device_code_chars :: "string \<Rightarrow> string option" where
  "device_code_chars [] = Some []"
| "device_code_chars (c # cs) =
     (if c = CHR 0x20 \<or> c = CHR ''-'' then device_code_chars cs
      else if \<not> is_ascii_hexdigit c then None
      else map_option (Cons (to_ascii_lower_char c)) (device_code_chars cs))"

definition canonical_device_code :: "string \<Rightarrow> string option" where
  "canonical_device_code raw =
     (if 80 < length raw then None
      else case device_code_chars raw of
        None \<Rightarrow> None
      | Some out \<Rightarrow> if length out = device_code_hex_len then Some out else None)"

text \<open>The code to display, and the canonical one.\<close>

definition generate_user_code :: "8 word list \<Rightarrow> string \<times> string" where
  "generate_user_code bytes =
     (let canonical = map (\<lambda>b. user_code_alphabet ! (unat b mod length user_code_alphabet)) bytes
      in (format_user_code canonical, canonical))"

definition generate_secret_hex :: "8 word list \<Rightarrow> string" where
  "generate_secret_hex bytes =
     concat (map (\<lambda>b. [hex_char (unat (drop_bit 4 b)), hex_char (unat (b AND 0x0F))]) bytes)"

subsection \<open>Labels, versions, origins, query strings\<close>

definition label_error :: string where
  "label_error = ''device_label must be 1-64 characters without control characters''"

definition version_error :: string where
  "version_error = ''app_version must be 1-32 characters from [A-Za-z0-9._+-] and include a letter or digit''"

text \<open>\<open>chars().count()\<close>.\<close>

definition char_count :: "string \<Rightarrow> nat" where
  "char_count s = length (filter (\<lambda>c. \<not> is_continuation c) s)"

definition validate_device_label :: "string \<Rightarrow> string + string" where
  "validate_device_label raw =
     (let label = trim raw; len = char_count label
      in if \<not> (1 \<le> len \<and> len \<le> 64) \<or> list_ex (str_contains label) control_encodings then Inl label_error
         else Inr label)"

definition validate_app_version :: "string \<Rightarrow> string + string" where
  "validate_app_version raw =
     (let version = trim raw
      in if \<not> (1 \<le> length version \<and> length version \<le> 32) \<or>
            \<not> list_all (\<lambda>b. is_ascii_alphanumeric b \<or> b \<in> set ''._+-'') version \<or>
            \<not> list_ex is_ascii_alphanumeric version
         then Inl version_error else Inr version)"

text \<open>\<open>HeaderValue::to_str\<close> gives visible ASCII only.\<close>

definition header_text :: "string option \<Rightarrow> string option" where
  "header_text value =
     (case value of
        None \<Rightarrow> None
      | Some v \<Rightarrow> if list_all (\<lambda>c. byte c = 9 \<or> 32 \<le> byte c \<and> byte c < 127) v then Some v else None)"

definition normalized_origin :: "string \<Rightarrow> string" where
  "normalized_origin value = rev (dropWhile (\<lambda>c. c = CHR ''/'') (rev (trim value)))"

record link_headers =
  hd_origin :: "string option"
  hd_sec_fetch_site :: "string option"

definition origin_is_allowed :: "string \<Rightarrow> string list \<Rightarrow> link_headers \<Rightarrow> bool" where
  "origin_is_allowed redirect_base_url allowed_origins headers =
     (case header_text (hd_origin headers) of
        Some raw \<Rightarrow>
          (let origin = normalized_origin raw
           in origin \<noteq> [] \<and>
              (origin = normalized_origin redirect_base_url \<or>
               list_ex (\<lambda>allowed. normalized_origin allowed = origin) allowed_origins))
      | None \<Rightarrow> header_text (hd_sec_fetch_site headers) = Some ''same-origin'')"

definition is_secret_query_key :: "string \<Rightarrow> bool" where
  "is_secret_query_key key \<longleftrightarrow> to_ascii_lowercase key \<in>
     set [''user_code'', ''device_code'', ''usercode'', ''devicecode'', ''user-code'', ''device-code'', ''token'', ''code'']"

definition decode_query_key :: "(string \<Rightarrow> string option) \<Rightarrow> string \<Rightarrow> string" where
  "decode_query_key decode raw =
     (let plus = map (\<lambda>c. if c = CHR ''+'' then CHR 0x20 else c) raw
      in case decode plus of Some decoded \<Rightarrow> decoded | None \<Rightarrow> plus)"

definition query_has_link_secret :: "(string \<Rightarrow> string option) \<Rightarrow> string \<Rightarrow> bool" where
  "query_has_link_secret decode q \<longleftrightarrow>
     list_ex (\<lambda>pair. is_secret_query_key (trim (decode_query_key decode
         (case split_once ''='' pair of Some (key, _) \<Rightarrow> key | None \<Rightarrow> pair))))
       (split_on (\<lambda>c. c = CHR ''&'') q)"

subsection \<open>Round trips of the codes\<close>

text \<open>The ways to type a code: separators anywhere, each letter in either case.\<close>

definition typed_as :: "string \<Rightarrow> string \<Rightarrow> bool" where
  "typed_as typed canonical \<longleftrightarrow>
     map to_ascii_upper_char (filter (\<lambda>c. c \<noteq> CHR ''-'' \<and> c \<noteq> CHR 0x20) typed) = canonical"

lemma user_code_chars_iff:
  "user_code_chars typed = Some out \<longleftrightarrow> typed_as typed out \<and> list_all (\<lambda>c. c \<in> set user_code_alphabet) out"
proof (induction typed arbitrary: out)
  case (Cons c cs)
  show ?case by (cases out) (auto simp: Cons.IH typed_as_def)
qed (auto simp: typed_as_def)

lemma alphabet_upper: "c \<in> set user_code_alphabet \<Longrightarrow> to_ascii_upper_char c = c \<and> c \<noteq> CHR ''-'' \<and> c \<noteq> CHR 0x20"
  unfolding user_code_alphabet_def by (auto simp: to_ascii_upper_char_def byte_def)

lemma generated_alphabet: "list_all (\<lambda>c. c \<in> set user_code_alphabet) (snd (generate_user_code bytes))"
  by (simp add: generate_user_code_def Let_def list_all_iff) (simp add: user_code_alphabet_def del: list.set)

lemma hex_char_plain:
  assumes "d < 16"
  shows "is_ascii_hexdigit (hex_char d) \<and> to_ascii_lower_char (hex_char d) = hex_char d \<and>
    hex_char d \<noteq> CHR 0x20 \<and> hex_char d \<noteq> CHR ''-''"
proof -
  have byte: "byte (hex_char d) = (if d < 10 then 48 + d else 87 + d)"
    using assms by (simp add: hex_char_def byte_def of_char_of)
  have "byte CHR 0x20 = 32" "byte CHR ''-'' = 45" by (simp_all add: byte_def)
  then have "hex_char d \<noteq> CHR 0x20" "hex_char d \<noteq> CHR ''-''" using byte by (auto split: if_splits)
  then show ?thesis using byte assms by (auto simp: is_ascii_hexdigit_def to_ascii_lower_char_def)
qed

lemma nibbles: "unat (drop_bit 4 (b :: 8 word)) < 16" "unat (b AND 0x0F) < 16"
proof -
  show "unat (drop_bit 4 b) < 16"
    using unsigned_less [of b, where ?'a = nat]
    by (simp add: unat_div less_mult_imp_div_less drop_bit_eq_div)
  have "b AND 0x0F \<le> 0x0F" by (rule word_and_le1)
  then show "unat (b AND 0x0F) < 16" by (simp add: word_le_nat_alt)
qed

lemma secret_chars: "c \<in> set (generate_secret_hex bytes) \<Longrightarrow> \<exists>d < 16. c = hex_char d"
  using nibbles by (auto simp: generate_secret_hex_def)

lemma length_secret [simp]: "length (generate_secret_hex bytes) = 2 * length bytes"
  by (induction bytes) (auto simp: generate_secret_hex_def)

lemma device_code_kept: "(\<And>c. c \<in> set s \<Longrightarrow> \<exists>d < 16. c = hex_char d) \<Longrightarrow> device_code_chars s = Some s"
proof (induction s)
  case (Cons c cs)
  then obtain d where "d < 16" "c = hex_char d" by auto
  then show ?case using Cons hex_char_plain [of d] by auto
qed simp

lemma typed_alphabet: "list_all (\<lambda>c. c \<in> set user_code_alphabet) s \<Longrightarrow> typed_as s s"
proof (induction s)
  case (Cons c cs)
  then show ?case using alphabet_upper [of c] by (simp add: typed_as_def)
qed (simp add: typed_as_def)

lemma typed_hyphen: "typed_as a x \<Longrightarrow> typed_as b y \<Longrightarrow> typed_as (a @ ''-'' @ b) (x @ y)"
  by (simp add: typed_as_def)

lemma typed_formatted: "list_all (\<lambda>c. c \<in> set user_code_alphabet) s \<Longrightarrow> typed_as (format_user_code s) s"
proof -
  assume "list_all (\<lambda>c. c \<in> set user_code_alphabet) s"
  then have "list_all (\<lambda>c. c \<in> set user_code_alphabet) (take 4 s)" "list_all (\<lambda>c. c \<in> set user_code_alphabet) (drop 4 s)"
    by (metis append_take_drop_id list_all_append)+
  from typed_hyphen [OF this [THEN typed_alphabet]] show ?thesis unfolding format_user_code_def by simp
qed

text \<open>
  C35: A user code survives the way through a person. Whatever code the server generates, its displayed form is read
  back as the code itself, and so is every way to type it with separators anywhere and letters in either case (up to
  32 bytes); nothing else is read as that code. The generated device code, too, is its own canonical form.
\<close>

theorem link_codes_round_trip:
  assumes "length bytes = user_code_len" and "length device_bytes = 32" and "length typed \<le> 32"
  shows "canonical_user_code (fst (generate_user_code bytes)) = Some (snd (generate_user_code bytes)) \<and>
    (canonical_user_code typed = Some (snd (generate_user_code bytes)) \<longleftrightarrow>
       typed_as typed (snd (generate_user_code bytes))) \<and>
    canonical_device_code (generate_secret_hex device_bytes) = Some (generate_secret_hex device_bytes)"
proof (intro conjI)
  let ?code = "snd (generate_user_code bytes)"
  have len: "length ?code = user_code_len" using assms(1) by (simp add: generate_user_code_def Let_def)
  have typed: "canonical_user_code typed = Some ?code \<longleftrightarrow> typed_as typed ?code" if "length typed \<le> 32" for typed
  proof (cases "user_code_chars typed")
    case None
    then show ?thesis using that generated_alphabet [of bytes] user_code_chars_iff [of typed ?code]
      by (simp add: canonical_user_code_def)
  next
    case (Some out)
    then have "typed_as typed out" using user_code_chars_iff by blast
    then have "typed_as typed ?code \<longleftrightarrow> out = ?code" by (auto simp: typed_as_def)
    then show ?thesis using Some that len by (auto simp: canonical_user_code_def)
  qed
  then show "canonical_user_code typed = Some ?code \<longleftrightarrow> typed_as typed ?code" using assms(3) by blast
  have "typed_as (format_user_code ?code) ?code"
    using generated_alphabet [of bytes]
    by (rule typed_formatted)
  then show "canonical_user_code (fst (generate_user_code bytes)) = Some ?code"
    using typed [of "format_user_code ?code"] len
    by (simp add: generate_user_code_def Let_def format_user_code_def user_code_len_def)
  show "canonical_device_code (generate_secret_hex device_bytes) = Some (generate_secret_hex device_bytes)"
    using device_code_kept [OF secret_chars] assms(2)
    by (simp add: canonical_device_code_def device_code_hex_len_def)
qed

lemma link_codes_round_trip_witness:
  "canonical_user_code (fst (generate_user_code (replicate 8 33))) = Some (snd (generate_user_code (replicate 8 33))) \<and>
    (canonical_user_code ''bbbb-bbbb'' = Some (snd (generate_user_code (replicate 8 33))) \<longleftrightarrow>
       typed_as ''bbbb-bbbb'' (snd (generate_user_code (replicate 8 33)))) \<and>
    canonical_device_code (generate_secret_hex (replicate 32 7)) = Some (generate_secret_hex (replicate 32 7))"
  by (rule link_codes_round_trip) (simp_all add: user_code_len_def)

end
