(* ===== verification/DeviceLinkDb.thy ===== *)
theory DeviceLinkDb
  imports Programs Tables SiteAudit LinkLimits LinkCodes
begin

text \<open>
  The queries of \<open>crates/db/src/queries/device_link.rs\<close> and \<open>daemon_tokens.rs\<close>, as programs whose statements are
  atomic. One clock serves the database and the server. The state also holds what the handlers keep in memory:
  the wrong codes and the polls of each address. The hash of codes and tokens is an argument; the unique
  indexes are on the hashes.
\<close>

subsection \<open>The state\<close>

definition device_link_interval_secs :: nat where
  "device_link_interval_secs = 5"

definition device_link_ttl_secs :: nat where
  "device_link_ttl_secs = 600"

definition daemon_token_ttl_days :: nat where
  "daemon_token_ttl_days = 180"

definition PENDING :: string where "PENDING = ''pending''"
definition APPROVED :: string where "APPROVED = ''approved''"
definition DENIED :: string where "DENIED = ''denied''"
definition CONSUMED :: string where "CONSUMED = ''consumed''"

record link_row =
  lk_user_hash :: string
  lk_device_hash :: string
  lk_label :: string
  lk_version :: string
  lk_status :: string
  lk_member :: "string option"
  lk_token :: "string option"
  lk_handover :: "string option"
  lk_created :: instant
  lk_expires :: instant
  lk_last_poll :: "instant option"

record token_row =
  dt_member :: string
  dt_hash :: string
  dt_label :: string
  dt_active :: bool
  dt_created :: instant
  dt_last_used :: "instant option"
  dt_expires :: "instant option"

record link_site = logged +
  ls_links :: "link_row table"
  ls_tokens :: "token_row table"
  ls_ids :: "nat \<Rightarrow> string"
  ls_next :: nat
  ls_clock :: instant
  ls_codes :: "string code_book"
  ls_polls :: "string poll_book"

datatype link_db_error = DriverError | RowNotFound string | WriteConflict string

type_synonym 'a link_query = "(link_site, link_db_error + 'a) prog"

definition statement :: "(link_site \<Rightarrow> (link_db_error + 'a) \<times> link_site) \<Rightarrow> 'a link_query" where
  "statement f = query DriverError f"

definition read_clock :: "(link_site, instant) prog" where
  "read_clock = memory (\<lambda>s. (ls_clock s, s))"

definition select_links :: "(link_row \<Rightarrow> bool) \<Rightarrow> link_site \<Rightarrow> link_row list" where
  "select_links P s = map snd (t_list P (ls_links s))"

definition update_links :: "(link_row \<Rightarrow> bool) \<Rightarrow> (link_row \<Rightarrow> link_row) \<Rightarrow> link_site \<Rightarrow> link_site" where
  "update_links P f s = s\<lparr>ls_links := t_update_where P f (ls_links s)\<rparr>"

definition new_row_id :: "link_site \<Rightarrow> string" where
  "new_row_id s = ls_ids s (ls_next s)"

subsection \<open>Tokens\<close>

definition insert_token :: "token_row \<Rightarrow> link_site \<Rightarrow> (link_db_error + string \<times> token_row) \<times> link_site" where
  "insert_token row s =
     (if t_list (\<lambda>t. dt_hash t = dt_hash row) (ls_tokens s) \<noteq> [] then (Inl DriverError, s)
      else (Inr (new_row_id s, row), s\<lparr>ls_tokens := t_create (new_row_id s) row (ls_tokens s), ls_next := Suc (ls_next s)\<rparr>))"

definition create_daemon_token ::
  "(string \<Rightarrow> string) \<Rightarrow> string \<Rightarrow> string \<Rightarrow> string \<Rightarrow> (string \<times> token_row) link_query" where
  "create_daemon_token hash member raw label =
     bind read_clock (\<lambda>now. statement (insert_token
       \<lparr>dt_member = member, dt_hash = hash raw, dt_label = label, dt_active = True, dt_created = now,
        dt_last_used = None, dt_expires = Some (now + int (from_secs (daemon_token_ttl_days * 86400)))\<rparr>))"

definition deactivate :: "string \<Rightarrow> string \<Rightarrow> link_site \<Rightarrow> (link_db_error + unit) \<times> link_site" where
  "deactivate tid member s =
     (case rows (ls_tokens s) tid of
        None \<Rightarrow> (Inl (RowNotFound tid), s)
      | Some t \<Rightarrow>
          if dt_member t = member then (Inr (), s\<lparr>ls_tokens := t_update tid (t\<lparr>dt_active := False\<rparr>) (ls_tokens s)\<rparr>)
          else (Inl (RowNotFound tid), s))"

definition revoke_daemon_token :: "string \<Rightarrow> string \<Rightarrow> unit link_query" where
  "revoke_daemon_token tid member = statement (deactivate tid member)"

definition expiry_elapsed :: "instant option \<Rightarrow> instant \<Rightarrow> bool" where
  "expiry_elapsed expires now \<longleftrightarrow> (case expires of None \<Rightarrow> False | Some at \<Rightarrow> at \<le> now)"

datatype token_auth = ActiveToken string string | ExpiredToken | MissingToken

text \<open>
  The touch is bookkeeping: a conflict that the database reports for it (\<open>conflict\<close>) is only logged, and the
  row is left as it was.
\<close>

definition touch_token :: "bool \<Rightarrow> string \<Rightarrow> link_site \<Rightarrow> (link_db_error + unit) \<times> link_site" where
  "touch_token conflict h s =
     (Inr (), if conflict then s
        else s\<lparr>ls_tokens := t_update_where (\<lambda>t. dt_hash t = h) (\<lambda>t. t\<lparr>dt_last_used := Some (ls_clock s)\<rparr>) (ls_tokens s)\<rparr>)"

definition validate_daemon_token :: "(string \<Rightarrow> string) \<Rightarrow> bool \<Rightarrow> string \<Rightarrow> token_auth link_query" where
  "validate_daemon_token hash conflict raw =
     try_bind (statement (\<lambda>s. (Inr (t_list (\<lambda>t. dt_hash t = hash raw \<and> dt_active t) (ls_tokens s)), s)))
       (\<lambda>tokens. case tokens of
          [] \<Rightarrow> Done (Inr MissingToken)
        | (tid, t) # _ \<Rightarrow>
            bind read_clock (\<lambda>now.
              if expiry_elapsed (dt_expires t) now then Done (Inr ExpiredToken)
              else try_bind (statement (touch_token conflict (hash raw))) (\<lambda>_. Done (Inr (ActiveToken (dt_member t) tid)))))"

definition lookup_daemon_token :: "(string \<Rightarrow> string) \<Rightarrow> string \<Rightarrow> string option link_query" where
  "lookup_daemon_token hash raw =
     statement (\<lambda>s. (Inr (case t_list (\<lambda>t. dt_hash t = hash raw \<and> dt_active t \<and> \<not> expiry_elapsed (dt_expires t) (ls_clock s)) (ls_tokens s) of
        [] \<Rightarrow> None | (_, t) # _ \<Rightarrow> Some (dt_member t)), s))"

subsection \<open>Links\<close>

definition insert_link :: "link_row \<Rightarrow> link_site \<Rightarrow> (link_db_error + unit) \<times> link_site" where
  "insert_link row s =
     (if select_links (\<lambda>r. lk_user_hash r = lk_user_hash row \<or> lk_device_hash r = lk_device_hash row) s \<noteq> []
      then (Inl DriverError, s)
      else (Inr (), s\<lparr>ls_links := t_create (new_row_id s) row (ls_links s), ls_next := Suc (ls_next s)\<rparr>))"

definition insert_device_link ::
  "(string \<Rightarrow> string) \<Rightarrow> string \<Rightarrow> string \<Rightarrow> string \<Rightarrow> string \<Rightarrow> unit link_query" where
  "insert_device_link hash user_code device_code label version =
     statement (\<lambda>s. insert_link
       \<lparr>lk_user_hash = hash user_code, lk_device_hash = hash device_code, lk_label = label, lk_version = version,
        lk_status = PENDING, lk_member = None, lk_token = None, lk_handover = None, lk_created = ls_clock s,
        lk_expires = ls_clock s + int (from_secs device_link_ttl_secs), lk_last_poll = None\<rparr> s)"

definition live_pending :: "string \<Rightarrow> instant \<Rightarrow> link_row \<Rightarrow> bool" where
  "live_pending h now r \<longleftrightarrow> lk_user_hash r = h \<and> lk_status r = PENDING \<and> now < lk_expires r"

definition lookup_device_link :: "(string \<Rightarrow> string) \<Rightarrow> string \<Rightarrow> (string \<times> string \<times> instant) option link_query" where
  "lookup_device_link hash user_code =
     statement (\<lambda>s. (Inr (case select_links (live_pending (hash user_code) (ls_clock s)) s of
        [] \<Rightarrow> None | r # _ \<Rightarrow> Some (lk_label r, lk_version r, lk_created r)), s))"

definition mark_approved :: "string \<Rightarrow> string \<Rightarrow> string \<Rightarrow> string \<Rightarrow> link_site \<Rightarrow> (link_db_error + bool) \<times> link_site" where
  "mark_approved h member tid secret s =
     (Inr (select_links (live_pending h (ls_clock s)) s \<noteq> []),
      update_links (live_pending h (ls_clock s))
        (\<lambda>r. r\<lparr>lk_status := APPROVED, lk_member := Some member, lk_token := Some tid, lk_handover := Some secret\<rparr>) s)"

definition approve_device_link :: "(string \<Rightarrow> string) \<Rightarrow> string \<Rightarrow> string \<Rightarrow> string \<Rightarrow> string \<Rightarrow> bool link_query" where
  "approve_device_link hash user_code member tid secret =
     bind (statement (mark_approved (hash user_code) member tid secret))
       (\<lambda>r. Done (case r of Inl _ \<Rightarrow> Inl (WriteConflict ''device link approve failed'') | Inr won \<Rightarrow> Inr won))"

definition deniable :: "string \<Rightarrow> string \<Rightarrow> instant \<Rightarrow> link_row \<Rightarrow> bool" where
  "deniable h member now r \<longleftrightarrow> lk_user_hash r = h \<and> now < lk_expires r \<and>
     (lk_status r = PENDING \<or> lk_status r = APPROVED \<and> lk_member r = Some member)"

definition mark_denied :: "string \<Rightarrow> string \<Rightarrow> link_site \<Rightarrow> (link_db_error + bool) \<times> link_site" where
  "mark_denied h member s =
     (Inr (select_links (deniable h member (ls_clock s)) s \<noteq> []),
      update_links (deniable h member (ls_clock s)) (\<lambda>r. r\<lparr>lk_status := DENIED, lk_handover := None\<rparr>) s)"

definition select_deniable :: "string \<Rightarrow> string \<Rightarrow> link_site \<Rightarrow> (link_db_error + link_row option) \<times> link_site" where
  "select_deniable h member s =
     (Inr (case select_links (deniable h member (ls_clock s)) s of [] \<Rightarrow> None | r # _ \<Rightarrow> Some r), s)"

text \<open>The token of the denied link, if it had one: nothing to deny is \<open>None\<close>.\<close>

definition deny_device_link :: "(string \<Rightarrow> string) \<Rightarrow> string \<Rightarrow> string \<Rightarrow> string option option link_query" where
  "deny_device_link hash user_code member =
     try_bind (statement (select_deniable (hash user_code) member)) (\<lambda>found. case found of
       None \<Rightarrow> Done (Inr None)
     | Some row \<Rightarrow>
         try_bind (case (lk_token row, lk_member row) of
             (Some tid, Some owner) \<Rightarrow> revoke_daemon_token tid owner
           | _ \<Rightarrow> Done (Inr ()))
           (\<lambda>_. try_bind (statement (mark_denied (hash user_code) member))
             (\<lambda>updated. Done (Inr (if updated then Some (lk_token row) else None)))))"

subsection \<open>Polls\<close>

datatype link_poll = PollPending | PollSlowDown | PollDenied | PollExpired | PollApproved string

datatype consumed = ConsumedToken string | ConsumedEmpty | ConsumedLost

definition is_expired :: "instant \<Rightarrow> instant \<Rightarrow> bool" where
  "is_expired expires now \<longleftrightarrow> expires \<le> now"

definition polled_too_fast :: "instant option \<Rightarrow> instant \<Rightarrow> bool" where
  "polled_too_fast prev now \<longleftrightarrow>
     (case prev of None \<Rightarrow> False | Some t \<Rightarrow> now - t < int (from_secs device_link_interval_secs))"

definition pollable :: "string \<Rightarrow> string \<Rightarrow> instant \<Rightarrow> link_row \<Rightarrow> bool" where
  "pollable h status now r \<longleftrightarrow> lk_device_hash r = h \<and> lk_status r = status \<and> now < lk_expires r \<and>
     (case lk_last_poll r of None \<Rightarrow> True | Some t \<Rightarrow> t \<le> now - int (from_secs device_link_interval_secs))"

definition load_by_device_hash :: "string \<Rightarrow> link_row option link_query" where
  "load_by_device_hash h =
     statement (\<lambda>s. (Inr (case select_links (\<lambda>r. lk_device_hash r = h) s of [] \<Rightarrow> None | r # _ \<Rightarrow> Some r), s))"

definition touch_poll :: "string \<Rightarrow> string \<Rightarrow> instant \<Rightarrow> bool link_query" where
  "touch_poll h status now =
     statement (\<lambda>s. (Inr (select_links (pollable h status now) s \<noteq> []),
       update_links (pollable h status now) (\<lambda>r. r\<lparr>lk_last_poll := Some now\<rparr>) s))"

definition claim_link :: "string \<Rightarrow> instant \<Rightarrow> link_site \<Rightarrow> (link_db_error + consumed) \<times> link_site" where
  "claim_link h now s =
     (Inr (case select_links (pollable h APPROVED now) s of
         [] \<Rightarrow> ConsumedLost
       | r # _ \<Rightarrow> (case lk_handover r of
            Some token \<Rightarrow> if token \<noteq> [] then ConsumedToken token else ConsumedEmpty
          | None \<Rightarrow> ConsumedEmpty)),
      update_links (pollable h APPROVED now)
        (\<lambda>r. r\<lparr>lk_status := CONSUMED, lk_handover := None, lk_last_poll := Some now\<rparr>) s)"

definition consume_approved :: "string \<Rightarrow> instant \<Rightarrow> consumed link_query" where
  "consume_approved h now = statement (claim_link h now)"

primrec poll_tries :: "nat \<Rightarrow> string \<Rightarrow> instant \<Rightarrow> link_poll link_query" where
  "poll_tries 0 h now = Done (Inr PollExpired)"
| "poll_tries (Suc n) h now =
     try_bind (load_by_device_hash h) (\<lambda>found. case found of
       None \<Rightarrow> Done (Inr PollExpired)
     | Some row \<Rightarrow>
         if is_expired (lk_expires row) now \<or> lk_status row = CONSUMED then Done (Inr PollExpired)
         else if polled_too_fast (lk_last_poll row) now then Done (Inr PollSlowDown)
         else if lk_status row = PENDING then
           try_bind (touch_poll h PENDING now)
             (\<lambda>touched. if touched then Done (Inr PollPending) else poll_tries n h now)
         else if lk_status row = DENIED then
           try_bind (touch_poll h DENIED now) (\<lambda>_. Done (Inr PollDenied))
         else if lk_status row = APPROVED then
           try_bind (consume_approved h now) (\<lambda>c. case c of
             ConsumedToken token \<Rightarrow> Done (Inr (PollApproved token))
           | ConsumedEmpty \<Rightarrow> Done (Inr PollExpired)
           | ConsumedLost \<Rightarrow> poll_tries n h now)
         else Done (Inr PollExpired))"

definition poll_device_link :: "(string \<Rightarrow> string) \<Rightarrow> string \<Rightarrow> instant \<Rightarrow> link_poll link_query" where
  "poll_device_link hash device_code now = poll_tries 2 (hash device_code) now"

subsection \<open>Cleanup\<close>

definition uncollected :: "instant \<Rightarrow> link_row \<Rightarrow> bool" where
  "uncollected cutoff r \<longleftrightarrow> lk_expires r \<le> cutoff \<and> lk_member r \<noteq> None \<and> lk_token r \<noteq> None \<and>
     (lk_status r = APPROVED \<or> lk_status r = DENIED)"

primrec revoke_uncollected :: "(string option \<times> string option) list \<Rightarrow> unit link_query" where
  "revoke_uncollected [] = Done (Inr ())"
| "revoke_uncollected (p # ps) =
     (case p of
        (Some member, Some tid) \<Rightarrow>
          bind (revoke_daemon_token tid member) (\<lambda>r. case r of
            Inr _ \<Rightarrow> revoke_uncollected ps
          | Inl (RowNotFound _) \<Rightarrow> revoke_uncollected ps
          | Inl e \<Rightarrow> Done (Inl e))
      | _ \<Rightarrow> Done (Inl (WriteConflict ''device link cleanup missing token owner'')))"

definition select_uncollected ::
  "instant \<Rightarrow> link_site \<Rightarrow> (link_db_error + (string option \<times> string option) list) \<times> link_site" where
  "select_uncollected cutoff s = (Inr (map (\<lambda>r. (lk_member r, lk_token r)) (select_links (uncollected cutoff) s)), s)"

definition cleanup_before :: "instant \<Rightarrow> nat link_query" where
  "cleanup_before cutoff =
     try_bind (statement (select_uncollected cutoff)) (\<lambda>found.
     try_bind (revoke_uncollected found) (\<lambda>_.
     try_bind (statement (\<lambda>s. (Inr (), update_links (\<lambda>r. lk_expires r \<le> cutoff) (\<lambda>r. r\<lparr>lk_handover := None\<rparr>) s))) (\<lambda>_.
     try_bind (statement (\<lambda>s. (Inr (length (select_links (\<lambda>r. lk_expires r \<le> cutoff) s)), s))) (\<lambda>count.
     if count = 0 then Done (Inr 0)
     else try_bind (statement (\<lambda>s. (Inr (), s\<lparr>ls_links := t_delete_where (\<lambda>r. lk_expires r \<le> cutoff) (ls_links s)\<rparr>)))
       (\<lambda>_. Done (Inr count))))))"

definition cleanup_expired_device_links :: "nat link_query" where
  "cleanup_expired_device_links = bind read_clock cleanup_before"

end
