(* ===== verification/DeviceLinkRoutes.thy ===== *)
theory DeviceLinkRoutes
  imports DeviceLinkDb SiteAuth
begin

text \<open>
  The handlers of the device sign-in as programs: \<open>crates/site-server/src/routes/link.rs\<close>, the cleanup of
  \<open>link_cleanup.rs\<close>, the token routes of \<open>routes/stats.rs\<close>, and the token check of \<open>extractors.rs\<close>. The member
  extractors run before a handler, on a \<open>caller\<close>; the client address comes with the request.
\<close>

record link_env =
  lv_hash :: "string \<Rightarrow> string"
  lv_redirect_base_url :: string
  lv_allowed_origins :: "string list"
  lv_pick :: "string list \<Rightarrow> string"

record link_caller =
  lc_caller :: caller
  lc_ip :: string
  lc_headers :: link_headers

datatype link_response =
    LinkFailed nat string
  | LinkLimited nat
  | LinkStarted string string nat nat
  | LinkPolled string "string option"
  | LinkFound string string instant
  | LinkDone
  | TokenCreated string string string
  | TokenRevoked
  | DaemonAccepted string string
  | DaemonTokenExpired
  | CleanupDone nat
  | CleanupFailed

type_synonym link_prog = "(link_site, link_response) prog"

definition invalid_code :: link_response where
  "invalid_code = LinkFailed 400 ''invalid code''"

definition internal :: link_response where
  "internal = LinkFailed 500 ''Internal error''"

definition origin_rejected :: link_response where
  "origin_rejected = LinkFailed 403 ''bad_origin''"

definition refused_by :: "http_error \<Rightarrow> link_response" where
  "refused_by e = (case e of Status code msg \<Rightarrow> LinkFailed code msg)"

text \<open>The audit write is a statement of its own, whose failure is only logged.\<close>

definition audit_link :: "string \<Rightarrow> audit_action \<Rightarrow> audit_target \<Rightarrow> string \<Rightarrow> string option \<Rightarrow> (link_site, unit) prog" where
  "audit_link actor action target_type target details =
     bind (query () (audit actor action target_type target details)) (\<lambda>_. Done ())"

subsection \<open>Start and poll\<close>

definition start_link :: "link_env \<Rightarrow> 8 word list \<Rightarrow> 8 word list \<Rightarrow> string \<Rightarrow> string \<Rightarrow> link_prog" where
  "start_link env code_bytes secret_bytes label version =
     (case validate_device_label label of
        Inl e \<Rightarrow> Done (LinkFailed 400 e)
      | Inr device_label \<Rightarrow>
          (case validate_app_version version of
             Inl e \<Rightarrow> Done (LinkFailed 400 e)
           | Inr app_version \<Rightarrow>
               (case generate_user_code code_bytes of (user_code, canonical_user) \<Rightarrow>
                  let device_code = generate_secret_hex secret_bytes
                  in bind (insert_device_link (lv_hash env) canonical_user device_code device_label app_version)
                       (\<lambda>r. Done (case r of
                          Inl _ \<Rightarrow> internal
                        | Inr _ \<Rightarrow> LinkStarted user_code device_code device_link_interval_secs device_link_ttl_secs)))))"

definition poll_link :: "link_env \<Rightarrow> string \<Rightarrow> link_prog" where
  "poll_link env raw =
     (case canonical_device_code raw of
        None \<Rightarrow> Done (LinkPolled ''expired'' None)
      | Some device_code \<Rightarrow>
          bind read_clock (\<lambda>now.
          bind (poll_device_link (lv_hash env) device_code now) (\<lambda>r. Done (case r of
            Inl _ \<Rightarrow> internal
          | Inr PollPending \<Rightarrow> LinkPolled ''pending'' None
          | Inr PollSlowDown \<Rightarrow> LinkPolled ''slow_down'' None
          | Inr PollDenied \<Rightarrow> LinkPolled ''denied'' None
          | Inr PollExpired \<Rightarrow> LinkPolled ''expired'' None
          | Inr (PollApproved token) \<Rightarrow> LinkPolled ''approved'' (Some token)))))"

definition limit_link_poll :: "link_env \<Rightarrow> string \<Rightarrow> link_prog \<Rightarrow> link_prog" where
  "limit_link_poll env ip handler =
     bind (memory (\<lambda>s. case poll_take (lv_pick env) ip (ls_clock s) (ls_polls s) of
         (refused, book) \<Rightarrow> (refused, s\<lparr>ls_polls := book\<rparr>)))
       (\<lambda>refused. case refused of Some secs \<Rightarrow> Done (LinkLimited secs) | None \<Rightarrow> handler)"

subsection \<open>Lookup, approve, deny\<close>

definition note_invalid :: "link_env \<Rightarrow> string \<Rightarrow> link_prog" where
  "note_invalid env ip =
     bind (memory (\<lambda>s. ((), s\<lparr>ls_codes := record_wrong_code (lv_pick env) ip (ls_clock s) (ls_codes s)\<rparr>)))
       (\<lambda>_. Done invalid_code)"

text \<open>What the three code routes start with: the member, the origin, the limit of wrong codes, the form of the code.\<close>

definition with_user_code :: "link_env \<Rightarrow> link_caller \<Rightarrow> string \<Rightarrow> (site_member \<Rightarrow> string \<Rightarrow> link_prog) \<Rightarrow> link_prog" where
  "with_user_code env c raw handler =
     (case org_member (lc_caller c) of
        Inl e \<Rightarrow> Done (refused_by e)
      | Inr member \<Rightarrow>
          if \<not> origin_is_allowed (lv_redirect_base_url env) (lv_allowed_origins env) (lc_headers c) then Done origin_rejected
          else bind (memory (\<lambda>s. (codes_retry_after (lc_ip c) (ls_clock s) (ls_codes s), s)))
            (\<lambda>wait. case wait of
               Some secs \<Rightarrow> Done (LinkLimited secs)
             | None \<Rightarrow>
                 (case canonical_user_code raw of
                    None \<Rightarrow> note_invalid env (lc_ip c)
                  | Some user_code \<Rightarrow> handler member user_code)))"

definition lookup_link :: "link_env \<Rightarrow> link_caller \<Rightarrow> string \<Rightarrow> link_prog" where
  "lookup_link env c raw = with_user_code env c raw (\<lambda>member user_code.
     bind (lookup_device_link (lv_hash env) user_code) (\<lambda>r. case r of
       Inl _ \<Rightarrow> Done internal
     | Inr None \<Rightarrow> note_invalid env (lc_ip c)
     | Inr (Some (label, version, created)) \<Rightarrow> Done (LinkFound label version created)))"

definition approve_tail :: "link_env \<Rightarrow> string \<Rightarrow> string \<Rightarrow> string \<Rightarrow> string \<Rightarrow> string \<Rightarrow> string \<Rightarrow> link_prog" where
  "approve_tail env ip member user_code label secret tid =
     bind (approve_device_link (lv_hash env) user_code member tid secret) (\<lambda>approved. case approved of
       Inl _ \<Rightarrow> Done internal
     | Inr True \<Rightarrow>
         bind (audit_link member CreatedDaemonToken TargetDaemonToken tid (Some (''label: '' @ label)))
           (\<lambda>_. Done LinkDone)
     | Inr False \<Rightarrow> bind (revoke_daemon_token tid member) (\<lambda>_. note_invalid env ip))"

definition approve_link :: "link_env \<Rightarrow> link_caller \<Rightarrow> string \<Rightarrow> 8 word list \<Rightarrow> link_prog" where
  "approve_link env c raw secret_bytes = with_user_code env c raw (\<lambda>member user_code.
     bind (lookup_device_link (lv_hash env) user_code) (\<lambda>r. case r of
       Inl _ \<Rightarrow> Done internal
     | Inr None \<Rightarrow> note_invalid env (lc_ip c)
     | Inr (Some (label, _, _)) \<Rightarrow>
         let secret = generate_secret_hex secret_bytes
         in bind (create_daemon_token (lv_hash env) (mb_id member) secret label) (\<lambda>minted. case minted of
              Inl _ \<Rightarrow> Done internal
            | Inr (tid, _) \<Rightarrow> approve_tail env (lc_ip c) (mb_id member) user_code label secret tid)))"

definition deny_link :: "link_env \<Rightarrow> link_caller \<Rightarrow> string \<Rightarrow> link_prog" where
  "deny_link env c raw = with_user_code env c raw (\<lambda>member user_code.
     bind (deny_device_link (lv_hash env) user_code (mb_id member)) (\<lambda>r. case r of
       Inl _ \<Rightarrow> Done internal
     | Inr None \<Rightarrow> note_invalid env (lc_ip c)
     | Inr (Some denied_token) \<Rightarrow>
         bind (case denied_token of
             Some tid \<Rightarrow> audit_link (mb_id member) DeniedDeviceLink TargetDaemonToken tid None
           | None \<Rightarrow> audit_link (mb_id member) DeniedDeviceLink TargetMember (mb_id member) None)
           (\<lambda>_. Done LinkDone)))"

subsection \<open>A member's own tokens\<close>

definition create_token_route :: "link_env \<Rightarrow> caller \<Rightarrow> string \<Rightarrow> 8 word list \<Rightarrow> link_prog" where
  "create_token_route env c label secret_bytes =
     (case org_member c of
        Inl e \<Rightarrow> Done (refused_by e)
      | Inr member \<Rightarrow>
          let raw = generate_secret_hex secret_bytes
          in bind (create_daemon_token (lv_hash env) (mb_id member) raw label) (\<lambda>r. case r of
               Inl _ \<Rightarrow> Done internal
             | Inr (tid, row) \<Rightarrow>
                 bind (audit_link (mb_id member) CreatedDaemonToken TargetDaemonToken tid (Some (''label: '' @ label)))
                   (\<lambda>_. Done (TokenCreated tid raw (dt_label row)))))"

definition revoke_token_route :: "caller \<Rightarrow> string \<Rightarrow> link_prog" where
  "revoke_token_route c tid =
     (case org_member c of
        Inl e \<Rightarrow> Done (refused_by e)
      | Inr member \<Rightarrow>
          bind (revoke_daemon_token tid (mb_id member)) (\<lambda>r. case r of
            Inl _ \<Rightarrow> Done internal
          | Inr _ \<Rightarrow>
              bind (audit_link (mb_id member) RevokedDaemonToken TargetDaemonToken tid None) (\<lambda>_. Done TokenRevoked)))"

subsection \<open>Using a token\<close>

datatype daemon_unauthorized = Distinct | Opaque

datatype daemon_lookup = StampLastUsed bool | ReadOnly

definition missing_text :: "daemon_unauthorized \<Rightarrow> string" where
  "missing_text mode = (case mode of Distinct \<Rightarrow> ''Missing Bearer token'' | Opaque \<Rightarrow> ''Unauthorized'')"

definition rejected_text :: "daemon_unauthorized \<Rightarrow> string" where
  "rejected_text mode = (case mode of Distinct \<Rightarrow> ''Invalid or revoked daemon token'' | Opaque \<Rightarrow> ''Unauthorized'')"

definition expired_unauthorized :: "daemon_unauthorized \<Rightarrow> link_response" where
  "expired_unauthorized mode = (case mode of Distinct \<Rightarrow> DaemonTokenExpired | Opaque \<Rightarrow> LinkFailed 401 (rejected_text mode))"

definition strip_bearer :: "string \<Rightarrow> string option" where
  "strip_bearer v = (if prefix ''Bearer '' v then Some (drop 7 v) else None)"

text \<open>The member of a token: its lookup and the suspension check, which may fail.\<close>

record member_db =
  md_member :: "string \<Rightarrow> unit + site_member option"
  md_suspended :: "string \<Rightarrow> unit + bool"

definition daemon_member :: "member_db \<Rightarrow> string \<Rightarrow> string \<Rightarrow> link_response" where
  "daemon_member db member_id tid =
     (case md_member db member_id of
        Inl _ \<Rightarrow> internal
      | Inr None \<Rightarrow> LinkFailed 403 ''Member not found''
      | Inr (Some m) \<Rightarrow>
          if \<not> mb_is_active m then LinkFailed 403 ''Membership inactive''
          else (case md_suspended db (mb_id m) of
                  Inl _ \<Rightarrow> internal
                | Inr True \<Rightarrow> LinkFailed 403 ''Member is suspended or banned''
                | Inr False \<Rightarrow> DaemonAccepted (mb_id m) tid))"

definition authenticate_daemon ::
  "link_env \<Rightarrow> daemon_unauthorized \<Rightarrow> daemon_lookup \<Rightarrow> member_db \<Rightarrow> string option \<Rightarrow> link_prog" where
  "authenticate_daemon env mode how db authorization =
     (case Option.bind (header_text authorization) strip_bearer of
        None \<Rightarrow> Done (LinkFailed 401 (missing_text mode))
      | Some raw \<Rightarrow>
          (case how of
             StampLastUsed conflict \<Rightarrow>
               bind (validate_daemon_token (lv_hash env) conflict raw) (\<lambda>r. Done (case r of
                 Inl _ \<Rightarrow> internal
               | Inr ExpiredToken \<Rightarrow> expired_unauthorized mode
               | Inr MissingToken \<Rightarrow> LinkFailed 401 (rejected_text mode)
               | Inr (ActiveToken member tid) \<Rightarrow> daemon_member db member tid))
           | ReadOnly \<Rightarrow>
               bind (lookup_daemon_token (lv_hash env) raw) (\<lambda>r. Done (case r of
                 Inl _ \<Rightarrow> internal
               | Inr None \<Rightarrow> LinkFailed 401 (rejected_text mode)
               | Inr (Some member) \<Rightarrow> daemon_member db member []))))"

subsection \<open>Requests\<close>

definition cleanup_pass :: link_prog where
  "cleanup_pass =
     bind cleanup_expired_device_links (\<lambda>r. Done (case r of Inl _ \<Rightarrow> CleanupFailed | Inr n \<Rightarrow> CleanupDone n))"

datatype link_request =
    Start "8 word list" "8 word list" string string
  | Poll string string
  | Lookup link_caller string
  | Approve link_caller string "8 word list"
  | Deny link_caller string
  | CreateToken caller string "8 word list"
  | RevokeToken caller string
  | UseToken daemon_unauthorized daemon_lookup member_db "string option"
  | Cleanup

fun serve_link :: "link_env \<Rightarrow> link_request \<Rightarrow> link_prog" where
  "serve_link env (Start code_bytes secret_bytes label version) = start_link env code_bytes secret_bytes label version"
| "serve_link env (Poll ip raw) = limit_link_poll env ip (poll_link env raw)"
| "serve_link env (Lookup c raw) = lookup_link env c raw"
| "serve_link env (Approve c raw secret_bytes) = approve_link env c raw secret_bytes"
| "serve_link env (Deny c raw) = deny_link env c raw"
| "serve_link env (CreateToken c label secret_bytes) = create_token_route env c label secret_bytes"
| "serve_link env (RevokeToken c tid) = revoke_token_route c tid"
| "serve_link env (UseToken mode how db authorization) = authenticate_daemon env mode how db authorization"
| "serve_link env Cleanup = cleanup_pass"

definition pass_time :: "nat \<Rightarrow> link_site \<Rightarrow> link_site" where
  "pass_time d s = s\<lparr>ls_clock := ls_clock s + int d\<rparr>"

definition link_run :: "link_env \<Rightarrow> link_request event list \<Rightarrow> link_site \<Rightarrow> (link_site, link_request, link_response) service" where
  "link_run env events s = serve_events (serve_link env) pass_time events s"

definition link_state :: "link_env \<Rightarrow> link_request event list \<Rightarrow> link_site \<Rightarrow> link_site" where
  "link_state env events s = state_after (serve_link env) pass_time events s"

end
