(* ===== verification/DeviceLinkRules.thy ===== *)
theory DeviceLinkRules
  imports DeviceLinkRoutes
begin

text \<open>
  What every statement of the device sign-in keeps, whoever else runs in between: the invariant \<open>link_inv\<close> of
  the tables, the preorder \<open>link_grows\<close> that a handler may rely on, and the guarantee \<open>link_guar\<close> of a statement.
\<close>

lemma status_distinct [simp]:
  "PENDING \<noteq> APPROVED" "PENDING \<noteq> DENIED" "PENDING \<noteq> CONSUMED" "APPROVED \<noteq> PENDING" "APPROVED \<noteq> DENIED"
  "APPROVED \<noteq> CONSUMED" "DENIED \<noteq> PENDING" "DENIED \<noteq> APPROVED" "DENIED \<noteq> CONSUMED" "CONSUMED \<noteq> PENDING"
  "CONSUMED \<noteq> APPROVED" "CONSUMED \<noteq> DENIED"
  by (simp_all add: PENDING_def APPROVED_def DENIED_def CONSUMED_def)

subsection \<open>The invariant\<close>

text \<open>Who made a code, and who approved it with which secret, among the requests \<open>R\<close>.\<close>

definition started_as :: "link_env \<Rightarrow> link_request set \<Rightarrow> string \<Rightarrow> string \<Rightarrow> bool" where
  "started_as env R uh dh \<longleftrightarrow>
     (\<exists>code_bytes secret_bytes label version. Start code_bytes secret_bytes label version \<in> R \<and>
        uh = lv_hash env (snd (generate_user_code code_bytes)) \<and> dh = lv_hash env (generate_secret_hex secret_bytes))"

definition approved_by :: "link_env \<Rightarrow> link_request set \<Rightarrow> string \<Rightarrow> string \<Rightarrow> string \<Rightarrow> bool" where
  "approved_by env R uh m secret \<longleftrightarrow>
     (\<exists>c raw secret_bytes member code. Approve c raw secret_bytes \<in> R \<and>
        org_member (lc_caller c) = Inr member \<and> mb_id member = m \<and>
        origin_is_allowed (lv_redirect_base_url env) (lv_allowed_origins env) (lc_headers c) \<and>
        canonical_user_code raw = Some code \<and> lv_hash env code = uh \<and> secret = generate_secret_hex secret_bytes)"

definition token_of :: "link_site \<Rightarrow> string \<Rightarrow> string \<Rightarrow> string \<Rightarrow> bool" where
  "token_of s tid m h \<longleftrightarrow> (\<exists>t. rows (ls_tokens s) tid = Some t \<and> dt_member t = m \<and> dt_hash t = h)"

definition token_dead :: "link_site \<Rightarrow> string \<Rightarrow> bool" where
  "token_dead s tid \<longleftrightarrow> (\<exists>t. rows (ls_tokens s) tid = Some t \<and> \<not> dt_active t)"

definition link_ok :: "link_env \<Rightarrow> link_request set \<Rightarrow> link_site \<Rightarrow> link_row \<Rightarrow> bool" where
  "link_ok env R s r \<longleftrightarrow>
     started_as env R (lk_user_hash r) (lk_device_hash r) \<and>
     lk_status r \<in> {PENDING, APPROVED, DENIED, CONSUMED} \<and>
     (lk_status r = PENDING \<longrightarrow> lk_token r = None) \<and>
     (lk_member r = None \<longleftrightarrow> lk_token r = None) \<and>
     (lk_handover r \<noteq> None \<longrightarrow> lk_status r = APPROVED \<and> lk_token r \<noteq> None) \<and>
     (\<forall>m tid. lk_member r = Some m \<longrightarrow> lk_token r = Some tid \<longrightarrow>
        (\<exists>secret. token_of s tid m (lv_hash env secret) \<and> approved_by env R (lk_user_hash r) m secret \<and>
           (lk_handover r \<noteq> None \<longrightarrow> lk_handover r = Some secret)))"

definition link_inv :: "link_env \<Rightarrow> link_request set \<Rightarrow> link_site \<Rightarrow> bool" where
  "link_inv env R s \<longleftrightarrow>
     table_ok (ls_links s) \<and> table_ok (ls_tokens s) \<and> inj (ls_ids s) \<and>
     dom (rows (ls_links s)) \<union> dom (rows (ls_tokens s)) \<subseteq> ls_ids s ` {..<ls_next s} \<and>
     (\<forall>k r. rows (ls_links s) k = Some r \<longrightarrow> link_ok env R s r) \<and>
     (\<forall>k k' r r'. rows (ls_links s) k = Some r \<longrightarrow> rows (ls_links s) k' = Some r' \<longrightarrow>
        lk_user_hash r = lk_user_hash r' \<or> lk_device_hash r = lk_device_hash r' \<longrightarrow> k = k')"

lemma link_invD:
  "link_inv env R s \<Longrightarrow> table_ok (ls_links s)"
  "link_inv env R s \<Longrightarrow> table_ok (ls_tokens s)"
  "link_inv env R s \<Longrightarrow> inj (ls_ids s)"
  "link_inv env R s \<Longrightarrow> dom (rows (ls_links s)) \<subseteq> ls_ids s ` {..<ls_next s}"
  "link_inv env R s \<Longrightarrow> dom (rows (ls_tokens s)) \<subseteq> ls_ids s ` {..<ls_next s}"
  "link_inv env R s \<Longrightarrow> rows (ls_links s) k = Some r \<Longrightarrow> link_ok env R s r"
  unfolding link_inv_def by auto

lemma link_unique:
  "link_inv env R s \<Longrightarrow> rows (ls_links s) k = Some r \<Longrightarrow> rows (ls_links s) k' = Some r' \<Longrightarrow>
   lk_user_hash r = lk_user_hash r' \<or> lk_device_hash r = lk_device_hash r' \<Longrightarrow> k = k'"
  unfolding link_inv_def by blast

subsection \<open>How the state grows\<close>

definition link_grows :: "link_site \<Rightarrow> link_site \<Rightarrow> bool" where
  "link_grows s s' \<longleftrightarrow>
     ls_clock s \<le> ls_clock s' \<and>
     (\<forall>tid t. rows (ls_tokens s) tid = Some t \<longrightarrow>
        (\<exists>t'. rows (ls_tokens s') tid = Some t' \<and> dt_member t' = dt_member t \<and> dt_hash t' = dt_hash t \<and>
           (dt_active t' \<longrightarrow> dt_active t))) \<and>
     (\<forall>k r'. rows (ls_links s') k = Some r' \<longrightarrow> lk_expires r' \<le> ls_clock s \<longrightarrow>
        (\<exists>r. rows (ls_links s) k = Some r \<and> lk_expires r = lk_expires r' \<and> lk_token r = lk_token r' \<and>
           lk_member r = lk_member r' \<and> (lk_status r = CONSUMED \<longrightarrow> lk_status r' = CONSUMED)))"

text \<open>The states a link goes through; its codes never change, and neither does its token.\<close>

definition link_edge :: "link_row \<Rightarrow> link_row \<Rightarrow> bool" where
  "link_edge r r' \<longleftrightarrow>
     lk_user_hash r' = lk_user_hash r \<and> lk_device_hash r' = lk_device_hash r \<and> lk_label r' = lk_label r \<and>
     lk_version r' = lk_version r \<and> lk_created r' = lk_created r \<and> lk_expires r' = lk_expires r \<and>
     (lk_token r \<noteq> None \<longrightarrow> lk_token r' = lk_token r \<and> lk_member r' = lk_member r) \<and>
     (lk_status r' = lk_status r \<or>
      (lk_status r, lk_status r') \<in> {(PENDING, APPROVED), (PENDING, DENIED), (APPROVED, DENIED), (APPROVED, CONSUMED)})"

definition link_guar :: "link_site \<Rightarrow> link_site \<Rightarrow> bool" where
  "link_guar s s' \<longleftrightarrow> link_grows s s' \<and>
     (\<forall>k r r'. rows (ls_links s) k = Some r \<longrightarrow> rows (ls_links s') k = Some r' \<longrightarrow> link_edge r r') \<and>
     (\<forall>k r tid. rows (ls_links s) k = Some r \<longrightarrow> rows (ls_links s') k = None \<longrightarrow> lk_token r = Some tid \<longrightarrow>
        lk_status r = CONSUMED \<or> token_dead s' tid)"

lemma grows_refl [simp]: "link_grows s s"
  by (simp add: link_grows_def)

lemma token_grows:
  "link_grows s s' \<Longrightarrow> rows (ls_tokens s) tid = Some t \<Longrightarrow>
   \<exists>t'. rows (ls_tokens s') tid = Some t' \<and> dt_member t' = dt_member t \<and> dt_hash t' = dt_hash t \<and> (dt_active t' \<longrightarrow> dt_active t)"
  by (simp add: link_grows_def)

lemma expired_grows:
  "link_grows s s' \<Longrightarrow> rows (ls_links s') k = Some r' \<Longrightarrow> lk_expires r' \<le> ls_clock s \<Longrightarrow>
   \<exists>r. rows (ls_links s) k = Some r \<and> lk_expires r = lk_expires r' \<and> lk_token r = lk_token r' \<and>
     lk_member r = lk_member r' \<and> (lk_status r = CONSUMED \<longrightarrow> lk_status r' = CONSUMED)"
  by (simp add: link_grows_def)

lemma clock_grows: "link_grows s s' \<Longrightarrow> ls_clock s \<le> ls_clock s'"
  by (simp add: link_grows_def)

lemma grows_trans:
  assumes "link_grows s t" and "link_grows t u"
  shows "link_grows s u"
  unfolding link_grows_def
proof (intro conjI allI impI)
  show "ls_clock s \<le> ls_clock u" by (rule order_trans [OF clock_grows [OF assms(1)] clock_grows [OF assms(2)]])
next
  fix tid x assume "rows (ls_tokens s) tid = Some x"
  from token_grows [OF assms(1) this] token_grows [OF assms(2)]
  show "\<exists>t'. rows (ls_tokens u) tid = Some t' \<and> dt_member t' = dt_member x \<and> dt_hash t' = dt_hash x \<and> (dt_active t' \<longrightarrow> dt_active x)"
    by metis
next
  fix k r'' assume r'': "rows (ls_links u) k = Some r''" "lk_expires r'' \<le> ls_clock s"
  then obtain r' where r': "rows (ls_links t) k = Some r'" "lk_expires r' = lk_expires r''" "lk_token r' = lk_token r''"
    "lk_member r' = lk_member r''" "lk_status r' = CONSUMED \<longrightarrow> lk_status r'' = CONSUMED"
    using expired_grows [OF assms(2)] clock_grows [OF assms(1)] by force
  then show "\<exists>r. rows (ls_links s) k = Some r \<and> lk_expires r = lk_expires r'' \<and> lk_token r = lk_token r'' \<and>
      lk_member r = lk_member r'' \<and> (lk_status r = CONSUMED \<longrightarrow> lk_status r'' = CONSUMED)"
    using expired_grows [OF assms(1) r'(1)] r''(2) by auto
qed

lemma edge_refl [simp]: "link_edge r r"
  by (simp add: link_edge_def)

lemma guar_refl [simp]: "link_guar s s"
  by (simp add: link_guar_def)

lemma guar_grows: "link_guar s s' \<Longrightarrow> link_grows s s'"
  by (simp add: link_guar_def)

lemma token_of_grows: "token_of s tid m h \<Longrightarrow> link_grows s s' \<Longrightarrow> token_of s' tid m h"
  using token_grows unfolding token_of_def by metis

lemma token_dead_grows: "token_dead s tid \<Longrightarrow> link_grows s s' \<Longrightarrow> token_dead s' tid"
  using token_grows unfolding token_dead_def by metis

lemma link_ok_grows: "link_ok env R s r \<Longrightarrow> link_grows s s' \<Longrightarrow> link_ok env R s' r"
  unfolding link_ok_def using token_of_grows [of s _ _ _ s'] by blast

subsection \<open>The statements\<close>

text \<open>A change that touches neither table.\<close>

lemma outside_tables:
  assumes "link_inv env R s" and "ls_links s' = ls_links s" "ls_tokens s' = ls_tokens s" "ls_ids s' = ls_ids s"
    "ls_next s' = ls_next s" "ls_clock s \<le> ls_clock s'"
  shows "link_inv env R s' \<and> link_guar s s'"
proof -
  have grows: "link_grows s s'" using assms by (simp add: link_grows_def)
  then have "link_guar s s'" using assms by (simp add: link_guar_def)
  moreover have "link_ok env R s r \<Longrightarrow> link_ok env R s' r" for r using link_ok_grows grows by blast
  ultimately show ?thesis using assms unfolding link_inv_def by auto
qed

lemma update_links_ok:
  assumes s: "link_inv env R s"
    and f: "\<And>k r. rows (ls_links s) k = Some r \<Longrightarrow> link_ok env R s r \<Longrightarrow> P r \<Longrightarrow> link_ok env R s (f r) \<and> link_edge r (f r) \<and>
      (lk_expires r \<le> ls_clock s \<longrightarrow> lk_token (f r) = lk_token r \<and> lk_member (f r) = lk_member r)"
  shows "link_inv env R (update_links P f s) \<and> link_guar s (update_links P f s)"
proof -
  let ?s = "update_links P f s" and ?g = "\<lambda>r. if P r then f r else r"
  have rows: "rows (ls_links ?s) k = map_option ?g (rows (ls_links s) k)" for k
    by (simp add: update_links_def rows_update_where)
  have g: "link_ok env R s (?g r) \<and> link_edge r (?g r) \<and>
      (lk_expires r \<le> ls_clock s \<longrightarrow> lk_token (?g r) = lk_token r \<and> lk_member (?g r) = lk_member r)"
    if "rows (ls_links s) k = Some r" for k r
    using f [OF that] s that by (auto simp: link_inv_def)
  have final: "lk_status r = CONSUMED \<Longrightarrow> link_edge r r' \<Longrightarrow> lk_status r' = CONSUMED" for r r'
    by (auto simp: link_edge_def)
  have same: "link_edge r r' \<Longrightarrow> lk_expires r' = lk_expires r \<and> lk_user_hash r' = lk_user_hash r \<and>
      lk_device_hash r' = lk_device_hash r" for r r'
    by (simp add: link_edge_def)
  have grows: "link_grows s ?s"
    unfolding link_grows_def
  proof (intro conjI allI impI)
    fix k r' assume "rows (ls_links ?s) k = Some r'" "lk_expires r' \<le> ls_clock s"
    then obtain r where r: "rows (ls_links s) k = Some r" "r' = ?g r" by (auto simp: rows)
    then have "lk_expires r' = lk_expires r" using g [OF r(1)] same by blast
    then show "\<exists>r. rows (ls_links s) k = Some r \<and> lk_expires r = lk_expires r' \<and> lk_token r = lk_token r' \<and>
        lk_member r = lk_member r' \<and> (lk_status r = CONSUMED \<longrightarrow> lk_status r' = CONSUMED)"
      using r(1) g [OF r(1)] final [of r r'] \<open>lk_expires r' \<le> ls_clock s\<close> unfolding r(2) [symmetric] by auto
  qed (simp_all add: update_links_def)
  then have guar: "link_guar s ?s" using g by (auto simp: link_guar_def rows)
  have "link_inv env R ?s"
    unfolding link_inv_def
  proof (intro conjI allI impI)
    show "table_ok (ls_links ?s)" using s by (auto simp: update_links_def link_inv_def)
    show "table_ok (ls_tokens ?s)" "inj (ls_ids ?s)" using s by (simp_all add: update_links_def link_inv_def)
    show "dom (rows (ls_links ?s)) \<union> dom (rows (ls_tokens ?s)) \<subseteq> ls_ids ?s ` {..<ls_next ?s}"
      using s by (auto simp: dom_def rows link_inv_def) (auto simp: update_links_def)
  next
    fix k r' assume "rows (ls_links ?s) k = Some r'"
    then obtain r where r: "rows (ls_links s) k = Some r" "r' = ?g r" by (auto simp: rows)
    then show "link_ok env R ?s r'" using g [OF r(1)] link_ok_grows grows by blast
  next
    fix k k' r r' assume "rows (ls_links ?s) k = Some r" "rows (ls_links ?s) k' = Some r'"
      and eq: "lk_user_hash r = lk_user_hash r' \<or> lk_device_hash r = lk_device_hash r'"
    then obtain q q' where q: "rows (ls_links s) k = Some q" "r = ?g q" "rows (ls_links s) k' = Some q'" "r' = ?g q'"
      by (auto simp: rows)
    then have "lk_user_hash r = lk_user_hash q" "lk_device_hash r = lk_device_hash q"
      "lk_user_hash r' = lk_user_hash q'" "lk_device_hash r' = lk_device_hash q'"
      using g [OF q(1)] g [OF q(3)] same [of q r] same [of q' r'] by simp_all
    then show "k = k'" using s q(1,3) eq unfolding link_inv_def by metis
  qed
  then show ?thesis using guar by blast
qed

lemma link_fresh: "link_inv env R s \<Longrightarrow> rows (ls_links s) (new_row_id s) = None \<and> rows (ls_tokens s) (new_row_id s) = None"
  by (fastforce simp: link_inv_def new_row_id_def dest: inj_image_mem_iff [THEN iffD1])

text \<open>A new row, of either table.\<close>

lemma insert_link_ok:
  assumes s: "link_inv env R s" and new: "started_as env R (lk_user_hash row) (lk_device_hash row)"
    "lk_status row = PENDING" "lk_member row = None" "lk_token row = None" "lk_handover row = None"
    "ls_clock s < lk_expires row"
  shows "link_inv env R (snd (insert_link row s)) \<and> link_guar s (snd (insert_link row s))"
proof (cases "select_links (\<lambda>r. lk_user_hash r = lk_user_hash row \<or> lk_device_hash r = lk_device_hash row) s = []")
  case True
  let ?s = "s\<lparr>ls_links := t_create (new_row_id s) row (ls_links s), ls_next := Suc (ls_next s)\<rparr>"
  have eq: "snd (insert_link row s) = ?s" using True by (simp add: insert_link_def)
  have fresh: "rows (ls_links s) (new_row_id s) = None" using link_fresh [OF s] by blast
  have unique: "lk_user_hash r \<noteq> lk_user_hash row \<and> lk_device_hash r \<noteq> lk_device_hash row"
    if "rows (ls_links s) k = Some r" for k r
  proof -
    let ?P = "\<lambda>r. lk_user_hash r = lk_user_hash row \<or> lk_device_hash r = lk_device_hash row"
    have "set (t_list ?P (ls_links s)) = {}" using True by (simp add: select_links_def)
    then have "(k, r) \<notin> {(k, r). rows (ls_links s) k = Some r \<and> ?P r}"
      using set_t_list [OF link_invD(1) [OF s], of ?P] by (simp only: empty_iff not_False_eq_True)
    then show ?thesis using that by simp
  qed
  have grows: "link_grows s ?s" using new(6) by (auto simp: link_grows_def t_create_def split: if_splits)
  have "link_guar s ?s" using grows fresh by (auto simp: link_guar_def t_create_def)
  moreover have "link_inv env R ?s"
    unfolding link_inv_def
  proof (intro conjI allI impI)
    show "table_ok (ls_links ?s)" using s fresh by (auto simp: link_inv_def)
    show "table_ok (ls_tokens ?s)" "inj (ls_ids ?s)" using s by (simp_all add: link_inv_def)
    show "dom (rows (ls_links ?s)) \<union> dom (rows (ls_tokens ?s)) \<subseteq> ls_ids ?s ` {..<ls_next ?s}"
      using s by (auto simp: t_create_def link_inv_def new_row_id_def lessThan_Suc)
  next
    fix k r assume "rows (ls_links ?s) k = Some r"
    then have "r = row \<or> link_ok env R s r" using s by (auto simp: t_create_def link_inv_def split: if_splits)
    moreover have "link_ok env R ?s row" using new by (simp add: link_ok_def)
    ultimately show "link_ok env R ?s r" using link_ok_grows grows by blast
  next
    fix k k' r r' assume k: "rows (ls_links ?s) k = Some r" "rows (ls_links ?s) k' = Some r'"
      and same: "lk_user_hash r = lk_user_hash r' \<or> lk_device_hash r = lk_device_hash r'"
    show "k = k'"
    proof (cases "k = new_row_id s \<or> k' = new_row_id s")
      case True
      then show ?thesis using k same unique [of k r] unique [of k' r'] by (auto simp: t_create_def split: if_splits)
    next
      case False
      then show ?thesis using k same s unfolding link_inv_def by (simp add: t_create_def) metis
    qed
  qed
  ultimately show ?thesis using eq by simp
qed (use s in \<open>simp add: insert_link_def\<close>)

text \<open>A change of the tokens that keeps their owners and hashes and activates none.\<close>

lemma tokens_ok:
  assumes s: "link_inv env R s" and ok: "table_ok T" and next_id: "ls_next s \<le> n"
    and dom: "dom (rows T) \<subseteq> ls_ids s ` {..<n}"
    and old: "\<And>tid t. rows (ls_tokens s) tid = Some t \<Longrightarrow>
      \<exists>t'. rows T tid = Some t' \<and> dt_member t' = dt_member t \<and> dt_hash t' = dt_hash t \<and> (dt_active t' \<longrightarrow> dt_active t)"
  shows "link_inv env R (s\<lparr>ls_tokens := T, ls_next := n\<rparr>) \<and> link_guar s (s\<lparr>ls_tokens := T, ls_next := n\<rparr>)"
proof -
  let ?s = "s\<lparr>ls_tokens := T, ls_next := n\<rparr>"
  have grows: "link_grows s ?s" using old by (simp add: link_grows_def)
  then have "link_guar s ?s" by (simp add: link_guar_def)
  moreover have "link_ok env R s r \<Longrightarrow> link_ok env R ?s r" for r using link_ok_grows grows by blast
  moreover have "ls_ids s ` {..<ls_next s} \<subseteq> ls_ids s ` {..<n}" using next_id by (intro image_mono) auto
  moreover have "dom (rows (ls_links s)) \<subseteq> ls_ids s ` {..<n}" using link_invD(4) [OF s] calculation(3) by blast
  ultimately show ?thesis using s ok dom unfolding link_inv_def by auto
qed

lemma insert_token_ok:
  assumes s: "link_inv env R s"
  shows "link_inv env R (snd (insert_token row s)) \<and> link_guar s (snd (insert_token row s)) \<and>
    (\<forall>tid t. fst (insert_token row s) = Inr (tid, t) \<longrightarrow>
       t = row \<and> token_of (snd (insert_token row s)) tid (dt_member row) (dt_hash row))"
proof (cases "t_list (\<lambda>t. dt_hash t = dt_hash row) (ls_tokens s) = []")
  case True
  have fresh: "rows (ls_tokens s) (new_row_id s) = None" using link_fresh [OF s] by blast
  have "link_inv env R (s\<lparr>ls_tokens := t_create (new_row_id s) row (ls_tokens s), ls_next := Suc (ls_next s)\<rparr>) \<and>
      link_guar s (s\<lparr>ls_tokens := t_create (new_row_id s) row (ls_tokens s), ls_next := Suc (ls_next s)\<rparr>)"
    by (rule tokens_ok [OF s]) (use s fresh in \<open>auto simp: link_inv_def new_row_id_def t_create_def lessThan_Suc table_ok_def\<close>)
  then show ?thesis using True by (auto simp: insert_token_def token_of_def t_create_def)
qed (use s in \<open>simp add: insert_token_def\<close>)

lemma deactivate_ok:
  assumes s: "link_inv env R s"
  shows "link_inv env R (snd (deactivate tid m s)) \<and> link_guar s (snd (deactivate tid m s))"
    "fst (deactivate tid m s) = Inr () \<Longrightarrow> token_dead (snd (deactivate tid m s)) tid"
    "fst (deactivate tid m s) = Inl e \<Longrightarrow> e = RowNotFound tid \<and> (\<nexists>t. rows (ls_tokens s) tid = Some t \<and> dt_member t = m)"
proof -
  have "link_inv env R (s\<lparr>ls_tokens := t_update tid (t\<lparr>dt_active := False\<rparr>) (ls_tokens s), ls_next := ls_next s\<rparr>) \<and>
      link_guar s (s\<lparr>ls_tokens := t_update tid (t\<lparr>dt_active := False\<rparr>) (ls_tokens s), ls_next := ls_next s\<rparr>)"
    if "rows (ls_tokens s) tid = Some t" for t
    by (rule tokens_ok [OF s]) (use s that in \<open>auto simp: link_inv_def t_update_def table_ok_def\<close>)
  then show "link_inv env R (snd (deactivate tid m s)) \<and> link_guar s (snd (deactivate tid m s))"
    using s by (auto simp: deactivate_def split: option.splits)
  show "fst (deactivate tid m s) = Inr () \<Longrightarrow> token_dead (snd (deactivate tid m s)) tid"
    "fst (deactivate tid m s) = Inl e \<Longrightarrow> e = RowNotFound tid \<and> (\<nexists>t. rows (ls_tokens s) tid = Some t \<and> dt_member t = m)"
    by (auto simp: deactivate_def token_dead_def t_update_def split: option.splits if_splits)
qed

lemma touch_token_ok:
  assumes s: "link_inv env R s"
  shows "link_inv env R (snd (touch_token conflict h s)) \<and> link_guar s (snd (touch_token conflict h s))"
proof -
  let ?T = "t_update_where (\<lambda>t. dt_hash t = h) (\<lambda>t. t\<lparr>dt_last_used := Some (ls_clock s)\<rparr>) (ls_tokens s)"
  have "link_inv env R (s\<lparr>ls_tokens := ?T, ls_next := ls_next s\<rparr>) \<and> link_guar s (s\<lparr>ls_tokens := ?T, ls_next := ls_next s\<rparr>)"
    by (rule tokens_ok [OF s]) (use s in \<open>auto simp: link_inv_def rows_update_where dom_def\<close>)
  then show ?thesis using s by (simp add: touch_token_def)
qed

text \<open>The links.\<close>

lemma mark_approved_ok:
  assumes s: "link_inv env R s" and "token_of s tid m (lv_hash env secret)" and "approved_by env R h m secret"
  shows "link_inv env R (snd (mark_approved h m tid secret s)) \<and> link_guar s (snd (mark_approved h m tid secret s))"
  unfolding mark_approved_def snd_conv
  by (rule update_links_ok [OF s]) (use assms(2,3) in \<open>auto simp: live_pending_def link_ok_def link_edge_def\<close>)

lemma mark_denied_ok:
  assumes s: "link_inv env R s"
  shows "link_inv env R (snd (mark_denied h m s)) \<and> link_guar s (snd (mark_denied h m s))"
  unfolding mark_denied_def snd_conv
  by (rule update_links_ok [OF s]) (auto simp: deniable_def link_ok_def link_edge_def)

lemma touched_ok:
  assumes s: "link_inv env R s"
  shows "link_inv env R (update_links P (\<lambda>r. r\<lparr>lk_last_poll := t\<rparr>) s) \<and> link_guar s (update_links P (\<lambda>r. r\<lparr>lk_last_poll := t\<rparr>) s)"
  by (rule update_links_ok [OF s]) (auto simp: link_ok_def link_edge_def)

lemma cleared_ok:
  assumes s: "link_inv env R s"
  shows "link_inv env R (update_links P (\<lambda>r. r\<lparr>lk_handover := None\<rparr>) s) \<and> link_guar s (update_links P (\<lambda>r. r\<lparr>lk_handover := None\<rparr>) s)"
  by (rule update_links_ok [OF s]) (auto simp: link_ok_def link_edge_def)

lemma claim_link_ok:
  assumes s: "link_inv env R s"
  shows "link_inv env R (snd (claim_link h now s)) \<and> link_guar s (snd (claim_link h now s))"
  unfolding claim_link_def snd_conv
  by (rule update_links_ok [OF s]) (auto simp: pollable_def link_ok_def link_edge_def)

text \<open>What a device is handed: the secret of the member who approved its code, whose token it opens.\<close>

definition handed :: "link_env \<Rightarrow> link_request set \<Rightarrow> string \<Rightarrow> string \<Rightarrow> link_site \<Rightarrow> bool" where
  "handed env R dh secret s \<longleftrightarrow>
     (\<exists>uh m tid. started_as env R uh dh \<and> approved_by env R uh m secret \<and> token_of s tid m (lv_hash env secret))"

lemma handed_grows: "handed env R dh secret s \<Longrightarrow> link_grows s s' \<Longrightarrow> handed env R dh secret s'"
  using token_of_grows unfolding handed_def by blast

lemma claim_hands:
  assumes s: "link_inv env R s" and "fst (claim_link h now s) = Inr (ConsumedToken secret)"
  shows "handed env R h secret s"
proof -
  obtain r rs where hd: "select_links (pollable h APPROVED now) s = r # rs" "lk_handover r = Some secret"
    using assms(2) by (auto simp: claim_link_def split: list.splits option.splits if_splits)
  then have "r \<in> snd ` set (t_list (pollable h APPROVED now) (ls_links s))"
    unfolding select_links_def by (metis list.set_intros(1) set_map)
  then obtain k where k: "rows (ls_links s) k = Some r" "pollable h APPROVED now r"
    using set_t_list [of "ls_links s"] s by (auto simp: link_inv_def)
  then have "link_ok env R s r" using s by (simp add: link_inv_def)
  then obtain m tid where "started_as env R (lk_user_hash r) h" "approved_by env R (lk_user_hash r) m secret"
    "token_of s tid m (lv_hash env secret)"
    using hd(2) k(2) unfolding link_ok_def pollable_def by auto
  then show ?thesis unfolding handed_def by blast
qed

text \<open>The links past the cutoff that a cleanup still has to see to.\<close>

definition left_over :: "instant \<Rightarrow> (string option \<times> string option) list \<Rightarrow> link_site \<Rightarrow> bool" where
  "left_over cutoff ps s \<longleftrightarrow>
     (\<forall>k r tid. rows (ls_links s) k = Some r \<longrightarrow> lk_expires r \<le> cutoff \<longrightarrow> lk_token r = Some tid \<longrightarrow>
        lk_status r = CONSUMED \<or> token_dead s tid \<or> (lk_member r, Some tid) \<in> set ps)"

lemma left_over_grows:
  assumes "left_over cutoff ps s" and "link_grows s s'" and "cutoff \<le> ls_clock s"
  shows "left_over cutoff ps s'"
  unfolding left_over_def
proof (intro allI impI)
  fix k r' tid
  assume r': "rows (ls_links s') k = Some r'" "lk_expires r' \<le> cutoff" "lk_token r' = Some tid"
  obtain r where "rows (ls_links s) k = Some r" "lk_expires r = lk_expires r'" "lk_token r = lk_token r'"
    "lk_member r = lk_member r'" "lk_status r = CONSUMED \<longrightarrow> lk_status r' = CONSUMED"
    using expired_grows [OF assms(2) r'(1)] r'(2) assms(3) by auto
  then show "lk_status r' = CONSUMED \<or> token_dead s' tid \<or> (lk_member r', Some tid) \<in> set ps"
    using assms(1) r' token_dead_grows [OF _ assms(2), of tid] unfolding left_over_def by metis
qed

lemma select_left_over:
  assumes s: "link_inv env R s"
  shows "left_over cutoff (map (\<lambda>r. (lk_member r, lk_token r)) (select_links (uncollected cutoff) s)) s"
  unfolding left_over_def
proof (intro allI impI)
  fix k r tid
  assume r: "rows (ls_links s) k = Some r" "lk_expires r \<le> cutoff" "lk_token r = Some tid"
  then have ok: "link_ok env R s r" using s by (simp add: link_inv_def)
  show "lk_status r = CONSUMED \<or> token_dead s tid \<or>
      (lk_member r, Some tid) \<in> set (map (\<lambda>r. (lk_member r, lk_token r)) (select_links (uncollected cutoff) s))"
  proof (cases "lk_status r = CONSUMED")
    case False
    then have "uncollected cutoff r" using ok r by (auto simp: uncollected_def link_ok_def)
    then have "(k, r) \<in> set (t_list (uncollected cutoff) (ls_links s))"
      using r(1) s set_t_list [of "ls_links s"] by (simp add: link_inv_def)
    then have "r \<in> set (select_links (uncollected cutoff) s)" unfolding select_links_def by force
    then show ?thesis using r(3) by force
  qed simp
qed

lemma delete_links_ok:
  assumes s: "link_inv env R s" and "left_over cutoff [] s"
  shows "link_inv env R (s\<lparr>ls_links := t_delete_where (\<lambda>r. lk_expires r \<le> cutoff) (ls_links s)\<rparr>) \<and>
    link_guar s (s\<lparr>ls_links := t_delete_where (\<lambda>r. lk_expires r \<le> cutoff) (ls_links s)\<rparr>)"
proof -
  let ?s = "s\<lparr>ls_links := t_delete_where (\<lambda>r. lk_expires r \<le> cutoff) (ls_links s)\<rparr>"
  have rows: "rows (ls_links ?s) k = Some r \<longleftrightarrow> rows (ls_links s) k = Some r \<and> \<not> lk_expires r \<le> cutoff" for k r
    by (auto split: option.splits)
  have gone: "rows (ls_links ?s) k = None \<longleftrightarrow> (\<forall>r. rows (ls_links s) k = Some r \<longrightarrow> lk_expires r \<le> cutoff)" for k
    by (auto split: option.splits)
  have grows: "link_grows s ?s" unfolding link_grows_def rows by simp
  moreover have "link_guar s ?s"
    unfolding link_guar_def rows gone
  proof (intro conjI allI impI)
    fix k r tid
    assume "rows (ls_links s) k = Some r" "\<forall>r. rows (ls_links s) k = Some r \<longrightarrow> lk_expires r \<le> cutoff" "lk_token r = Some tid"
    then have "lk_status r = CONSUMED \<or> token_dead s tid" using assms(2) unfolding left_over_def by simp
    then show "lk_status r = CONSUMED \<or> token_dead ?s tid" using token_dead_grows grows by blast
  qed (use grows in auto)
  moreover have "link_inv env R ?s"
    unfolding link_inv_def
  proof (intro conjI allI impI)
    show "table_ok (ls_links ?s)" using link_invD(1) [OF s] by auto
    show "table_ok (ls_tokens ?s)" "inj (ls_ids ?s)" using link_invD(2,3) [OF s] by simp_all
    have "dom (rows (ls_links ?s)) \<subseteq> dom (rows (ls_links s))" using rows unfolding dom_def by blast
    then show "dom (rows (ls_links ?s)) \<union> dom (rows (ls_tokens ?s)) \<subseteq> ls_ids ?s ` {..<ls_next ?s}"
      using link_invD(4,5) [OF s] by simp
  next
    fix k r assume "rows (ls_links ?s) k = Some r"
    then have "link_ok env R s r" using link_invD(6) [OF s] rows by blast
    then show "link_ok env R ?s r" using link_ok_grows grows by blast
  next
    fix k k' r r'
    assume "rows (ls_links ?s) k = Some r" "rows (ls_links ?s) k' = Some r'"
      "lk_user_hash r = lk_user_hash r' \<or> lk_device_hash r = lk_device_hash r'"
    then show "k = k'" using link_unique [OF s, of k r k' r'] rows by blast
  qed
  ultimately show ?thesis by blast
qed

end
