(* ===== verification/DeviceLinkSafety.thy ===== *)
theory DeviceLinkSafety
  imports DeviceLinkRules
begin

text \<open>
  Every handler of the device sign-in keeps the rules of \<open>DeviceLinkRules\<close>, in any interleaving and with any
  statement failing; what follows for the secrets.
\<close>

abbreviation link_assured where
  "link_assured env R \<equiv> assured (link_inv env R) link_grows link_guar"

abbreviation link_sure where
  "link_sure env R \<equiv> always_assured (link_inv env R) link_grows link_guar"

definition token_opens :: "link_env \<Rightarrow> member_db \<Rightarrow> string option \<Rightarrow> string \<Rightarrow> string \<Rightarrow> link_site \<Rightarrow> bool" where
  "token_opens env db authorization m tid s \<longleftrightarrow>
     (\<exists>raw key owner member. Option.bind (header_text authorization) strip_bearer = Some raw \<and>
        token_of s key owner (lv_hash env raw) \<and> tid \<in> {key, []} \<and>
        md_member db owner = Inr (Some member) \<and> mb_is_active member \<and> md_suspended db (mb_id member) = Inr False \<and>
        m = mb_id member)"

definition link_post :: "link_env \<Rightarrow> link_request set \<Rightarrow> link_request \<Rightarrow> link_response \<Rightarrow> link_site \<Rightarrow> bool" where
  "link_post env R req resp s =
     (case req of
        Poll ip raw \<Rightarrow>
          (case resp of
             LinkPolled _ (Some secret) \<Rightarrow>
               (\<exists>device_code. canonical_device_code raw = Some device_code \<and> handed env R (lv_hash env device_code) secret s)
           | _ \<Rightarrow> True)
      | UseToken mode how db authorization \<Rightarrow>
          (case resp of DaemonAccepted m tid \<Rightarrow> token_opens env db authorization m tid s | _ \<Rightarrow> True)
      | _ \<Rightarrow> True)"

lemma token_opensI:
  "Option.bind (header_text authorization) strip_bearer = Some raw \<Longrightarrow> token_of s key owner (lv_hash env raw) \<Longrightarrow>
   md_member db owner = Inr (Some member) \<Longrightarrow> mb_is_active member \<Longrightarrow> md_suspended db (mb_id member) = Inr False \<Longrightarrow>
   tid = key \<or> tid = [] \<Longrightarrow> token_opens env db authorization (mb_id member) tid s"
  unfolding token_opens_def by blast

lemma read_only_opensI:
  "Option.bind (header_text authorization) strip_bearer = Some raw \<Longrightarrow> token_of s key owner (lv_hash env raw) \<Longrightarrow>
   md_member db owner = Inr (Some member) \<Longrightarrow> mb_is_active member \<Longrightarrow> md_suspended db (mb_id member) = Inr False \<Longrightarrow>
   token_opens env db authorization (mb_id member) [] s"
  unfolding token_opens_def by blast

lemma post_use:
  "\<forall>m tid. a = DaemonAccepted m tid \<longrightarrow> token_opens env db authorization m tid s \<Longrightarrow>
   link_post env R (UseToken mode how db authorization) a s"
  by (cases a) (simp_all add: link_post_def)

lemma post_grows: "link_post env R r a s \<Longrightarrow> link_grows s s' \<Longrightarrow> link_post env R r a s'"
  using handed_grows [of env R] token_of_grows [of s]
  unfolding link_post_def token_opens_def
  by (auto split: link_request.splits link_response.splits option.splits) blast+

subsection \<open>Statements that promise nothing\<close>

lemma statement_sure:
  "(\<And>s. link_inv env R s \<Longrightarrow> link_inv env R (snd (f s)) \<and> link_guar s (snd (f s)) \<and> Q (fst (f s)) (snd (f s))) \<Longrightarrow>
   (\<And>s. Q (Inl DriverError) s) \<Longrightarrow> link_sure env R Q (statement f)"
  unfolding statement_def by (rule always_query)

lemma memory_sure:
  assumes "\<And>s. ls_links (snd (f s)) = ls_links s \<and> ls_tokens (snd (f s)) = ls_tokens s \<and> ls_ids (snd (f s)) = ls_ids s \<and>
    ls_next (snd (f s)) = ls_next s \<and> ls_clock (snd (f s)) = ls_clock s"
  shows "link_sure env R (\<lambda>_ _. True) (memory f)"
proof (rule always_memory)
  fix s assume "link_inv env R s"
  from outside_tables [OF this, of "snd (f s)"] assms [of s]
  show "link_inv env R (snd (f s)) \<and> link_guar s (snd (f s)) \<and> True" by simp
qed

lemma read_clock_sure: "link_sure env R (\<lambda>_ _. True) read_clock"
  unfolding read_clock_def by (rule memory_sure) simp

lemma note_invalid_sure: "(\<And>s. Q invalid_code s) \<Longrightarrow> link_sure env R Q (note_invalid env ip)"
  unfolding note_invalid_def by (intro always_bind always_Done memory_sure) simp_all

lemma audit_sure: "link_sure env R (\<lambda>_ _. True) (audit_link actor action tt target details)"
  unfolding audit_link_def
proof (intro always_bind always_Done always_query)
  fix s :: link_site
  assume s: "link_inv env R s"
  have "link_inv env R (s\<lparr>audit_log := l\<rparr>) \<and> link_guar s (s\<lparr>audit_log := l\<rparr>)" for l
    by (rule outside_tables [OF s]) simp_all
  then show "link_inv env R (snd (audit actor action tt target details s)) \<and>
      link_guar s (snd (audit actor action tt target details s)) \<and> True"
    by (simp add: audit_def)
qed simp_all

lemma create_token_sure:
  "link_sure env R (\<lambda>r s. case r of Inr (tid, t) \<Rightarrow> token_of s tid m (hash raw) | Inl _ \<Rightarrow> True) (create_daemon_token hash m raw label)"
proof -
  let ?Q = "\<lambda>(r :: link_db_error + string \<times> token_row) s. case r of Inr (tid, t) \<Rightarrow> token_of s tid m (hash raw) | Inl _ \<Rightarrow> True"
  have "link_sure env R ?Q (statement (insert_token row))" if "dt_member row = m" "dt_hash row = hash raw" for row
    by (rule statement_sure) (use insert_token_ok [of env R _ row] that in \<open>auto split: sum.split\<close>)
  then show ?thesis
    unfolding create_daemon_token_def by (intro always_bind read_clock_sure) simp
qed

lemma revoke_sure: "link_sure env R (\<lambda>_ _. True) (revoke_daemon_token tid m)"
  unfolding revoke_daemon_token_def by (rule statement_sure) (use deactivate_ok(1) in auto)

lemma sure_mid:
  assumes "link_sure env R Q p" and "\<And>a s. Q a s \<Longrightarrow> link_assured env R Q' (k a) s"
  shows "link_sure env R Q' (bind p k)"
  unfolding always_assured_def
proof
  fix s
  show "link_assured env R Q' (bind p k) s"
    by (rule assured_bind [where mid = Q, OF always_assuredD [OF assms(1)] assms(2)])
qed

lemma sure_weaken:
  assumes "link_sure env R Q p" and "\<And>a s. Q a s \<Longrightarrow> Q' a s"
  shows "link_sure env R Q' p"
  using sure_mid [OF assms(1), of Q' Done] assms(2) by simp

lemma try_mid:
  assumes "link_sure env R Q p" and "\<And>e s. Q' (Inl e) s" and "\<And>a s. Q (Inr a) s \<Longrightarrow> link_assured env R Q' (k a) s"
  shows "link_sure env R Q' (try_bind p k)"
  unfolding try_bind_def by (rule sure_mid [OF assms(1)]) (use assms(2,3) in \<open>auto split: sum.split\<close>)

text \<open>The same from a given state, for programs that know something.\<close>

lemma statement_at:
  assumes "\<And>t. link_inv env R t \<Longrightarrow> link_grows s t \<Longrightarrow>
      link_inv env R (snd (f t)) \<and> link_guar t (snd (f t)) \<and> Q (fst (f t)) (snd (f t))"
    and "\<And>t. link_grows s t \<Longrightarrow> Q (Inl DriverError) t" and "\<And>t. link_grows s (snd (f t)) \<Longrightarrow> Q (Inl DriverError) (snd (f t))"
  shows "link_assured env R Q (statement f) s"
  unfolding statement_def query_def using assms guar_grows grows_trans by simp

lemma try_at:
  assumes "link_assured env R Q p s" and "\<And>e s. Q' (Inl e) s" and "\<And>a s. Q (Inr a) s \<Longrightarrow> link_assured env R Q' (k a) s"
  shows "link_assured env R Q' (try_bind p k) s"
  unfolding try_bind_def by (rule assured_bind [OF assms(1)]) (use assms(2,3) in \<open>auto split: sum.split\<close>)

text \<open>A statement between two points where the same stable fact is known.\<close>

lemma try_keep:
  assumes stable: "\<And>s t. L s \<Longrightarrow> link_grows s t \<Longrightarrow> L t" and "L s"
    and ok: "\<And>t. link_inv env R t \<Longrightarrow> L t \<Longrightarrow> link_inv env R (snd (f t)) \<and> link_guar t (snd (f t))"
    and "\<And>e t. Q (Inl e) t" and "\<And>a t. L t \<Longrightarrow> link_assured env R Q (k a) t"
  shows "link_assured env R Q (try_bind (statement f) k) s"
proof (rule try_at [where Q = "\<lambda>_. L"])
  show "link_assured env R (\<lambda>_. L) (statement f) s"
  proof (rule statement_at)
    fix t assume "link_inv env R t" "link_grows s t"
    then show "link_inv env R (snd (f t)) \<and> link_guar t (snd (f t)) \<and> L (snd (f t))"
      using ok [of t] stable [OF assms(2)] stable [of t] guar_grows by blast
  qed (use stable [OF assms(2)] in blast)+
qed (use assms(4,5) in auto)

subsection \<open>The queries\<close>

lemma lookup_sure: "link_sure env R (\<lambda>_ _. True) (lookup_device_link hash code)"
  unfolding lookup_device_link_def by (rule statement_sure) auto

lemma validate_sure:
  "link_sure env R (\<lambda>r s. case r of Inr (ActiveToken m tid) \<Rightarrow> token_of s tid m (hash raw) | _ \<Rightarrow> True)
     (validate_daemon_token hash conflict raw)"
proof -
  let ?Q = "\<lambda>(r :: link_db_error + token_auth) s. case r of Inr (ActiveToken m tid) \<Rightarrow> token_of s tid m (hash raw) | _ \<Rightarrow> True"
  let ?mid = "\<lambda>(r :: link_db_error + (string \<times> token_row) list) s. case r of Inl _ \<Rightarrow> True | Inr ts \<Rightarrow>
     \<forall>tid t. (tid, t) \<in> set ts \<longrightarrow> token_of s tid (dt_member t) (hash raw)"
  show ?thesis
    unfolding validate_daemon_token_def
  proof (rule try_mid [where Q = ?mid])
    show "link_sure env R ?mid (statement (\<lambda>s. (Inr (t_list (\<lambda>t. dt_hash t = hash raw \<and> dt_active t) (ls_tokens s)), s)))"
      by (rule statement_sure) (auto simp: set_t_list link_invD(2) token_of_def)
  next
    fix ts s
    assume "?mid (Inr ts) s"
    then have known: "(tid, t) \<in> set ts \<Longrightarrow> token_of s tid (dt_member t) (hash raw)" for tid t by simp
    have touch: "link_assured env R ?Q (try_bind (statement (touch_token conflict (hash raw)))
        (\<lambda>_. Done (Inr (ActiveToken m tid)))) t" if "token_of t tid m (hash raw)" for m tid t
    proof (rule try_at)
      show "link_assured env R (\<lambda>_ t. token_of t tid m (hash raw)) (statement (touch_token conflict (hash raw))) t"
        using touch_token_ok [of env R] that token_of_grows guar_grows by (intro statement_at) blast+
    qed simp_all
    show "link_assured env R ?Q (case ts of [] \<Rightarrow> Done (Inr MissingToken)
        | (tid, t) # _ \<Rightarrow>
            bind read_clock (\<lambda>now.
              if expiry_elapsed (dt_expires t) now then Done (Inr ExpiredToken)
              else try_bind (statement (touch_token conflict (hash raw))) (\<lambda>_. Done (Inr (ActiveToken (dt_member t) tid))))) s"
    proof (cases ts)
      case (Cons p ps)
      obtain tid t where p: "p = (tid, t)" by force
      have later: "token_of u tid (dt_member t) (hash raw)" if "link_grows s u" for u
        using known [of tid t] token_of_grows [OF _ that] Cons p by simp
      show ?thesis using touch [OF later] by (simp add: Cons p read_clock_def bind_memory)
    qed simp
  qed simp
qed

lemma lookup_token_sure:
  "link_sure env R (\<lambda>r s. case r of Inr (Some m) \<Rightarrow> \<exists>tid. token_of s tid m (hash raw) | _ \<Rightarrow> True)
     (lookup_daemon_token hash raw)"
  unfolding lookup_daemon_token_def
proof (rule statement_sure)
  fix s assume s: "link_inv env R s"
  let ?P = "\<lambda>t. dt_hash t = hash raw \<and> dt_active t \<and> \<not> expiry_elapsed (dt_expires t) (ls_clock s)"
  have "token_of s tid (dt_member t) (hash raw)" if "t_list ?P (ls_tokens s) = (tid, t) # ts" for tid t ts
    using that set_t_list [OF link_invD(2) [OF s], of ?P] by (auto simp: token_of_def)
  then show "link_inv env R (snd (Inr (case t_list ?P (ls_tokens s) of [] \<Rightarrow> None | (_, t) # _ \<Rightarrow> Some (dt_member t)), s)) \<and>
      link_guar s (snd (Inr (case t_list ?P (ls_tokens s) of [] \<Rightarrow> None | (_, t) # _ \<Rightarrow> Some (dt_member t)), s)) \<and>
      (case fst (Inr (case t_list ?P (ls_tokens s) of [] \<Rightarrow> None | (_, t) # _ \<Rightarrow> Some (dt_member t)), s) of
         Inr (Some m) \<Rightarrow> \<exists>tid. token_of (snd (Inr (case t_list ?P (ls_tokens s) of [] \<Rightarrow> None | (_, t) # _ \<Rightarrow> Some (dt_member t)), s)) tid m (hash raw)
       | _ \<Rightarrow> True)"
    using s by (auto split: list.split)
qed simp

lemma deny_sure: "link_sure env R (\<lambda>_ _. True) (deny_device_link hash code m)"
  unfolding deny_device_link_def
  by (intro always_try statement_sure)
    (auto simp: select_deniable_def mark_denied_ok intro!: always_try statement_sure revoke_sure always_Done split: option.split)

lemma poll_tries_sure:
  "link_sure env R (\<lambda>r s. \<forall>secret. r = Inr (PollApproved secret) \<longrightarrow> handed env R h secret s) (poll_tries n h now)"
proof (induction n)
  case 0
  show ?case by (simp add: always_Done)
next
  case (Suc n)
  have touch: "link_sure env R (\<lambda>_ _. True) (touch_poll h status now)" for status
    unfolding touch_poll_def by (rule statement_sure) (use touched_ok in auto)
  have claim: "link_sure env R (\<lambda>r s. \<forall>secret. r = Inr (ConsumedToken secret) \<longrightarrow> handed env R h secret s) (consume_approved h now)"
    unfolding consume_approved_def
  proof (rule statement_sure)
    fix s assume s: "link_inv env R s"
    have "handed env R h secret (snd (claim_link h now s))" if "fst (claim_link h now s) = Inr (ConsumedToken secret)" for secret
      using claim_hands [OF s that] handed_grows guar_grows claim_link_ok [OF s] by blast
    then show "link_inv env R (snd (claim_link h now s)) \<and> link_guar s (snd (claim_link h now s)) \<and>
        (\<forall>secret. fst (claim_link h now s) = Inr (ConsumedToken secret) \<longrightarrow> handed env R h secret (snd (claim_link h now s)))"
      using claim_link_ok [OF s] by blast
  qed simp
  have after: "link_assured env R (\<lambda>r s. \<forall>secret. r = Inr (PollApproved secret) \<longrightarrow> handed env R h secret s)
      (case c of ConsumedToken token \<Rightarrow> Done (Inr (PollApproved token))
       | ConsumedEmpty \<Rightarrow> Done (Inr PollExpired) | ConsumedLost \<Rightarrow> poll_tries n h now) s"
    if "\<forall>secret. Inr c = (Inr (ConsumedToken secret) :: link_db_error + consumed) \<longrightarrow> handed env R h secret s" for c s
    using that always_assuredD [OF Suc.IH] by (cases c) auto
  have load: "link_sure env R (\<lambda>_ _. True) (load_by_device_hash h)"
    unfolding load_by_device_hash_def by (rule statement_sure) auto
  have "link_sure env R (\<lambda>r s. \<forall>secret. r = Inr (PollApproved secret) \<longrightarrow> handed env R h secret s)
      (try_bind (consume_approved h now) (\<lambda>c. case c of ConsumedToken token \<Rightarrow> Done (Inr (PollApproved token))
       | ConsumedEmpty \<Rightarrow> Done (Inr PollExpired) | ConsumedLost \<Rightarrow> poll_tries n h now))"
    by (rule try_mid [OF claim]) (use after in auto)
  then show ?case
    using Suc.IH by (auto intro!: always_try load touch always_Done split: option.split)
qed

lemma revoke_uncollected_assured:
  assumes "left_over cutoff ps s" and "cutoff \<le> ls_clock s"
  shows "link_assured env R (\<lambda>r t. \<forall>u. r = Inr u \<longrightarrow> left_over cutoff [] t \<and> cutoff \<le> ls_clock t) (revoke_uncollected ps) s"
  using assms
proof (induction ps arbitrary: s)
  case (Cons p ps)
  obtain m tid where p: "p = (m, tid)" by force
  show ?case
  proof (cases "m = None \<or> tid = None")
    case False
    then obtain m' tid' where p: "p = (Some m', Some tid')" using p by auto
    have step: "left_over cutoff ps (snd (deactivate tid' m' t)) \<and> cutoff \<le> ls_clock (snd (deactivate tid' m' t))"
      if t: "link_inv env R t" "link_grows s t" for t
    proof -
      let ?t = "snd (deactivate tid' m' t)"
      have all: "left_over cutoff (p # ps) t" "cutoff \<le> ls_clock t"
        using left_over_grows [OF Cons.prems(1) t(2) Cons.prems(2)] Cons.prems(2) clock_grows [OF t(2)] by auto
      have guar: "link_grows t ?t" using deactivate_ok(1) [OF t(1)] guar_grows by blast
      have "left_over cutoff ps ?t"
        unfolding left_over_def
      proof (intro allI impI)
        fix k r id
        assume r: "rows (ls_links ?t) k = Some r" "lk_expires r \<le> cutoff" "lk_token r = Some id"
        have rt: "rows (ls_links t) k = Some r" using r(1) by (auto simp: deactivate_def split: option.splits if_splits)
        have "lk_status r = CONSUMED \<or> token_dead t id \<or> (lk_member r, Some id) \<in> set (p # ps)"
          using all(1) rt r(2,3) unfolding left_over_def by blast
        then consider "lk_status r = CONSUMED \<or> token_dead t id \<or> (lk_member r, Some id) \<in> set ps"
          | "lk_member r = Some m'" "id = tid'" by (auto simp: p)
        then show "lk_status r = CONSUMED \<or> token_dead ?t id \<or> (lk_member r, Some id) \<in> set ps"
        proof cases
          case 1
          then show ?thesis using token_dead_grows [OF _ guar] by blast
        next
          case 2
          have "link_ok env R t r" using link_invD(6) [OF t(1) rt] .
          then obtain h where "token_of t tid' m' h" using 2 r(3) unfolding link_ok_def by blast
          then have "fst (deactivate tid' m' t) = Inr ()" by (auto simp: deactivate_def token_of_def)
          then show ?thesis using deactivate_ok(2) [OF t(1)] 2 by blast
        qed
      qed
      then show ?thesis using all(2) clock_grows [OF guar] by auto
    qed
    let ?Q = "\<lambda>(r :: link_db_error + unit) t. r = Inl DriverError \<or> left_over cutoff ps t \<and> cutoff \<le> ls_clock t"
    have "link_assured env R ?Q (revoke_daemon_token tid' m') s"
      unfolding revoke_daemon_token_def by (rule statement_at) (use step deactivate_ok(1) in blast)+
    then show ?thesis
      unfolding p revoke_uncollected.simps prod.case option.case
      by (rule assured_bind) (use Cons.IH in \<open>auto split: sum.split link_db_error.split\<close>)
  qed (auto simp: p split: option.split)
qed simp

lemma cleanup_before_assured:
  assumes "cutoff \<le> ls_clock s"
  shows "link_assured env R (\<lambda>_ _. True) (cleanup_before cutoff) s"
  unfolding cleanup_before_def
proof (rule try_at)
  let ?left = "\<lambda>ps t. left_over cutoff ps t \<and> cutoff \<le> ls_clock t"
  have later: "?left ps t \<Longrightarrow> link_grows t u \<Longrightarrow> ?left ps u" for ps t u
    using left_over_grows [of cutoff ps t u] clock_grows [of t u] by auto
  show "link_assured env R (\<lambda>r t. \<forall>ps. r = Inr ps \<longrightarrow> ?left ps t) (statement (select_uncollected cutoff)) s"
    by (rule statement_at) (use assms clock_grows select_left_over in \<open>fastforce simp: select_uncollected_def\<close>)+
  let ?clear = "\<lambda>s. (Inr () :: link_db_error + unit, update_links (\<lambda>r. lk_expires r \<le> cutoff) (\<lambda>r. r\<lparr>lk_handover := None\<rparr>) s)"
  let ?count = "\<lambda>s. (Inr (length (select_links (\<lambda>r. lk_expires r \<le> cutoff) s)) :: link_db_error + nat, s)"
  let ?delete = "\<lambda>s. (Inr () :: link_db_error + unit, s\<lparr>ls_links := t_delete_where (\<lambda>r. lk_expires r \<le> cutoff) (ls_links s)\<rparr>)"
  let ?tail = "\<lambda>count. if count = 0 then Done (Inr 0) else try_bind (statement ?delete) (\<lambda>_. Done (Inr count))"
  note keep = try_keep [where L = "?left []", OF later]
  have delete: "link_assured env R (\<lambda>_ _. True) (?tail count) t" if "?left [] t" for count t
  proof (cases "count = 0")
    case False
    have "link_assured env R (\<lambda>_ _. True) (try_bind (statement ?delete) (\<lambda>_. Done (Inr count))) t"
      by (rule keep [OF _ _ that]) (use delete_links_ok in auto)
    then show ?thesis using False by simp
  qed simp
  have count: "link_assured env R (\<lambda>_ _. True) (try_bind (statement ?count) ?tail) t" if "?left [] t" for t
    by (rule keep [OF _ _ that _ _ delete]) auto
  have clear: "link_assured env R (\<lambda>_ _. True) (try_bind (statement ?clear) (\<lambda>_. try_bind (statement ?count) ?tail)) t"
    if "?left [] t" for t
    by (rule keep [OF _ _ that _ _ count]) (use cleared_ok [of env R] in auto)
  fix found t
  assume found: "\<forall>ps. Inr found = (Inr ps :: link_db_error + (string option \<times> string option) list) \<longrightarrow> ?left ps t"
  then have left: "?left found t" by simp
  show "link_assured env R (\<lambda>_ _. True) (try_bind (revoke_uncollected found)
      (\<lambda>_. try_bind (statement ?clear) (\<lambda>_. try_bind (statement ?count) ?tail))) t"
    by (rule try_at [OF revoke_uncollected_assured [where cutoff = cutoff]]) (use left clear in blast)+
qed simp

lemma cleanup_sure: "link_sure env R (\<lambda>_ _. True) cleanup_expired_device_links"
  unfolding cleanup_expired_device_links_def read_clock_def bind_memory always_assured_def
proof
  fix s
  show "link_assured env R (\<lambda>_ _. True) (Memory (\<lambda>s. snd (ls_clock s, s)) (\<lambda>s. cleanup_before (fst (ls_clock s, s)))) s"
    by (simp add: cleanup_before_assured)
qed

subsection \<open>The handlers\<close>

lemma with_user_code_sure:
  assumes "\<And>member code. org_member (lc_caller c) = Inr member \<Longrightarrow> canonical_user_code raw = Some code \<Longrightarrow>
      origin_is_allowed (lv_redirect_base_url env) (lv_allowed_origins env) (lc_headers c) \<Longrightarrow>
      link_sure env R (\<lambda>_ _. True) (handler member code)"
  shows "link_sure env R (\<lambda>_ _. True) (with_user_code env c raw handler)"
  using assms unfolding with_user_code_def
  by (auto intro!: always_bind memory_sure always_Done note_invalid_sure split: sum.split option.split)

lemma start_sure:
  assumes "Start code_bytes secret_bytes label version \<in> R"
  shows "link_sure env R (\<lambda>_ _. True) (start_link env code_bytes secret_bytes label version)"
proof -
  have "link_sure env R (\<lambda>_ _. True) (insert_device_link (lv_hash env) (snd (generate_user_code code_bytes))
      (generate_secret_hex secret_bytes) l v)" for l v
    unfolding insert_device_link_def
  proof (rule statement_sure)
    fix s assume s: "link_inv env R s"
    have "started_as env R (lv_hash env (snd (generate_user_code code_bytes))) (lv_hash env (generate_secret_hex secret_bytes))"
      using assms unfolding started_as_def by blast
    then show "link_inv env R (snd (insert_link \<lparr>lk_user_hash = lv_hash env (snd (generate_user_code code_bytes)),
        lk_device_hash = lv_hash env (generate_secret_hex secret_bytes), lk_label = l, lk_version = v, lk_status = PENDING,
        lk_member = None, lk_token = None, lk_handover = None, lk_created = ls_clock s,
        lk_expires = ls_clock s + int (from_secs device_link_ttl_secs), lk_last_poll = None\<rparr> s)) \<and>
      link_guar s (snd (insert_link \<lparr>lk_user_hash = lv_hash env (snd (generate_user_code code_bytes)),
        lk_device_hash = lv_hash env (generate_secret_hex secret_bytes), lk_label = l, lk_version = v, lk_status = PENDING,
        lk_member = None, lk_token = None, lk_handover = None, lk_created = ls_clock s,
        lk_expires = ls_clock s + int (from_secs device_link_ttl_secs), lk_last_poll = None\<rparr> s)) \<and> True"
      using insert_link_ok [OF s] by (simp add: device_link_ttl_secs_def from_secs_def)
  qed simp
  then show ?thesis
    unfolding start_link_def Let_def by (auto intro!: always_bind always_Done split: sum.split prod.split)
qed

lemma approve_tail_assured:
  assumes "token_of s tid m (lv_hash env secret)" and "approved_by env R (lv_hash env code) m secret"
  shows "link_assured env R (\<lambda>_ _. True) (approve_tail env ip m code label secret tid) s"
  unfolding approve_tail_def
proof (rule assured_bind)
  show "link_assured env R (\<lambda>_ _. True) (approve_device_link (lv_hash env) code m tid secret) s"
    unfolding approve_device_link_def
  proof (rule assured_bind)
    show "link_assured env R (\<lambda>_ _. True) (statement (mark_approved (lv_hash env code) m tid secret)) s"
      by (rule statement_at) (use mark_approved_ok [OF _ token_of_grows [OF assms(1)] assms(2)] in auto)
  qed simp
  fix approved t
  have "link_sure env R (\<lambda>_ _. True) (case approved of
       Inl _ \<Rightarrow> Done internal
     | Inr True \<Rightarrow>
         bind (audit_link m CreatedDaemonToken TargetDaemonToken tid (Some (''label: '' @ label))) (\<lambda>_. Done LinkDone)
     | Inr False \<Rightarrow> bind (revoke_daemon_token tid m) (\<lambda>_. note_invalid env ip))"
    by (auto intro!: always_bind always_Done audit_sure revoke_sure note_invalid_sure split: sum.split bool.split)
  then show "link_assured env R (\<lambda>_ _. True) (case approved of
       Inl _ \<Rightarrow> Done internal
     | Inr True \<Rightarrow>
         bind (audit_link m CreatedDaemonToken TargetDaemonToken tid (Some (''label: '' @ label))) (\<lambda>_. Done LinkDone)
     | Inr False \<Rightarrow> bind (revoke_daemon_token tid m) (\<lambda>_. note_invalid env ip)) t"
    by (rule always_assuredD)
qed

lemma approve_sure:
  assumes "Approve c raw secret_bytes \<in> R"
  shows "link_sure env R (\<lambda>_ _. True) (approve_link env c raw secret_bytes)"
  unfolding approve_link_def
proof (rule with_user_code_sure)
  fix member code
  let ?secret = "generate_secret_hex secret_bytes"
  assume facts: "org_member (lc_caller c) = Inr member" "canonical_user_code raw = Some code"
    "origin_is_allowed (lv_redirect_base_url env) (lv_allowed_origins env) (lc_headers c)"
  then have approved: "approved_by env R (lv_hash env code) (mb_id member) ?secret"
    using assms unfolding approved_by_def by blast
  have "link_sure env R (\<lambda>_ _. True)
      (bind (create_daemon_token (lv_hash env) (mb_id member) ?secret label) (\<lambda>minted. case minted of
          Inl _ \<Rightarrow> Done internal
        | Inr (tid, _) \<Rightarrow> approve_tail env (lc_ip c) (mb_id member) code label ?secret tid))" for label
    by (rule sure_mid [OF create_token_sure]) (use approve_tail_assured [OF _ approved] in \<open>auto split: sum.split\<close>)
  then show "link_sure env R (\<lambda>_ _. True) (bind (lookup_device_link (lv_hash env) code) (\<lambda>r. case r of
       Inl _ \<Rightarrow> Done internal
     | Inr None \<Rightarrow> note_invalid env (lc_ip c)
     | Inr (Some (label, _, _)) \<Rightarrow>
         let secret = generate_secret_hex secret_bytes
         in bind (create_daemon_token (lv_hash env) (mb_id member) secret label) (\<lambda>minted. case minted of
              Inl _ \<Rightarrow> Done internal
            | Inr (tid, _) \<Rightarrow> approve_tail env (lc_ip c) (mb_id member) code label secret tid)))"
    by (auto intro!: always_bind [OF lookup_sure] always_Done note_invalid_sure simp: Let_def split: sum.split option.split)
qed

lemma authenticate_sure:
  "link_sure env R (\<lambda>a s. \<forall>m tid. a = DaemonAccepted m tid \<longrightarrow> token_opens env db authorization m tid s)
      (authenticate_daemon env mode how db authorization)"
proof -
  have daemon: "daemon_member db m tid = DaemonAccepted m' tid' \<Longrightarrow>
      \<exists>member. md_member db m = Inr (Some member) \<and> mb_is_active member \<and> md_suspended db (mb_id member) = Inr False \<and>
        m' = mb_id member \<and> tid' = tid" for m tid m' tid'
    by (auto simp: daemon_member_def internal_def split: sum.splits option.splits if_splits bool.splits)
  show ?thesis
    unfolding authenticate_daemon_def
    by (auto intro!: always_Done sure_mid [OF validate_sure] sure_mid [OF lookup_token_sure] intro: token_opensI read_only_opensI
        simp: internal_def expired_unauthorized_def dest!: daemon
        split: option.split daemon_lookup.split sum.splits token_auth.splits daemon_unauthorized.splits)
      (blast intro: read_only_opensI)
qed

lemma handler_sure:
  assumes "r \<in> R"
  shows "link_sure env R (link_post env R r) (serve_link env r)"
proof (cases r)
  case (Start code_bytes secret_bytes label version)
  then have "Start code_bytes secret_bytes label version \<in> R" using assms by simp
  from sure_weaken [OF start_sure [OF this], where Q' = "link_post env R r"] show ?thesis
    using Start by (simp add: link_post_def)
next
  case (Poll ip raw)
  let ?poll = "\<lambda>h (r :: link_db_error + link_poll) s. \<forall>secret. r = Inr (PollApproved secret) \<longrightarrow> handed env R h secret s"
  have "link_sure env R (link_post env R r) (poll_link env raw)"
  proof (cases "canonical_device_code raw")
    case (Some code)
    have "link_sure env R (link_post env R r) (bind (poll_device_link (lv_hash env) code now) (\<lambda>r. Done (case r of
            Inl _ \<Rightarrow> internal
          | Inr PollPending \<Rightarrow> LinkPolled ''pending'' None
          | Inr PollSlowDown \<Rightarrow> LinkPolled ''slow_down'' None
          | Inr PollDenied \<Rightarrow> LinkPolled ''denied'' None
          | Inr PollExpired \<Rightarrow> LinkPolled ''expired'' None
          | Inr (PollApproved token) \<Rightarrow> LinkPolled ''approved'' (Some token))))" for now
      unfolding poll_device_link_def
      by (rule sure_mid [OF poll_tries_sure])
        (use Some Poll in \<open>auto simp: link_post_def internal_def split: sum.split link_poll.split\<close>)
    then show ?thesis by (simp add: poll_link_def Some always_bind read_clock_sure)
  qed (simp add: poll_link_def always_Done link_post_def Poll)
  then show ?thesis
    unfolding Poll serve_link.simps limit_link_poll_def
    by (intro always_bind memory_sure)
      (auto intro!: always_Done simp: link_post_def Poll split: option.split prod.split)
next
  case (UseToken mode how db authorization)
  have "link_sure env R (link_post env R (UseToken mode how db authorization)) (authenticate_daemon env mode how db authorization)"
    by (rule sure_weaken [OF authenticate_sure]) (erule post_use)
  then show ?thesis using UseToken by simp
next
  case (Lookup c raw)
  show ?thesis
    by (rule sure_weaken [where Q = "\<lambda>_ _. True"])
      (auto intro!: with_user_code_sure always_bind [OF lookup_sure] always_Done note_invalid_sure
        simp: Lookup link_post_def lookup_link_def split: sum.split option.split)
next
  case (Approve c raw secret_bytes)
  then have "Approve c raw secret_bytes \<in> R" using assms by simp
  from sure_weaken [OF approve_sure [OF this], where Q' = "link_post env R r"] show ?thesis
    using Approve by (simp add: link_post_def)
next
  case (Deny c raw)
  show ?thesis
    by (rule sure_weaken [where Q = "\<lambda>_ _. True"])
      (auto intro!: with_user_code_sure always_bind [OF deny_sure] always_bind always_Done note_invalid_sure audit_sure
        simp: Deny link_post_def deny_link_def split: sum.split option.split)
next
  case (CreateToken c label secret_bytes)
  have create: "link_sure env R (\<lambda>_ _. True) (create_daemon_token hash m raw label)" for hash m raw
    by (rule sure_weaken [OF create_token_sure]) simp
  show ?thesis
    by (rule sure_weaken [where Q = "\<lambda>_ _. True"])
      (auto intro!: always_bind [OF create] always_bind always_Done audit_sure
        simp: CreateToken link_post_def create_token_route_def Let_def split: sum.split)
next
  case (RevokeToken c tid)
  show ?thesis
    by (rule sure_weaken [where Q = "\<lambda>_ _. True"])
      (auto intro!: always_bind [OF revoke_sure] always_bind always_Done audit_sure
        simp: RevokeToken link_post_def revoke_token_route_def split: sum.split)
next
  case Cleanup
  show ?thesis
    by (rule sure_weaken [where Q = "\<lambda>_ _. True"])
      (auto intro!: always_bind [OF cleanup_sure] always_Done simp: Cleanup link_post_def cleanup_pass_def)
qed

end
