(* ===== verification/DeviceLinkBudget.thy ===== *)
theory DeviceLinkBudget
  imports DeviceLinkSafety
begin

text \<open>
  The runs of the device sign-in as interleavings that keep the invariant, and the secret of an approval as a
  resource: the links and the answers hold it, an approval brings it in, and no statement copies it.
\<close>

lemma link_events: "\<forall>r \<in> set (arrivals events). r \<in> R \<Longrightarrow> list_all (\<lambda>r. r \<in> R) (arrivals events)"
  by (simp add: list_all_iff)

interpretation link: interleaved "serve_link env" pass_time "\<lambda>r. r \<in> R" "link_inv env R" link_grows link_guar "link_post env R"
  for env R
proof (unfold_locales, goal_cases)
  case (5 s d)
  then show ?case using outside_tables [of env R s "pass_time d s"] by (simp add: pass_time_def)
next
  case (6 s d)
  then show ?case by (simp add: pass_time_def link_guar_def link_grows_def)
next
  case (8 r s)
  then show ?case by (intro always_assuredD handler_sure)
qed (auto intro: grows_trans guar_grows post_grows)

text \<open>A site before the first sign-in: no links, no tokens.\<close>

definition new_site :: "link_site \<Rightarrow> bool" where
  "new_site s \<longleftrightarrow> ls_links s = t_empty \<and> ls_tokens s = t_empty \<and> inj (ls_ids s)"

lemma new_site_inv: "new_site s \<Longrightarrow> link_inv env R s"
  by (auto simp: new_site_def link_inv_def t_empty_def table_ok_def)

subsection \<open>A secret is handed over once\<close>

text \<open>The secret in the links, and in the answers.\<close>

definition kept_secret :: "string \<Rightarrow> link_site \<Rightarrow> nat" where
  "kept_secret secret s = length (t_list (\<lambda>r. lk_handover r = Some secret) (ls_links s))"

definition told_secret :: "string \<Rightarrow> link_response \<Rightarrow> nat" where
  "told_secret secret resp = (if \<exists>status. resp = LinkPolled status (Some secret) then 1 else 0)"

definition minted_secret :: "string \<Rightarrow> link_request \<Rightarrow> nat" where
  "minted_secret secret r =
     (case r of Approve c raw secret_bytes \<Rightarrow> if generate_secret_hex secret_bytes = secret then 1 else 0 | _ \<Rightarrow> 0)"

text \<open>The links that keep the secret, as positions of the scan.\<close>

definition keeps_secret :: "string \<Rightarrow> link_site \<Rightarrow> string \<Rightarrow> bool" where
  "keeps_secret secret s k \<longleftrightarrow> (\<exists>r. rows (ls_links s) k = Some r \<and> lk_handover r = Some secret)"

lemma kept_scan: "kept_secret secret s = length (filter (keeps_secret secret s) (scan (ls_links s)))"
proof -
  have "kept_secret secret s = length (filter (\<lambda>k. lk_handover (the (rows (ls_links s) k)) = Some secret \<and> rows (ls_links s) k \<noteq> None)
      (scan (ls_links s)))"
    by (simp add: kept_secret_def t_list_def filter_map comp_def) (meson)
  then show ?thesis by (simp add: keeps_secret_def [abs_def]) (rule arg_cong [where f = length], rule filter_cong, auto)
qed

lemma kept_same: "ls_links s' = ls_links s \<Longrightarrow> kept_secret secret s' = kept_secret secret s"
  by (simp add: kept_secret_def)

lemma fewer_kept:
  "scan (ls_links s') = scan (ls_links s) \<Longrightarrow> (\<And>k. keeps_secret secret s' k \<Longrightarrow> keeps_secret secret s k) \<Longrightarrow>
   kept_secret secret s' \<le> kept_secret secret s"
  unfolding kept_scan by (simp add: filter_fewer)

lemma rows_links_update [simp]:
  "rows (ls_links (update_links P f s)) k = map_option (\<lambda>r. if P r then f r else r) (rows (ls_links s) k)"
  by (simp add: update_links_def rows_update_where)

lemma scan_update [simp]: "scan (ls_links (update_links P f s)) = scan (ls_links s)"
  by (simp add: update_links_def t_update_where_def)

lemma update_kept:
  "(\<And>r. P r \<Longrightarrow> lk_handover (f r) = Some secret \<Longrightarrow> lk_handover r = Some secret) \<Longrightarrow>
   kept_secret secret (update_links P f s) \<le> kept_secret secret s"
  by (rule fewer_kept) (auto simp: keeps_secret_def split: if_splits)

lemma approve_kept:
  assumes s: "link_inv env R s"
  shows "kept_secret secret (snd (mark_approved h m tid secret' s)) \<le> kept_secret secret s + (if secret' = secret then 1 else 0)"
proof (cases "secret' = secret")
  case True
  let ?P = "live_pending h (ls_clock s)"
  have dist: "distinct (scan (ls_links s))" using link_invD(1) [OF s] by (simp add: table_ok_def)
  show ?thesis
  proof (cases "\<exists>k r. rows (ls_links s) k = Some r \<and> ?P r")
    case False
    have "kept_secret secret (snd (mark_approved h m tid secret' s)) \<le> kept_secret secret s"
      unfolding mark_approved_def snd_conv by (rule fewer_kept) (use False in \<open>auto simp: keeps_secret_def split: if_splits\<close>)
    then show ?thesis by simp
  next
    case True
    then obtain k r where k: "rows (ls_links s) k = Some r" "?P r" by blast
    have one: "k' = k" if "rows (ls_links s) k' = Some r'" "?P r'" for k' r'
      using link_unique [OF s that(1) k(1)] that(2) k(2) by (simp add: live_pending_def)
    show ?thesis
      unfolding kept_scan mark_approved_def snd_conv scan_update using \<open>secret' = secret\<close>
      by simp (rule filter_one_more [where k = k, OF dist], use one in \<open>auto simp: keeps_secret_def split: if_splits\<close>)
  qed
next
  case False
  then have "kept_secret secret (snd (mark_approved h m tid secret' s)) \<le> kept_secret secret s"
    unfolding mark_approved_def snd_conv by (intro update_kept) simp
  then show ?thesis by simp
qed

definition claimed_secret :: "string \<Rightarrow> link_db_error + consumed \<Rightarrow> nat" where
  "claimed_secret secret c = (if c = Inr (ConsumedToken secret) then 1 else 0)"

lemma claim_kept:
  assumes s: "link_inv env R s"
  shows "kept_secret secret (snd (claim_link h now s)) + claimed_secret secret (fst (claim_link h now s)) \<le> kept_secret secret s"
proof (cases "fst (claim_link h now s) = Inr (ConsumedToken secret)")
  case True
  then obtain r rs where hd: "select_links (pollable h APPROVED now) s = r # rs" "lk_handover r = Some secret"
    by (auto simp: claim_link_def split: list.splits option.splits if_splits)
  then have "r \<in> snd ` set (t_list (pollable h APPROVED now) (ls_links s))"
    unfolding select_links_def by (metis list.set_intros(1) set_map)
  then obtain k where k: "rows (ls_links s) k = Some r" "pollable h APPROVED now r"
    using set_t_list [OF link_invD(1) [OF s]] by auto
  have "k \<in> set (scan (ls_links s))" using k(1) link_invD(1) [OF s] by (auto simp: table_ok_def)
  then have "Suc (kept_secret secret (snd (claim_link h now s))) \<le> kept_secret secret s"
    unfolding kept_scan claim_link_def snd_conv scan_update
    by (rule filter_one_less) (use k hd(2) in \<open>auto simp: keeps_secret_def split: if_splits\<close>)
  then show ?thesis using True by (simp add: claimed_secret_def)
next
  case False
  have "kept_secret secret (snd (claim_link h now s)) \<le> kept_secret secret s"
    unfolding claim_link_def snd_conv by (intro update_kept) simp
  then show ?thesis using False by (simp add: claimed_secret_def)
qed

lemma insert_kept:
  assumes s: "link_inv env R s" and "lk_handover row = None"
  shows "kept_secret secret (snd (insert_link row s)) = kept_secret secret s"
  using t_list_create [OF link_invD(1) [OF s], of "new_row_id s"] link_fresh [OF s] assms(2)
  by (simp add: insert_link_def kept_secret_def)

lemma delete_kept:
  assumes s: "link_inv env R s"
  shows "kept_secret secret (s\<lparr>ls_links := t_delete_where P (ls_links s)\<rparr>) \<le> kept_secret secret s"
proof -
  let ?s = "s\<lparr>ls_links := t_delete_where P (ls_links s)\<rparr>"
  obtain keep where "scan (ls_links ?s) = filter keep (scan (ls_links s))" by (auto simp: t_delete_where_def Let_def)
  then have "kept_secret secret ?s = length (filter (\<lambda>k. keep k \<and> keeps_secret secret ?s k) (scan (ls_links s)))"
    unfolding kept_scan by simp
  also have "\<dots> \<le> kept_secret secret s"
    unfolding kept_scan by (rule filter_fewer) (auto simp: keeps_secret_def split: option.splits if_splits)
  finally show ?thesis .
qed

lemma token_steps_kept:
  "ls_links (snd (insert_token row s)) = ls_links s" "ls_links (snd (deactivate tid m s)) = ls_links s"
  "ls_links (snd (touch_token conflict h s)) = ls_links s"
  by (auto simp: insert_token_def deactivate_def touch_token_def split: option.split)

abbreviation link_affords where
  "link_affords env R secret \<equiv> affords (link_inv env R) (kept_secret secret)"

text \<open>A program that leaves what it does not use: \<open>n\<close> before, \<open>n\<close> after.\<close>

definition spares :: "link_env \<Rightarrow> link_request set \<Rightarrow> string \<Rightarrow> (link_site, 'a) prog \<Rightarrow> bool" where
  "spares env R secret p \<longleftrightarrow> (\<forall>n. link_affords env R secret (\<lambda>_. n) n p)"

lemma spares_Done: "spares env R secret (Done a)"
  by (simp add: spares_def)

lemma spares_bind: "spares env R secret p \<Longrightarrow> (\<And>a. spares env R secret (k a)) \<Longrightarrow> spares env R secret (bind p k)"
  unfolding spares_def by (blast intro: affords_bind)

lemma spares_try: "spares env R secret p \<Longrightarrow> (\<And>a. spares env R secret (k a)) \<Longrightarrow> spares env R secret (try_bind p k)"
  unfolding try_bind_def by (rule spares_bind) (auto intro: spares_Done split: sum.split)

lemma spares_query:
  "(\<And>s. link_inv env R s \<Longrightarrow> kept_secret secret (snd (f s)) \<le> kept_secret secret s) \<Longrightarrow> spares env R secret (query e f)"
  unfolding spares_def by (intro allI affords_query) auto

lemma spares_statement:
  "(\<And>s. link_inv env R s \<Longrightarrow> kept_secret secret (snd (f s)) \<le> kept_secret secret s) \<Longrightarrow> spares env R secret (statement f)"
  unfolding statement_def by (rule spares_query)

lemma spares_query_same: "(\<And>s. ls_links (snd (f s)) = ls_links s) \<Longrightarrow> spares env R secret (query e f)"
  by (intro spares_query eq_imp_le kept_same)

lemma spares_statement_same: "(\<And>s. ls_links (snd (f s)) = ls_links s) \<Longrightarrow> spares env R secret (statement f)"
  by (intro spares_statement eq_imp_le kept_same)

lemma spares_memory: "(\<And>s. ls_links (snd (f s)) = ls_links s) \<Longrightarrow> spares env R secret (memory f)"
  unfolding spares_def by (intro allI affords_memory add_mono eq_imp_le kept_same) simp_all

lemma spares_affords:
  assumes "spares env R secret p" and "\<And>a. link_affords env R secret paid n (k a)"
  shows "link_affords env R secret paid n (bind p k)"
proof (rule affords_bind [where rest = "\<lambda>_. n"])
  show "link_affords env R secret (\<lambda>_. n) n p" using assms(1) by (simp add: spares_def)
qed (rule assms(2))

lemma spares_memories:
  "spares env R secret read_clock" "spares env R secret (note_invalid env' ip)"
  unfolding read_clock_def note_invalid_def by (intro spares_memory spares_bind spares_Done; simp)+

lemma spares_audit: "spares env R secret (audit_link actor action tt target details)"
  unfolding audit_link_def by (intro spares_bind spares_query_same spares_Done) (simp add: audit_def)

lemma spares_tokens:
  "spares env R secret (create_daemon_token hash m raw label)" "spares env R secret (revoke_daemon_token tid m)"
  "spares env R secret (lookup_daemon_token hash raw)" "spares env R secret (statement (touch_token conflict h))"
  unfolding create_daemon_token_def revoke_daemon_token_def lookup_daemon_token_def
  by (intro spares_bind spares_statement_same spares_memories; simp add: token_steps_kept)+

lemma spares_links:
  "spares env R secret (lookup_device_link hash code)" "spares env R secret (load_by_device_hash h)"
  "spares env R secret (insert_device_link hash user_code device_code l v)"
  unfolding lookup_device_link_def load_by_device_hash_def insert_device_link_def
  by (intro spares_statement; simp add: insert_kept)+

lemma spares_touch: "spares env R secret (touch_poll h status now)"
  unfolding touch_poll_def by (intro spares_statement) (auto intro!: update_kept)

lemma spares_read: "spares env R secret (memory (\<lambda>s. (g s, s)))"
  by (rule spares_memory) simp

lemmas spares_steps = spares_read spares_memories spares_audit spares_tokens spares_links spares_touch spares_Done

lemma spares_validate: "spares env R secret (validate_daemon_token hash conflict raw)"
  unfolding validate_daemon_token_def
  by (rule spares_try, intro spares_statement, simp)
    (auto intro!: spares_bind spares_try spares_steps split: list.split)

lemma spares_deny: "spares env R secret (deny_device_link hash code m)"
proof -
  have "spares env R secret (statement (mark_denied h m))" for h
    by (rule spares_statement) (auto simp: mark_denied_def intro!: update_kept)
  moreover have "spares env R secret (statement (select_deniable h m))" for h
    by (rule spares_statement) (simp add: select_deniable_def)
  ultimately show "spares env R secret (deny_device_link hash code m)"
    unfolding deny_device_link_def by (auto intro!: spares_try spares_steps split: option.split)
qed

lemma spares_revokes: "spares env R secret (revoke_uncollected ps)"
  by (induction ps) (auto intro!: spares_bind spares_steps split: option.split sum.split link_db_error.split)

lemma spares_cleanup: "spares env R secret cleanup_expired_device_links"
  unfolding cleanup_expired_device_links_def cleanup_before_def
  by (intro spares_bind spares_memories spares_try spares_revokes spares_statement)
    (auto simp: select_uncollected_def intro!: update_kept spares_try spares_Done spares_statement delete_kept)

text \<open>What a program whose answers tell no secret pays.\<close>

lemma spares_untold:
  "spares env R secret p \<Longrightarrow> (\<And>a. told_secret secret (g a) = 0) \<Longrightarrow>
   link_affords env R secret (told_secret secret) 0 (bind p (\<lambda>a. Done (g a)))"
  by (rule spares_affords) simp_all

lemma untold_Done: "told_secret secret a = 0 \<Longrightarrow> link_affords env R secret (told_secret secret) n (Done a)"
  by simp

lemma untold_simps [simp]:
  "told_secret secret (LinkFailed code msg) = 0" "told_secret secret (LinkLimited secs) = 0"
  "told_secret secret (LinkStarted u d i ttl) = 0" "told_secret secret (LinkPolled status None) = 0"
  "told_secret secret (LinkFound l v t) = 0" "told_secret secret LinkDone = 0" "told_secret secret (TokenCreated tid raw l) = 0"
  "told_secret secret TokenRevoked = 0" "told_secret secret (DaemonAccepted m tid) = 0"
  "told_secret secret DaemonTokenExpired = 0" "told_secret secret (CleanupDone n) = 0" "told_secret secret CleanupFailed = 0"
  "told_secret secret invalid_code = 0" "told_secret secret internal = 0" "told_secret secret origin_rejected = 0"
  "told_secret secret (refused_by e) = 0" "told_secret secret (expired_unauthorized mode) = 0"
  "told_secret secret (daemon_member db m tid) = 0"
  by (auto simp: told_secret_def invalid_code_def internal_def origin_rejected_def refused_by_def expired_unauthorized_def
      daemon_member_def split: http_error.split daemon_unauthorized.split sum.splits option.splits bool.splits if_splits)

lemma note_invalid_affords: "link_affords env R secret (told_secret secret) n (note_invalid env' ip)"
  unfolding note_invalid_def by (rule spares_affords) (auto intro!: spares_memory)

definition poll_told :: "string \<Rightarrow> link_db_error + link_poll \<Rightarrow> nat" where
  "poll_told secret r = (if r = Inr (PollApproved secret) then 1 else 0)"

lemma poll_told_simps [simp]:
  "poll_told secret (Inl e) = 0" "poll_told secret (Inr PollPending) = 0" "poll_told secret (Inr PollSlowDown) = 0"
  "poll_told secret (Inr PollDenied) = 0" "poll_told secret (Inr PollExpired) = 0"
  "poll_told secret (Inr (PollApproved token)) = (if token = secret then 1 else 0)"
  by (simp_all add: poll_told_def)

lemma poll_tries_afford: "link_affords env R secret (poll_told secret) 0 (poll_tries n h now)"
proof (induction n)
  case 0
  show ?case by simp
next
  case (Suc n)
  have claim: "link_affords env R secret (claimed_secret secret) 0 (consume_approved h now)"
    unfolding consume_approved_def statement_def
  proof (rule affords_query)
    fix s assume s: "link_inv env R s"
    show "kept_secret secret (snd (claim_link h now s)) + claimed_secret secret (fst (claim_link h now s)) \<le> kept_secret secret s + 0 \<and>
        kept_secret secret (snd (claim_link h now s)) + claimed_secret secret (Inl DriverError) \<le> kept_secret secret s + 0"
      using claim_kept [OF s, of secret h now] by (simp add: claimed_secret_def)
  qed (simp add: claimed_secret_def)
  have after: "link_affords env R secret (poll_told secret) (claimed_secret secret r)
      (case r of Inl e \<Rightarrow> Done (Inl e) | Inr c \<Rightarrow> (case c of ConsumedToken token \<Rightarrow> Done (Inr (PollApproved token))
       | ConsumedEmpty \<Rightarrow> Done (Inr PollExpired) | ConsumedLost \<Rightarrow> poll_tries n h now))" for r
    using Suc.IH by (auto simp: claimed_secret_def split: sum.split consumed.split)
  have consume: "link_affords env R secret (poll_told secret) 0
      (try_bind (consume_approved h now) (\<lambda>c. case c of ConsumedToken token \<Rightarrow> Done (Inr (PollApproved token))
       | ConsumedEmpty \<Rightarrow> Done (Inr PollExpired) | ConsumedLost \<Rightarrow> poll_tries n h now))"
    unfolding try_bind_def by (rule affords_bind [OF claim after])
  have other: "link_affords env R secret (poll_told secret) 0 (Done r)" if "\<forall>t. r \<noteq> Inr (PollApproved t)" for r
    using that by (simp add: poll_told_def)
  show ?case
    unfolding poll_tries.simps
    by (auto intro!: spares_affords spares_steps consume other Suc.IH simp: try_bind_def [of "load_by_device_hash h"]
        try_bind_def [of "touch_poll h _ now"] split: option.split sum.split)
qed

lemma approve_affords:
  assumes "generate_secret_hex secret_bytes = secret \<Longrightarrow> 1 \<le> n"
  shows "link_affords env R secret (told_secret secret) n (approve_link env' c raw secret_bytes)"
proof -
  define fresh where "fresh = generate_secret_hex secret_bytes"
  have mark: "link_affords env R secret (\<lambda>_. 0) n (approve_device_link hash code m tid fresh)" for hash code m tid
    unfolding approve_device_link_def
  proof (rule affords_bind [where rest = "\<lambda>_. 0"])
    show "link_affords env R secret (\<lambda>_. 0) n (statement (mark_approved (hash code) m tid fresh))"
      unfolding statement_def
    proof (rule affords_query)
      fix s assume "link_inv env R s"
      from approve_kept [OF this, of secret "hash code" m tid fresh]
      show "kept_secret secret (snd (mark_approved (hash code) m tid fresh s)) + 0 \<le> kept_secret secret s + n \<and>
          kept_secret secret (snd (mark_approved (hash code) m tid fresh s)) + 0 \<le> kept_secret secret s + n"
        using assms by (auto simp: fresh_def split: if_splits)
    qed simp
  qed simp
  have tail: "link_affords env R secret (told_secret secret) n (approve_tail env' ip m code label fresh tid)"
    for ip m code label tid
    unfolding approve_tail_def
    by (rule affords_bind [OF mark])
      (auto intro!: spares_affords spares_steps note_invalid_affords split: sum.split bool.split)
  show ?thesis
    unfolding approve_link_def with_user_code_def Let_def fresh_def [symmetric]
    by (auto intro!: spares_affords spares_steps note_invalid_affords tail split: sum.split option.split)
qed

lemma request_affords: "link_affords env R secret (told_secret secret) (minted_secret secret r) (serve_link env' r)"
proof (cases r)
  case (Poll ip raw)
  have "link_affords env R secret (told_secret secret) 0 (poll_link env' raw)"
    unfolding poll_link_def poll_device_link_def
    by (auto intro!: spares_affords spares_steps affords_bind [OF poll_tries_afford]
        simp: told_secret_def internal_def split: option.split sum.split link_poll.split)
  then show ?thesis
    unfolding Poll serve_link.simps limit_link_poll_def
    by (intro spares_affords [OF spares_memory]) (auto simp: minted_secret_def split: prod.split option.split)
next
  case (Approve c raw secret_bytes)
  then show ?thesis by (auto simp: minted_secret_def intro: approve_affords)
qed (auto intro!: spares_affords spares_steps spares_deny spares_validate spares_cleanup
    note_invalid_affords
    simp: minted_secret_def start_link_def Let_def lookup_link_def with_user_code_def deny_link_def create_token_route_def
      revoke_token_route_def authenticate_daemon_def cleanup_pass_def
    split: sum.split option.split prod.split token_auth.split daemon_lookup.split)

interpretation secrets: budgeted "serve_link env" pass_time "\<lambda>r. r \<in> R" "link_inv env R" link_grows link_guar "link_post env R"
  "kept_secret secret" "told_secret secret" "minted_secret secret" for env R secret
  by unfold_locales (auto intro: request_affords simp: kept_secret_def pass_time_def)

end
