(* ===== verification/DeviceLinkRuns.thy ===== *)
theory DeviceLinkRuns
  imports DeviceLinkBudget "HOL-Library.Code_Target_Nat"
begin

text \<open>
  A concrete device sign-in, on which the properties are tried: the state before and after each of its requests.
\<close>

text \<open>A concrete run: a code is started, approved, and polled for; a second poll comes too early, a third too late.\<close>

definition link_wit_env :: link_env where
  "link_wit_env = \<lparr>lv_hash = (\<lambda>s. s), lv_redirect_base_url = ''u'', lv_allowed_origins = [], lv_pick = hd\<rparr>"

definition link_wit_site :: link_site where
  "link_wit_site = \<lparr>audit_log = [], ls_links = t_empty, ls_tokens = t_empty, ls_ids = (\<lambda>n. replicate n CHR ''i''),
     ls_next = 0, ls_clock = 0, ls_codes = [], ls_polls = []\<rparr>"

definition link_wit_caller :: link_caller where
  "link_wit_caller = \<lparr>lc_caller = \<lparr>auth_user = Inr ''u'',
       member_lookup = (\<lambda>_. Inr (Some (\<lparr>mb_id = ''m'', mb_role = Member, mb_is_active = True\<rparr>, False)))\<rparr>,
     lc_ip = ''1'', lc_headers = \<lparr>hd_origin = Some ''u'', hd_sec_fetch_site = None\<rparr>\<rparr>"

definition link_wit_device :: "8 word list" where
  "link_wit_device = replicate 32 0"


definition link_wit_row :: link_row where
  "link_wit_row = \<lparr>lk_user_hash = ''AAAAAAAA'', lk_device_hash = generate_secret_hex link_wit_device, lk_label = ''d'',
     lk_version = ''1'', lk_status = PENDING, lk_member = None, lk_token = None, lk_handover = None, lk_created = 0,
     lk_expires = int (from_secs 600), lk_last_poll = None\<rparr>"

lemma label_wit: "validate_device_label ''d'' = Inr ''d''" by code_simp
lemma version_wit: "validate_app_version ''1'' = Inr ''1''" by code_simp
definition link_wit_code :: "8 word list" where
  "link_wit_code = replicate 8 0"

definition link_wit_secret :: "8 word list" where
  "link_wit_secret = replicate 32 1"

lemma code_wit: "generate_user_code link_wit_code = (''AAAA-AAAA'', ''AAAAAAAA'')" by code_simp
lemma canon_wit: "canonical_user_code ''aaaaaaaa'' = Some ''AAAAAAAA''" by code_simp


lemma links_wit:
  "t_list P (t_create k r t_empty) = (if P r then [(k, r)] else [])"
  "t_update_where P f (t_create k r t_empty) = t_create k (if P r then f r else r) t_empty"
  "t_list P t_empty = []"
  by (auto simp: t_list_def t_create_def t_empty_def t_update_where_def fun_eq_iff)

definition link_wit_started :: link_site where
  "link_wit_started = link_wit_site\<lparr>ls_links := t_create [] link_wit_row t_empty, ls_next := 1\<rparr>"

definition link_wit_approved :: link_row where
  "link_wit_approved = link_wit_row\<lparr>lk_status := APPROVED, lk_member := Some ''m'', lk_token := Some ''i'', lk_handover := Some (generate_secret_hex link_wit_secret)\<rparr>"

definition link_wit_token :: token_row where
  "link_wit_token = \<lparr>dt_member = ''m'', dt_hash = generate_secret_hex link_wit_secret, dt_label = ''d'', dt_active = True, dt_created = 0,
     dt_last_used = None, dt_expires = Some (int (from_secs (daemon_token_ttl_days * 86400)))\<rparr>"

definition link_wit_minted :: link_site where
  "link_wit_minted = link_wit_site\<lparr>ls_links := t_create [] link_wit_approved t_empty, ls_next := 2,
     ls_tokens := t_create ''i'' link_wit_token t_empty,
     audit_log := [\<lparr>au_actor = ''m'', au_action = CreatedDaemonToken, au_target_type = TargetDaemonToken,
          au_target_id = ''i'', au_details = Some ''label: d''\<rparr>]\<rparr>"

lemmas run_simps = bind_memory bind_query statement_def try_bind_def read_clock_def select_links_def update_links_def links_wit 
  link_wit_env_def link_wit_site_def link_wit_row_def new_row_id_def

definition link_wit_member :: site_member where
  "link_wit_member = \<lparr>mb_id = ''m'', mb_role = Member, mb_is_active = True\<rparr>"

lemma link_wit_admitted:
  "org_member (lc_caller link_wit_caller) = Inr link_wit_member"
  "origin_is_allowed (lv_redirect_base_url link_wit_env) (lv_allowed_origins link_wit_env) (lc_headers link_wit_caller)"
  by code_simp+

lemma start_wit:
  "run_with [Succeeds] (start_link link_wit_env link_wit_code link_wit_device ''d'' ''1'') link_wit_site =
    (Done (LinkStarted ''AAAA-AAAA'' (generate_secret_hex link_wit_device) 5 600), link_wit_started)"
  by (simp add: start_link_def label_wit version_wit code_wit Let_def insert_device_link_def insert_link_def run_simps
    link_wit_started_def device_link_interval_secs_def device_link_ttl_secs_def)

lemma approve_wit:
  "run_with (replicate 6 Succeeds) (approve_link link_wit_env link_wit_caller ''aaaaaaaa'' link_wit_secret) link_wit_started =
    (Done LinkDone, link_wit_minted)"
proof -
  have r: "replicate 6 Succeeds = [Succeeds, Succeeds, Succeeds, Succeeds, Succeeds, Succeeds]" by (simp add: numeral_eq_Suc)
  show ?thesis
  unfolding approve_link_def with_user_code_def r
  by (simp add: canon_wit  Let_def lookup_device_link_def run_simps link_wit_admitted link_wit_admitted(2) [unfolded link_wit_env_def, simplified] link_wit_member_def codes_retry_after_def
    create_daemon_token_def insert_token_def approve_tail_def approve_device_link_def mark_approved_def live_pending_def
    link_wit_started_def link_wit_minted_def link_wit_token_def link_wit_approved_def audit_link_def audit_def PENDING_def APPROVED_def from_secs_def)
qed

lemma poll_wit:
  "fst (run_with (replicate 4 Succeeds) (limit_link_poll link_wit_env ''1'' (poll_link link_wit_env (generate_secret_hex link_wit_device))) link_wit_minted) =
    Done (LinkPolled ''approved'' (Some (generate_secret_hex link_wit_secret)))"
proof -
  have r: "replicate 4 Succeeds = [Succeeds, Succeeds, Succeeds, Succeeds]" by (simp add: numeral_eq_Suc)
  have c: "canonical_device_code (generate_secret_hex link_wit_device) = Some (generate_secret_hex link_wit_device)" by code_simp
  have p: "poll_take hd ''1'' 0 [] = (None, [(''1'', \<lparr>pb_tokens = 29, pb_as_of = 0\<rparr>)])" by code_simp
  have "length (generate_secret_hex link_wit_secret) = 64" by (simp only: length_secret link_wit_secret_def length_replicate)
  then have n: "generate_secret_hex link_wit_secret \<noteq> []" by (metis list.size(3) zero_neq_numeral)
  show ?thesis
  unfolding limit_link_poll_def poll_link_def r poll_device_link_def numeral_2_eq_2
  by (simp add: run_simps link_wit_minted_def link_wit_approved_def c p n load_by_device_hash_def is_expired_def
    polled_too_fast_def consume_approved_def claim_link_def pollable_def APPROVED_def PENDING_def DENIED_def CONSUMED_def from_secs_def)
qed

subsection \<open>The run\<close>

definition link_wit_start :: "link_request event list" where
  "link_wit_start = alone 0 (Start link_wit_code link_wit_device ''d'' ''1'') [Succeeds]"

definition link_wit_approval :: "link_request event list" where
  "link_wit_approval = link_wit_start @ alone 1 (Approve link_wit_caller ''aaaaaaaa'' link_wit_secret) (replicate 6 Succeeds)"

definition link_wit_events :: "link_request event list" where
  "link_wit_events = link_wit_approval @ alone 2 (Poll ''1'' (generate_secret_hex link_wit_device)) (replicate 4 Succeeds)"

lemma link_wit_arrivals: "arrivals link_wit_events =
  [Start link_wit_code link_wit_device ''d'' ''1'', Approve link_wit_caller ''aaaaaaaa'' link_wit_secret,
   Poll ''1'' (generate_secret_hex link_wit_device)]"
  by (simp add: link_wit_events_def link_wit_approval_def link_wit_start_def)

definition link_wit_answers :: "(link_request \<times> link_prog) list" where
  "link_wit_answers =
     [(Start link_wit_code link_wit_device ''d'' ''1'', Done (LinkStarted ''AAAA-AAAA'' (generate_secret_hex link_wit_device) 5 600)),
      (Approve link_wit_caller ''aaaaaaaa'' link_wit_secret, Done LinkDone)]"

lemma link_wit_first:
  "link_run link_wit_env link_wit_start link_wit_site = (link_wit_started, take 1 link_wit_answers)"
  using serve_alone [where handle = "serve_link link_wit_env" and tick = pass_time and es = "[]" and s = link_wit_site
      and t = link_wit_site and pool = "[]" and i = 0 and r = "Start link_wit_code link_wit_device ''d'' ''1''" and ws = "[Succeeds]"]
  by (simp add: link_run_def link_wit_start_def link_wit_answers_def start_wit del: run_with.simps)

lemma link_wit_second:
  "link_run link_wit_env link_wit_approval link_wit_site = (link_wit_minted, link_wit_answers)"
  using serve_alone [OF link_wit_first [unfolded link_run_def], of 1 "Approve link_wit_caller ''aaaaaaaa'' link_wit_secret"
      "replicate 6 Succeeds"]
  by (simp add: link_run_def link_wit_approval_def link_wit_answers_def approve_wit del: run_with.simps replicate.simps)

lemma link_wit_third:
  "snd (link_run link_wit_env link_wit_events link_wit_site) = link_wit_answers @
     [(Poll ''1'' (generate_secret_hex link_wit_device), Done (LinkPolled ''approved'' (Some (generate_secret_hex link_wit_secret))))]"
  using serve_alone [OF link_wit_second [unfolded link_run_def], of 2 "Poll ''1'' (generate_secret_hex link_wit_device)"
      "replicate 4 Succeeds"] poll_wit
  by (simp add: link_run_def link_wit_events_def link_wit_answers_def split_def del: run_with.simps replicate.simps)

lemma link_wit_states:
  "link_state link_wit_env link_wit_start link_wit_site = link_wit_started"
  "link_state link_wit_env link_wit_approval link_wit_site = link_wit_minted"
  using link_wit_first link_wit_second by (simp_all add: link_state_def link_run_def state_after_def)

lemma link_wit_new: "new_site link_wit_site"
  by (auto simp: new_site_def link_wit_site_def inj_def)

end
