(* ===== verification/DeviceLinkProps.thy ===== *)
theory DeviceLinkProps
  imports DeviceLinkRuns
begin

text \<open>
  The properties of the device sign-in, over any interleaving of any requests, cleanups and statement failures.
\<close>

subsection \<open>The properties\<close>

definition minted_secrets :: "link_request event list \<Rightarrow> string list" where
  "minted_secrets events =
     concat (map (\<lambda>r. case r of Approve c raw secret_bytes \<Rightarrow> [generate_secret_hex secret_bytes] | _ \<Rightarrow> []) (arrivals events))"

lemma minted_count: "sum_list (map (minted_secret secret) (arrivals events)) = count_list (minted_secrets events) secret"
proof -
  have "sum_list (map (minted_secret secret) rs) =
      count_list (concat (map (\<lambda>r. case r of Approve c raw secret_bytes \<Rightarrow> [generate_secret_hex secret_bytes] | _ \<Rightarrow> []) rs)) secret"
    for rs by (induction rs) (auto simp: minted_secret_def split: link_request.split)
  then show ?thesis by (simp add: minted_secrets_def)
qed

lemma count_distinct: "distinct xs \<Longrightarrow> count_list xs x \<le> 1"
  by (induction xs) auto

lemma paid_told:
  fixes c :: "(link_site, link_request, link_response) service"
  shows "paid_out (told_secret secret) c = length (filter (\<lambda>(r, p). \<exists>status. p = Done (LinkPolled status (Some secret))) (snd c))"
proof -
  have sum: "(\<Sum>(r, p) \<leftarrow> pool. case p of Done a \<Rightarrow> told_secret secret a | _ \<Rightarrow> 0) =
      length (filter (\<lambda>(r, p). \<exists>status. p = Done (LinkPolled status (Some secret))) pool)" for pool :: "(link_request \<times> link_prog) list"
    by (induction pool) (auto simp: told_secret_def split: prog.split)
  show ?thesis unfolding paid_out_def by (rule sum)
qed

text \<open>
  C8: A secret is handed over at most once. However requests, polls of the same device included, cleanups and failing
  statements interleave: if the approvals mint different secrets, a secret is in at most one place, one link or one
  answer, so at most one poll is answered with it and then no link keeps it.
\<close>

theorem secret_handed_once:
  assumes "new_site s" and "distinct (minted_secrets events)"
  shows "kept_secret secret (link_state env events s) +
    length (filter (\<lambda>(r, p). \<exists>status. p = Done (LinkPolled status (Some secret))) (snd (link_run env events s))) \<le> 1"
proof -
  let ?R = "set (arrivals events)"
  have "kept_secret secret (link_state env events s) + paid_out (told_secret secret) (link_run env events s) \<le>
      kept_secret secret s + sum_list (map (minted_secret secret) (arrivals events))"
    using secrets.run_budget [where R = ?R and events = events, OF new_site_inv [OF assms(1)]]
    unfolding link_state_def link_run_def by (simp add: list_all_iff)
  moreover have "kept_secret secret s = 0" using assms(1) by (simp add: kept_secret_def new_site_def t_empty_def t_list_def)
  moreover have "count_list (minted_secrets events) secret \<le> 1" using assms(2) by (rule count_distinct)
  ultimately show ?thesis by (simp add: minted_count paid_told)
qed

lemma secret_handed_once_witness:
  "kept_secret (generate_secret_hex link_wit_secret) (link_state link_wit_env link_wit_events link_wit_site) +
    length (filter (\<lambda>(r, p). \<exists>status. p = Done (LinkPolled status (Some (generate_secret_hex link_wit_secret))))
      (snd (link_run link_wit_env link_wit_events link_wit_site))) \<le> 1"
  by (rule secret_handed_once [OF link_wit_new]) (simp add: minted_secrets_def link_wit_arrivals)

text \<open>
  C9: A device gets the token of the member who approved it. Whatever else happens: when a poll is answered with a
  secret, the polled device code was made by a sign-in request together with a user code, a member admitted by the
  session check approved that very user code from the site's own pages, the secret is the one minted for this
  approval, and the token it opens belongs to that member.
\<close>

theorem handed_to_approved_device:
  assumes "new_site s" and "answered (link_run env events s) (Poll ip raw) (LinkPolled status (Some secret))"
  shows "\<exists>device_code uh m tid. canonical_device_code raw = Some device_code \<and>
    started_as env (set (arrivals events)) uh (lv_hash env device_code) \<and>
    approved_by env (set (arrivals events)) uh m secret \<and>
    token_of (link_state env events s) tid m (lv_hash env secret)"
proof -
  have "link_post env (set (arrivals events)) (Poll ip raw) (LinkPolled status (Some secret)) (link_state env events s)"
    using link.run_answer [where R = "set (arrivals events)" and events = events, OF new_site_inv [OF assms(1)]] assms(2)
    unfolding link_run_def link_state_def by (simp add: list_all_iff)
  then show ?thesis by (fastforce simp: link_post_def handed_def)
qed

lemma handed_to_approved_device_witness:
  "\<exists>device_code uh m tid. canonical_device_code (generate_secret_hex link_wit_device) = Some device_code \<and>
    started_as link_wit_env (set (arrivals link_wit_events)) uh (lv_hash link_wit_env device_code) \<and>
    approved_by link_wit_env (set (arrivals link_wit_events)) uh m (generate_secret_hex link_wit_secret) \<and>
    token_of (link_state link_wit_env link_wit_events link_wit_site) tid m
      (lv_hash link_wit_env (generate_secret_hex link_wit_secret))"
  by (rule handed_to_approved_device [OF link_wit_new, where ip = "''1''" and status = "''approved''"])
    (simp add: answered_def link_wit_third)

text \<open>
  C16: The raw secret is stored only between approval and collection. In every reachable state a link keeps a secret
  only while it is approved, with the token and the member of the approval; a pending link has neither; a link is
  pending, approved, denied or consumed.
\<close>

theorem secret_stored_while_approved:
  assumes "new_site s" and "rows (ls_links (link_state env events s)) k = Some r"
  shows "lk_status r \<in> {PENDING, APPROVED, DENIED, CONSUMED} \<and>
    (lk_status r = PENDING \<longrightarrow> lk_token r = None \<and> lk_member r = None \<and> lk_handover r = None) \<and>
    (\<forall>secret. lk_handover r = Some secret \<longrightarrow> lk_status r = APPROVED \<and>
      (\<exists>m tid. lk_member r = Some m \<and> lk_token r = Some tid \<and>
        token_of (link_state env events s) tid m (lv_hash env secret) \<and>
        approved_by env (set (arrivals events)) (lk_user_hash r) m secret))"
proof -
  have "link_ok env (set (arrivals events)) (link_state env events s) r"
    using link_invD(6) [OF link.run_inv [where R = "set (arrivals events)" and events = events, OF new_site_inv [OF assms(1)]]]
      assms(2) unfolding link_state_def by (simp add: list_all_iff)
  then show ?thesis unfolding link_ok_def by (cases "lk_member r"; cases "lk_token r") auto
qed

lemma secret_stored_while_approved_witness:
  "lk_status link_wit_approved = APPROVED \<and>
    (\<exists>m tid. lk_member link_wit_approved = Some m \<and> lk_token link_wit_approved = Some tid \<and>
      token_of (link_state link_wit_env link_wit_approval link_wit_site) tid m (lv_hash link_wit_env (generate_secret_hex link_wit_secret)) \<and>
      approved_by link_wit_env (set (arrivals link_wit_approval)) (lk_user_hash link_wit_approved) m (generate_secret_hex link_wit_secret))"
proof -
  have "rows (ls_links (link_state link_wit_env link_wit_approval link_wit_site)) [] = Some link_wit_approved"
    by (simp add: link_wit_states link_wit_minted_def t_create_def)
  from secret_stored_while_approved [OF link_wit_new this]
  have "\<forall>secret. lk_handover link_wit_approved = Some secret \<longrightarrow> lk_status link_wit_approved = APPROVED \<and>
      (\<exists>m tid. lk_member link_wit_approved = Some m \<and> lk_token link_wit_approved = Some tid \<and>
        token_of (link_state link_wit_env link_wit_approval link_wit_site) tid m (lv_hash link_wit_env secret) \<and>
        approved_by link_wit_env (set (arrivals link_wit_approval)) (lk_user_hash link_wit_approved) m secret)"
    by (elim conjE)
  moreover have "lk_handover link_wit_approved = Some (generate_secret_hex link_wit_secret)"
    by (simp add: link_wit_approved_def)
  ultimately show ?thesis by blast
qed

text \<open>
  C10: A link moves from pending to approved or denied and from approved to denied or consumed, and nowhere else; its
  codes, its life time and, once it has one, its token never change. A link that is removed has been consumed, or
  its token (if it had one) is revoked: no uncollected token outlives its link.
\<close>

theorem link_life_cycle:
  assumes "new_site s" and "rows (ls_links (link_state env events s)) k = Some r"
  shows "case rows (ls_links (link_state env (events @ [e]) s)) k of
      Some r' \<Rightarrow> link_edge r r'
    | None \<Rightarrow> lk_token r = None \<or> lk_status r = CONSUMED \<or>
        (\<exists>tid. lk_token r = Some tid \<and> token_dead (link_state env (events @ [e]) s) tid)"
proof -
  let ?R = "set (arrivals (events @ [e]))"
  have "link_guar (link_state env events s) (link_state env (events @ [e]) s)"
    unfolding link_state_def by (rule link.run_guar [OF new_site_inv [OF assms(1), of env ?R]]) (simp add: list_all_iff)
  then show ?thesis using assms(2) unfolding link_guar_def by (cases "lk_token r") (auto split: option.split)
qed

lemma link_life_cycle_witness:
  "case rows (ls_links (link_state link_wit_env (link_wit_start @ [Ticks 5]) link_wit_site)) [] of
      Some r' \<Rightarrow> link_edge link_wit_row r'
    | None \<Rightarrow> lk_token link_wit_row = None \<or> lk_status link_wit_row = CONSUMED \<or>
        (\<exists>tid. lk_token link_wit_row = Some tid \<and>
          token_dead (link_state link_wit_env (link_wit_start @ [Ticks 5]) link_wit_site) tid)"
  by (rule link_life_cycle [OF link_wit_new]) (simp add: link_wit_states link_wit_started_def t_create_def)

subsection \<open>Every request is answered\<close>

lemma seven: "(7 :: nat) = Suc (Suc (Suc (Suc (Suc (Suc (Suc 0))))))"
  by simp

lemmas within_simps = bind_memory bind_query statement_def try_bind_def read_clock_def audit_link_def note_invalid_def

lemma approve_within: "within 7 (approve_link env c raw secret_bytes)"
  by (auto simp: approve_link_def with_user_code_def within_simps Let_def lookup_device_link_def create_daemon_token_def
      approve_tail_def approve_device_link_def revoke_daemon_token_def seven split: sum.split option.split prod.split bool.split)

lemma deny_within: "within 7 (deny_link env c raw)"
  by (auto simp: deny_link_def with_user_code_def within_simps Let_def deny_device_link_def
      revoke_daemon_token_def seven split: sum.split option.split prod.split bool.split)

lemma tries_within: "within (2 * n) (poll_tries n h now)"
proof (induction n)
  case (Suc n)
  have "within (Suc (Suc (2 * n))) (poll_tries (Suc n) h now)"
    using Suc by (auto simp: within_simps load_by_device_hash_def touch_poll_def consume_approved_def
        split: option.split sum.split consumed.split)
  then show ?case by simp
qed simp

lemma poll_within: "within 7 (limit_link_poll env ip (poll_link env raw))"
proof -
  have tries: "within (2 * 2 + 1) (bind (poll_device_link hash device_code now) k)" if "\<And>a. within 1 (k a)" for hash device_code now k
    unfolding poll_device_link_def by (rule within_bind [OF tries_within that])
  have "within 6 (poll_link env raw)"
    unfolding poll_link_def read_clock_def bind_memory by (auto intro!: tries [simplified] split: option.split)
  then show ?thesis by (auto simp: limit_link_poll_def bind_memory split: option.split)
qed

lemma request_within: "r \<noteq> Cleanup \<Longrightarrow> within 7 (serve_link env r)"
  by (cases r)
    (auto simp: approve_within deny_within poll_within start_link_def insert_device_link_def lookup_link_def with_user_code_def
      within_simps lookup_device_link_def create_token_route_def create_daemon_token_def revoke_token_route_def revoke_daemon_token_def
      authenticate_daemon_def validate_daemon_token_def lookup_daemon_token_def Let_def
      split: sum.split option.split prod.split bool.split daemon_lookup.split list.split)



subsection \<open>A deny that fails\<close>

text \<open>The site with one token inactive.\<close>

definition revoked_site :: "string \<Rightarrow> token_row \<Rightarrow> link_site \<Rightarrow> link_site" where
  "revoked_site tid t s = s\<lparr>ls_tokens := t_update tid (t\<lparr>dt_active := False\<rparr>) (ls_tokens s)\<rparr>"



end
