(* ===== verification/Spec2Isabelle.thy ===== *)
theory Spec2Isabelle
  imports GateProxy RelayDirectory RelayCreds RoundRobin SwissRounds DoubleElim BracketPlay MembershipProps BoundaryClaims
    LockoutRules LinkLimits NostrLogin DeviceLinkProps
begin

text \<open>
  A verification development for the Scuffed Crew platform (Rust, under \<open>crates/\<close>).

  The modelled program has six parts.

  \<^bold>\<open>The Nostr relay's guards\<close> (\<open>crates/relay-policy\<close>). Clients reach the relay \<open>strfry\<close> only
  through the read gate: it classifies the first HTTP request, admits the connection under
  per-address limits, and then pumps WebSocket messages both ways. Client frames go through
  \<open>GateSession\<close> (NIP-42 authentication, publishing rules, the gift-wrap budget); relay frames go
  through \<open>allow_event\<close>, which decides from a directory of members and channels who may receive an
  event. Events that reach \<open>strfry\<close> are judged by the write plugin, \<open>PolicyEngine\<close>. Both processes
  load their directories from the same database rows.

  \<^item> \<open>ReadPolicy\<close>: \<open>read_policy.rs\<close>, the directory and \<open>allow_event\<close>; the specification \<open>may_read\<close> is
    stated on the rows, and the lemmas show that the directory implements it.
  \<^item> \<open>GiftBudget\<close>, \<open>GateSession\<close>: \<open>session.rs\<close> and \<open>nip42.rs\<close>.
  \<^item> \<open>GateLimits\<close>: \<open>limits.rs\<close>; reachable states as an inductive predicate, with the exactness of the
    connection counter as its invariant.
  \<^item> \<open>GateProxy\<close>: \<open>http_gate.rs\<close> and \<open>proxy.rs\<close>; a connection is a sequence of messages, and the
    other connections may change the shared budgets between any two of them.
  \<^item> \<open>WritePolicy\<close>: \<open>policy.rs\<close> and the line handler of \<open>main.rs\<close>.
  \<^item> \<open>OrgRoles\<close>, \<open>RelayDirectory\<close>: the loaders of \<open>directory.rs\<close> and \<open>main.rs\<close>, and how the two
    directories agree.
  \<^item> \<open>RelayCreds\<close>: \<open>creds.rs\<close>, the credentials a production relay may start with.

  The three sliding-window limiters (frames and connections, gift wraps, writes) interpret the
  locale \<open>rate_limiter\<close> of theory \<open>RateWindow\<close>, which proves the window bound once.

  \<^bold>\<open>Tournaments\<close> (\<open>crates/db/src/queries/tournaments.rs\<close>, \<open>crates/types/src/org/tournament.rs\<close>). The
  database is a record of four tables (theory \<open>Tables\<close>) and the ids it will hand out; a query is a
  state transformer with an error result.

  \<^item> \<open>TournamentTypes\<close>, \<open>TournamentDb\<close>: the stored enums, the rows and every query, with the
    invariant \<open>db_ok\<close> that no id is handed out twice.
  \<^item> \<open>Seeding\<close>, \<open>BracketBuild\<close>: the seed order and the loops the generators share; \<open>added\<close> and
    \<open>created\<close> state what such a loop leaves in the tables.
  \<^item> \<open>SingleElim\<close>, \<open>DoubleElim\<close>, \<open>RoundRobin\<close>, \<open>SwissRounds\<close>: the four generators and the Swiss
    standings. Single elimination refines a closed form of the bracket; for double elimination the
    wiring is shown to fill every later slot exactly once.
  \<^item> \<open>MatchReport\<close>: the report of a match and its interleavings with the other writers.
  \<^item> \<open>Pagination\<close>: the cursors of \<open>crates/types/src/api/mod.rs\<close>.
  \<^item> \<open>DbEffects\<close>: what every query keeps of the database, as interpretations of the locale \<open>effect\<close>.
  \<^item> \<open>SiteAuth\<close>: the member extractors of \<open>crates/site-server/src/extractors.rs\<close>, the role gates.
  \<^item> \<open>TournamentRoutes\<close>: the handlers of \<open>crates/site-server/src/routes/tournaments.rs\<close> on a site (the
    database and the audit log), and \<open>serve\<close>, one request.
  \<^item> \<open>RouteRules\<close>: who may do what, the audit trail, the status machine, the hiding of drafts, and the
    invariant of the site over any sequence of requests.
  \<^item> \<open>TournamentPlay\<close>, \<open>BracketPlay\<close>: the effect of one report, the invariant of a single-elimination
    bracket in play, and that it can always be played to its end.

  \<^bold>\<open>Membership\<close> (\<open>crates/site-server/src/membership_policy.rs\<close> and the routes and queries of members,
  moderation and applications). The organisation is a record of tables and the audit log.

  \<^item> \<open>MembershipPolicy\<close>: the rules of \<open>membership_policy.rs\<close>; \<open>ProfileFields\<close>: the checks of social
    handles and avatar paths; \<open>SiteAudit\<close>: the audit write.
  \<^item> \<open>MembershipDb\<close>, \<open>MembershipRoutes\<close>: the queries, the handlers, and \<open>serve_org\<close>, one request with the
    session it comes with.
  \<^item> \<open>MembershipRules\<close>: the rules as a step relation \<open>org_step\<close>, which the profile and role routes refine;
    \<open>MembershipSteps\<close>: the moderation and application routes do, and so does every request.
  \<^item> \<open>MembershipSafety\<close>, \<open>MembershipProps\<close>: what follows over any sequence of requests: an administrator
    remains, officers and administrators are safe from below, a suspension holds, applications settle.

  \<^bold>\<open>The stat tracker's session machine\<close> (\<open>crates/stat-tracker/src/boundary.rs\<close>). The desktop daemon polls
  the screen and captures scoreboards; this machine decides when one match ends and the next begins, and which
  result belongs to which.

  \<^item> \<open>BoundaryTypes\<close>, \<open>BoundaryStep\<close>: the data and the one \<open>transition\<close>. A \<open>u32\<close> is a natural number with
    its saturation written out, an array of six columns a function of the column.
  \<^item> \<open>BoundaryPoll\<close>: \<open>decide_poll\<close> and \<open>commit_poll\<close>; \<open>BoundaryCapture\<close>: \<open>plan_capture_held\<close>,
    \<open>note_accepted_capture\<close> and \<open>finished_game_tab\<close>. The branch that the code marks unreachable is \<open>None\<close>.
  \<^item> \<open>BoundaryRules\<close>: the table of the module documentation as a relation, and that the transition is it.
  \<^item> \<open>BoundaryRuns\<close>, \<open>BoundaryProps\<close>: runs of the open session over polls, captures and results read off a frame,
    with the invariants of a session along them. A capture is folded into the session that it was planned on; the
    gate it leaves, the doubt of its cells and its clock readings are arbitrary.
  \<^item> \<open>BoundaryHeld\<close>, \<open>BoundaryClaims\<close>: what follows: a result stands, a reset takes two signals, a cell without
    a number abstains.

  \<^bold>\<open>Signing in\<close> (\<open>crates/site-server/src/login_lockout.rs\<close>, \<open>link_attempts.rs\<close>, \<open>link_poll.rs\<close>,
  \<open>challenge_store.rs\<close> and the sign-in handlers of \<open>routes/auth.rs\<close> and \<open>routes/nostr.rs\<close>).

  \<^item> \<open>LoginLockout\<close>: the store of failed password logins and \<open>local_login\<close>; \<open>LockoutRules\<close>: how many guesses
    an account has to bear, and which accounts a full store keeps.
  \<^item> \<open>LinkLimits\<close>: wrong user codes and polls per address; \<open>NostrLogin\<close>: challenge tokens, fresh events, used
    challenges and \<open>nostr_login_verify\<close>. The wrong codes and the used challenges interpret \<open>rate_limiter\<close> too.

  The maps are association lists; the victim that an unspecified \<open>HashMap\<close> order would give is an argument.
  What a session is stored as is left out, and so is the time a dummy password check takes.

  \<^bold>\<open>Device sign-in\<close> (\<open>crates/site-server/src/routes/link.rs\<close>, \<open>link_cleanup.rs\<close>, the token routes of
  \<open>routes/stats.rs\<close>, the daemon check of \<open>extractors.rs\<close>, and \<open>crates/db/src/queries/device_link.rs\<close> and
  \<open>daemon_tokens.rs\<close>). The stat tracker shows a user code; a member approves it in the browser; the tracker polls
  with its device code and is handed a daemon token, once. These requests race by design, so they are modelled
  statement by statement.

  \<^item> \<open>Programs\<close>: a handler as a program of atomic steps, each of them a touch of the server's memory or one
    database statement, which may fail, with or without having taken effect; \<open>serve_events\<close> interleaves any
    number of them. The locale \<open>interleaved\<close> is the proof method: an invariant, what a statement may change, what
    survives the statements of others; \<open>budgeted\<close> adds a resource that no program copies; \<open>within\<close> counts steps.
  \<^item> \<open>LinkCodes\<close>: the codes, labels, versions, origins and query strings; \<open>DeviceLinkDb\<close>: the queries;
    \<open>DeviceLinkRoutes\<close>: the handlers, the cleanup, and \<open>serve_link\<close>.
  \<^item> \<open>DeviceLinkRules\<close>: the invariant of the tables and the edges of a link's life, kept by every statement;
    \<open>DeviceLinkSafety\<close>: kept by every handler; \<open>DeviceLinkBudget\<close>: the secret as a resource.
  \<^item> \<open>DeviceLinkRuns\<close>: a sign-in from start to token; \<open>DeviceLinkProps\<close>: what holds of every run.

  The database and the server share one clock. A failure of the audit write is ignored, as in the code.

  \<^bold>\<open>Parameters.\<close> Code that is not in the repository is an argument of the definitions that use it:
  the JSON parser and printer, the HTTP parser, the address and network types, the signature check
  of the \<open>nostr\<close> library. Clock readings are arguments too; where an order matters, the theorems
  assume that time does not run backwards. The session check and the member lookup are arguments of the
  extractors; the membership routes supply the lookup of their own tables. The key of a display name, a new
  key pair and the ids the database makes up are functions in the state of \<open>MembershipDb\<close>.

  \<^bold>\<open>Requests.\<close> The tournament, membership and password routes are served one request at a time; the interleaving of the statements of
  concurrent reports is treated in \<open>MatchReport\<close>. The undo branches of the membership routes, meant for
  concurrent requests, are in the model; that they are not reached one request at a time is part of the proofs. There, the write of the
  audit log is taken not to fail. The requests of the device sign-in interleave.

  \<^bold>\<open>Fuel.\<close> The only fuel is in \<open>walk_pages\<close>, a client that follows the cursors; one page more than
  there are rows is proved to be enough. The two tries of \<open>poll_tries\<close> are those of the code.

  \<^bold>\<open>Not modelled.\<close> Sockets, timers, logging and start-up; connection failures and timeouts of the
  database outside the device sign-in; its middleware (\<open>no-store\<close> headers, the URI without its query, 405 answers);
  the live-query watchers; the web front end, the stat tracker's capture and OCR pipeline, its
  capture gate and its store, the remaining HTTP routes and queries.
\<close>

end
